(* ===== verification/Prelude.thy ===== *)
theory Prelude
  imports Complex_Main
begin

text \<open>
  Shared vocabulary of the development: the type names of the model (row identifiers, instants,
  money), Python's JSON values, fallible computations, keyed table rows and the small string
  functions of the standard library the coordinator uses.  A table is the list of its rows in
  insertion order; \<open>tget\<close> is the primary-key lookup \<open>session.get\<close>, \<open>tput\<close> the write-back of a
  mutated row, and appending a row is \<open>session.add\<close> followed by a flush.
\<close>

named_theorems table_simps \<open>lookups in keyed tables after writes\<close>
named_theorems ledger_pres \<open>operations that keep the ledger invariant\<close>
named_theorems frame_simps \<open>tables an operation does not touch\<close>

section \<open>Type names\<close>

text \<open>Row identifiers (\<open>uuid.UUID\<close>) are naturals, read as the 128-bit value of the identifier.\<close>

type_synonym uuid = nat

text \<open>Instants (\<open>datetime\<close>, always UTC) are microseconds since the epoch; money is the exact value
  of a \<open>Decimal\<close>.\<close>

type_synonym instant = int
type_synonym money = rat

definition seconds :: "int \<Rightarrow> instant" where
  "seconds n = n * 1000000"

section \<open>JSON values\<close>

text \<open>The values that travel in JSON columns (proofs, evidence, arguments).  \<open>JFloat\<close> carries the
  exact value of the double; an object is the insertion-ordered \<open>dict\<close>.\<close>

datatype json =
    JNull
  | JBool bool
  | JInt int
  | JFloat rat
  | JStr string
  | JList "json list"
  | JObj "(string \<times> json) list"

type_synonym jdict = "(string \<times> json) list"

text \<open>\<open>d.get(k)\<close> answers \<open>None\<close> (here \<open>JNull\<close>) for an absent key.\<close>

definition jget :: "jdict \<Rightarrow> string \<Rightarrow> json" where
  "jget d k = (case map_of d k of None \<Rightarrow> JNull | Some v \<Rightarrow> v)"

definition jopt :: "string option \<Rightarrow> json" where
  "jopt x = (case x of None \<Rightarrow> JNull | Some s \<Rightarrow> JStr s)"

text \<open>\<open>(proof or {})\<close>: a missing dictionary reads as the empty one.\<close>

definition or_empty :: "jdict option \<Rightarrow> jdict" where
  "or_empty d = (case d of None \<Rightarrow> [] | Some x \<Rightarrow> x)"

text \<open>Python truthiness of a JSON value.\<close>

fun truthy :: "json \<Rightarrow> bool" where
  "truthy JNull \<longleftrightarrow> False"
| "truthy (JBool b) \<longleftrightarrow> b"
| "truthy (JInt n) \<longleftrightarrow> n \<noteq> 0"
| "truthy (JFloat x) \<longleftrightarrow> x \<noteq> 0"
| "truthy (JStr s) \<longleftrightarrow> s \<noteq> []"
| "truthy (JList xs) \<longleftrightarrow> xs \<noteq> []"
| "truthy (JObj d) \<longleftrightarrow> d \<noteq> []"

text \<open>Python compares and hashes \<open>True\<close>, \<open>1\<close> and \<open>1.0\<close> alike; \<open>jnorm\<close> picks one representative.  Lists
  and dictionaries cannot be hashed.\<close>

fun jnorm :: "json \<Rightarrow> json" where
  "jnorm (JBool b) = JInt (if b then 1 else 0)"
| "jnorm (JFloat x) = (if of_int \<lfloor>x\<rfloor> = x then JInt \<lfloor>x\<rfloor> else JFloat x)"
| "jnorm v = v"

fun hashable :: "json \<Rightarrow> bool" where
  "hashable (JList xs) \<longleftrightarrow> False"
| "hashable (JObj d) \<longleftrightarrow> False"
| "hashable v \<longleftrightarrow> True"

section \<open>Fallible computations\<close>

definition bindE :: "'e + 'a \<Rightarrow> ('a \<Rightarrow> 'e + 'b) \<Rightarrow> 'e + 'b" where
  "bindE r f = (case r of Inl e \<Rightarrow> Inl e | Inr x \<Rightarrow> f x)"

lemma bindE_simps [simp]:
  "bindE (Inl e) f = Inl e"
  "bindE (Inr x) f = f x"
  by (simp_all add: bindE_def)

lemma bindE_Inr_iff: "bindE r f = Inr y \<longleftrightarrow> (\<exists>x. r = Inr x \<and> f x = Inr y)"
  by (cases r) simp_all

lemma bindE_InrE:
  assumes "bindE r f = Inr y"
  obtains x where "r = Inr x" "f x = Inr y"
  using assms by (auto simp: bindE_Inr_iff)

text \<open>A \<open>for\<close> loop whose body may raise.\<close>

fun foldE :: "('x \<Rightarrow> 's \<Rightarrow> 'e + 's) \<Rightarrow> 'x list \<Rightarrow> 's \<Rightarrow> 'e + 's" where
  "foldE f [] s = Inr s"
| "foldE f (x # xs) s = bindE (f x s) (foldE f xs)"

text \<open>What every step of a loop keeps, the loop keeps.\<close>

lemma foldE_inv:
  assumes "foldE f xs s = Inr s'" "I s"
    and "\<And>x s s'. x \<in> set xs \<Longrightarrow> I s \<Longrightarrow> f x s = Inr s' \<Longrightarrow> I s'"
  shows "I s'"
  using assms
proof (induction xs arbitrary: s)
  case (Cons x xs)
  from Cons.prems(1) obtain t where t: "f x s = Inr t" "foldE f xs t = Inr s'"
    by (auto elim: bindE_InrE)
  have "I t" using Cons.prems(2,3) t(1) by auto
  with t(2) show ?case using Cons.IH Cons.prems(3) by auto
qed simp

section \<open>Keyed tables\<close>

definition tget :: "('r \<Rightarrow> 'k) \<Rightarrow> 'k \<Rightarrow> 'r list \<Rightarrow> 'r option" where
  "tget key k xs = find (\<lambda>r. key r = k) xs"

definition tput :: "('r \<Rightarrow> 'k) \<Rightarrow> 'r \<Rightarrow> 'r list \<Rightarrow> 'r list" where
  "tput key r xs = map (\<lambda>x. if key x = key r then r else x) xs"

lemma tget_Nil [simp]: "tget key k [] = None"
  by (simp add: tget_def)

lemma tget_Cons [simp]: "tget key k (x # xs) = (if key x = k then Some x else tget key k xs)"
  by (simp add: tget_def)

lemma tget_append: "tget key k (xs @ ys) = (case tget key k xs of None \<Rightarrow> tget key k ys | Some r \<Rightarrow> Some r)"
  by (induction xs) auto

lemma tget_SomeD: "tget key k xs = Some r \<Longrightarrow> r \<in> set xs \<and> key r = k"
  by (induction xs) (auto split: if_splits)

lemma tget_None_iff: "tget key k xs = None \<longleftrightarrow> k \<notin> key ` set xs"
  by (induction xs) auto

lemma tput_Nil [simp]: "tput key r [] = []"
  by (simp add: tput_def)

lemma tput_Cons [simp]: "tput key r (x # xs) = (if key x = key r then r else x) # tput key r xs"
  by (simp add: tput_def)

lemma tget_tput [table_simps]:
  "tget key k (tput key r xs) = (if k = key r \<and> tget key k xs \<noteq> None then Some r else tget key k xs)"
  by (induction xs) auto

lemma tput_keys [simp]: "map key (tput key r xs) = map key xs"
  by (induction xs) auto

lemma set_tput: "set (tput key r xs) \<subseteq> insert r (set xs)"
  by (auto simp: tput_def)

lemma tput_ball: "P r \<Longrightarrow> \<forall>x \<in> set xs. P x \<Longrightarrow> \<forall>x \<in> set (tput key r xs). P x"
  using set_tput by fastforce

lemma length_tput [simp]: "length (tput key r xs) = length xs"
  by (simp add: tput_def)

lemma tput_absent: "key r \<notin> key ` set xs \<Longrightarrow> tput key r xs = xs"
  by (induction xs) auto

lemma tput_in: "distinct (map key xs) \<Longrightarrow> r \<in> set xs \<Longrightarrow> key r' = key r
    \<Longrightarrow> set (tput key r' xs) = insert r' (set xs - {r})"
  by (induction xs) (auto simp: tput_absent image_iff inj_on_def)

lemma tput_map: "(\<And>x. x \<in> set xs \<Longrightarrow> key x = key r \<Longrightarrow> f x = f r) \<Longrightarrow> map f (tput key r xs) = map f xs"
  by (auto simp: tput_def)

lemma tget_member: "distinct (map key xs) \<Longrightarrow> r \<in> set xs \<Longrightarrow> tget key (key r) xs = Some r"
  by (induction xs) (auto simp: image_iff)

text \<open>Overwriting the one row with a key changes a sum over the rows by that row's difference.\<close>

lemma sum_list_tput:
  fixes f :: "'r \<Rightarrow> 'v::ab_group_add"
  assumes "distinct (map key xs)" "tget key (key r) xs = Some r0"
  shows "sum_list (map f (tput key r xs)) = sum_list (map f xs) - f r0 + f r"
  using assms
proof (induction xs)
  case (Cons x xs)
  show ?case
  proof (cases "key x = key r")
    case True
    with Cons.prems have "key r \<notin> key ` set xs" "r0 = x" by auto
    with True show ?thesis by (simp add: tput_absent)
  next
    case False
    with Cons show ?thesis by (simp add: algebra_simps)
  qed
qed simp

section \<open>Strings of the standard library\<close>

definition hex_digit :: "int \<Rightarrow> char" where
  "hex_digit n = (if n < 10 then char_of (48 + n) else char_of (87 + n))"

fun hex_fixed :: "nat \<Rightarrow> int \<Rightarrow> string" where
  "hex_fixed 0 n = []"
| "hex_fixed (Suc k) n = hex_fixed k (n div 16) @ [hex_digit (n mod 16)]"

text \<open>\<open>str(uuid)\<close>: the 32 hexadecimal digits in groups of 8, 4, 4, 4 and 12.\<close>

definition uuid_str :: "uuid \<Rightarrow> string" where
  "uuid_str u =
     (let h = hex_fixed 32 (int u)
      in take 8 h @ ''-'' @ take 4 (drop 8 h) @ ''-'' @ take 4 (drop 12 h) @ ''-''
         @ take 4 (drop 16 h) @ ''-'' @ drop 20 h)"

function nonneg_str :: "int \<Rightarrow> string" where
  "nonneg_str n = (if n < 10 then [char_of (48 + n)] else nonneg_str (n div 10) @ [char_of (48 + n mod 10)])"
  by pat_completeness auto
termination
  by (relation "measure nat") auto

declare nonneg_str.simps [simp del]

text \<open>\<open>str(i)\<close>\<close>

definition int_str :: "int \<Rightarrow> string" where
  "int_str i = (if i < 0 then CHR ''-'' # nonneg_str (- i) else nonneg_str i)"

lemma find_append: "find P (xs @ ys) = (case find P xs of None \<Rightarrow> find P ys | Some x \<Rightarrow> Some x)"
  by (induction xs) auto

lemma find_SomeD: "find P xs = Some x \<Longrightarrow> x \<in> set xs \<and> P x"
  by (auto simp: find_Some_iff)

end
