(* ===== verification/Models.thy ===== *)
theory Models
  imports Prelude
begin

text \<open>
  The tables of \<open>api/app/models.py\<close>: one datatype per \<open>StrEnum\<close>, one record per mapped class and
  the record \<open>db\<close> of all tables.  Constructors carry the initials of their enumeration
  (\<open>js_queued\<close> is \<open>JobStatus.queued\<close>), record fields the initials of their class.  Columns that only
  feed the ORM (\<open>updated_at\<close>, \<open>relationship\<close>s, indexes) are left out.  Fresh identifiers
  (\<open>uuid.uuid4\<close>) come from the counter \<open>next_id\<close>, so that a new row never reuses one; it starts above
  the identifiers the source writes down as constants.
\<close>

section \<open>Enumerations\<close>

datatype JobStatus = js_queued | js_assigned | js_running | js_completed | js_failed | js_timeout

datatype JobKind = jk_standard | jk_canary

datatype OwnerType = ot_developer | ot_provider

datatype ApiKeyKind = ak_session | ak_programmatic

datatype AttemptOutcome =
  ao_assigned | ao_running | ao_completed | ao_failed | ao_timeout | ao_reassigned

datatype LedgerDirection = ld_debit | ld_credit

datatype LedgerAccount =
  la_developer | la_provider | la_protocol | la_escrow | la_stake | la_disputed

datatype DisputeState = ds_open | ds_under_review | ds_upheld | ds_overturned

datatype ReputationKind =
    rk_job_success | rk_job_failure | rk_timeout | rk_canary_pass | rk_canary_fail
  | rk_quorum_agree | rk_quorum_disagree | rk_dispute | rk_slash

datatype PathType = pt_direct | pt_relay

datatype DataTier = dt_public | dt_encrypted_at_rest | dt_confidential_tee

datatype BandwidthDirection = bd_ingress | bd_egress

datatype ChainTxStatus = cs_pending | cs_submitted | cs_confirmed | cs_failed

datatype ChainTxKind = ck_settle_batch | ck_deposit_settlement | ck_debit

text \<open>The \<open>str\<close> of the members that reach stored text.\<close>

fun JobKind_str :: "JobKind \<Rightarrow> string" where
  "JobKind_str jk_standard = ''standard''"
| "JobKind_str jk_canary = ''canary''"

section \<open>Errors\<close>

text \<open>Every exception the modelled code raises.  \<open>IntegrityError\<close> is a violated table constraint, as
  the flush reports it.\<close>

datatype err =
    HTTPException int string
  | IllegalTransitionError JobStatus JobStatus
  | UnbalancedTransactionError
  | IntegrityError string
  | InsufficientBalanceError money money
  | ValueError string
  | KeyError
  | TypeError
  | StopIteration
  | RuntimeError string
  | FileNotFoundError string
  | OSError string
  | BlobIntegrityError string string
  | OffsetMismatchError int int
  | ChainError string

section \<open>Rows\<close>

record Developer =
  dv_id :: uuid
  dv_name :: string
  dv_wallet_address :: "string option"
  dv_created_at :: instant

record Provider =
  pr_id :: uuid
  pr_name :: string
  pr_region :: "string option"
  pr_gpu_model :: "string option"
  pr_gpu_vram_mb :: int
  pr_cpu_cores :: int
  pr_memory_mb :: int
  pr_max_concurrent :: int
  pr_reputation :: rat
  pr_enabled :: bool
  pr_wallet_address :: string
  pr_tee_attested :: bool
  pr_degraded :: bool
  pr_connected_at :: "instant option"
  pr_last_seen :: "instant option"
  pr_path_type :: "PathType option"
  pr_path_established_at :: "instant option"
  pr_created_at :: instant

record ApiKey =
  ak_id :: uuid
  ak_owner_type :: OwnerType
  ak_developer_id :: "uuid option"
  ak_provider_id :: "uuid option"
  ak_key_hash :: string
  ak_prefix :: string
  ak_revoked :: bool
  ak_kind :: ApiKeyKind
  ak_expires_at :: "instant option"
  ak_label :: "string option"
  ak_created_at :: instant
  ak_last_used_at :: "instant option"

record ProviderModel =
  pm_id :: uuid
  pm_provider_id :: uuid
  pm_model :: string

record AuthNonce =
  an_id :: uuid
  an_nonce :: string
  an_address :: string
  an_message :: string
  an_expires_at :: instant
  an_used_at :: "instant option"

text \<open>The \<open>resource_spec\<close> dictionary: a field is \<open>None\<close> when the key is absent.\<close>

record ResourceSpec =
  rs_cpu_cores :: "int option"
  rs_memory_mb :: "int option"
  rs_gpu :: "bool option"
  rs_gpu_vram_mb :: "int option"

record Job =
  j_id :: uuid
  j_developer_id :: uuid
  j_kind :: JobKind
  j_status :: JobStatus
  j_image_ref :: string
  j_input_ref :: "string option"
  j_result_ref :: "string option"
  j_resource_spec :: ResourceSpec
  j_args :: "jdict option"
  j_allow_egress :: bool
  j_timeout_seconds :: int
  j_exposed_port :: "int option"
  j_data_tier :: DataTier
  j_wrapped_key :: "string option"
  j_is_high_value :: bool
  j_redundancy :: int
  j_expected_output_hash :: "string option"
  j_proof :: "jdict option"
  j_assigned_provider_id :: "uuid option"
  j_attempt_count :: int
  j_lease_expires_at :: "instant option"
  j_escrow_amount :: "money option"
  j_cost_final :: "money option"
  j_idempotency_key :: "string option"
  j_created_at :: instant
  j_queued_at :: "instant option"
  j_assigned_at :: "instant option"
  j_started_at :: "instant option"
  j_finished_at :: "instant option"

record JobAttempt =
  at_id :: uuid
  at_job_id :: uuid
  at_provider_id :: "uuid option"
  at_attempt_number :: int
  at_outcome :: AttemptOutcome
  at_lease_expires_at :: "instant option"
  at_result_ref :: "string option"
  at_proof :: "jdict option"
  at_created_at :: instant
  at_started_at :: "instant option"
  at_finished_at :: "instant option"

record LedgerEntry =
  le_id :: uuid
  le_entry_group :: uuid
  le_job_id :: "uuid option"
  le_account :: LedgerAccount
  le_account_ref :: "uuid option"
  le_direction :: LedgerDirection
  le_amount :: money
  le_reason :: string
  le_tx_hash :: "string option"
  le_created_at :: instant

record ReputationEvent =
  re_id :: uuid
  re_provider_id :: uuid
  re_job_id :: "uuid option"
  re_kind :: ReputationKind
  re_delta :: rat
  re_score_after :: rat
  re_created_at :: instant

record ProviderArtifact =
  pa_id :: uuid
  pa_provider_id :: uuid
  pa_digest :: string

record UploadSession =
  us_id :: uuid
  us_developer_id :: uuid
  us_declared_digest :: "string option"
  us_blob_ref :: "string option"

record Dispute =
  dp_id :: uuid
  dp_provider_id :: uuid
  dp_job_id :: "uuid option"
  dp_amount :: money
  dp_state :: DisputeState
  dp_reason :: string
  dp_evidence :: "jdict option"
  dp_evidence_hash :: "string option"
  dp_ruling_reason :: "string option"
  dp_window_expires_at :: "instant option"
  dp_created_at :: instant
  dp_resolved_at :: "instant option"

record HealthSample =
  hs_id :: uuid
  hs_provider_id :: uuid
  hs_gpu_temp_c :: "rat option"
  hs_throttling :: bool
  hs_error_rate :: rat
  hs_latency_ms :: "rat option"

record AuditLogEntry =
  al_id :: uuid
  al_seq :: int
  al_event :: string
  al_data :: jdict
  al_prev_hash :: string
  al_entry_hash :: string

record BenchmarkReport =
  br_id :: uuid
  br_provider_id :: uuid
  br_metrics :: jdict
  br_signature :: string
  br_validated :: bool
  br_hardware_fingerprint :: "string option"

record BandwidthEvent =
  be_id :: uuid
  be_provider_id :: uuid
  be_job_id :: "uuid option"
  be_direction :: BandwidthDirection
  be_num_bytes :: int
  be_created_at :: instant

text \<open>The \<open>payload\<close> of an outbound transaction: the payee wallets and raw-unit amounts of a batch, the
  amount of a pool deposit, or the wallet and amount of a debit.\<close>

datatype Payload =
    PayBatch "(string \<times> int) list"
  | PayFund int
  | PayDebit string int

record ChainSettlement =
  st_id :: uuid
  st_kind :: ChainTxKind
  st_status :: ChainTxStatus
  st_batch_key :: string
  st_nonce :: "int option"
  st_tx_hash :: "string option"
  st_block_number :: "int option"
  st_payload :: "Payload option"
  st_error :: "string option"
  st_created_at :: instant
  st_submitted_at :: "instant option"
  st_confirmed_at :: "instant option"

record ProviderSettlement =
  ps_id :: uuid
  ps_provider_id :: uuid
  ps_settlement_id :: uuid
  ps_amount_units :: int

record ChainEvent =
  ev_id :: uuid
  ev_event_name :: string
  ev_tx_hash :: string
  ev_log_index :: int
  ev_block_number :: int
  ev_block_hash :: string
  ev_address :: string
  ev_args :: jdict
  ev_confirmed :: bool
  ev_processed :: bool

record ChainCursor =
  cu_stream :: string
  cu_last_scanned_block :: int
  cu_head_block_hash :: "string option"

record FreeTierUsage =
  fu_id :: uuid
  fu_anchor :: string
  fu_kind :: string
  fu_day :: string
  fu_count :: int

section \<open>The database\<close>

record db =
  developers :: "Developer list"
  providers :: "Provider list"
  api_keys :: "ApiKey list"
  provider_models :: "ProviderModel list"
  auth_nonces :: "AuthNonce list"
  jobs :: "Job list"
  job_attempts :: "JobAttempt list"
  ledger_entries :: "LedgerEntry list"
  reputation_events :: "ReputationEvent list"
  provider_artifacts :: "ProviderArtifact list"
  upload_sessions :: "UploadSession list"
  disputes :: "Dispute list"
  health_samples :: "HealthSample list"
  audit_log :: "AuditLogEntry list"
  benchmark_reports :: "BenchmarkReport list"
  bandwidth_events :: "BandwidthEvent list"
  chain_settlements :: "ChainSettlement list"
  provider_settlements :: "ProviderSettlement list"
  chain_events :: "ChainEvent list"
  chain_cursors :: "ChainCursor list"
  free_tier_usage :: "FreeTierUsage list"
  next_id :: uuid

definition empty_db :: db where
  "empty_db = \<lparr> developers = [], providers = [], api_keys = [], provider_models = [],
     auth_nonces = [], jobs = [], job_attempts = [], ledger_entries = [], reputation_events = [],
     provider_artifacts = [], upload_sessions = [], disputes = [], health_samples = [],
     audit_log = [], benchmark_reports = [], bandwidth_events = [], chain_settlements = [],
     provider_settlements = [], chain_events = [], chain_cursors = [], free_tier_usage = [],
     next_id = 0x10000 \<rparr>"

text \<open>Primary-key lookups and write-backs of the rows the services mutate.\<close>

definition get_job :: "uuid \<Rightarrow> db \<Rightarrow> Job option" where
  "get_job k d = tget j_id k (jobs d)"

definition put_job :: "Job \<Rightarrow> db \<Rightarrow> db" where
  "put_job j d = d\<lparr>jobs := tput j_id j (jobs d)\<rparr>"

definition get_provider :: "uuid \<Rightarrow> db \<Rightarrow> Provider option" where
  "get_provider k d = tget pr_id k (providers d)"

definition put_provider :: "Provider \<Rightarrow> db \<Rightarrow> db" where
  "put_provider p d = d\<lparr>providers := tput pr_id p (providers d)\<rparr>"

definition put_attempt :: "JobAttempt \<Rightarrow> db \<Rightarrow> db" where
  "put_attempt a d = d\<lparr>job_attempts := tput at_id a (job_attempts d)\<rparr>"

definition get_dispute :: "uuid \<Rightarrow> db \<Rightarrow> Dispute option" where
  "get_dispute k d = tget dp_id k (disputes d)"

definition put_dispute :: "Dispute \<Rightarrow> db \<Rightarrow> db" where
  "put_dispute x d = d\<lparr>disputes := tput dp_id x (disputes d)\<rparr>"

end
