(* ===== verification/Ledger.thy ===== *)
theory Ledger
  imports Models
begin

text \<open>
  The double-entry ledger of \<open>api/app/ledger.py\<close>: \<open>post_transaction\<close> appends a balanced group of rows,
  every balance is derived by \<open>account_balance\<close>, and \<open>verify_ledger_integrity\<close> lists the unbalanced
  groups.  \<open>ledger_ok\<close> is the table's invariant (no unbalanced group, no negative amount, all
  group identifiers already issued).  The lemmas say exactly when a posting is accepted, how it
  moves each balance (\<open>effect\<close>), that it touches no other table and keeps the invariant, and that a
  ledger with the invariant sums to zero over its accounts.
\<close>

section \<open>Postings\<close>

record Posting =
  po_account :: LedgerAccount
  po_direction :: LedgerDirection
  po_amount :: money
  po_account_ref :: "uuid option"

definition Dr :: "LedgerAccount \<Rightarrow> money \<Rightarrow> uuid option \<Rightarrow> Posting" where
  "Dr a x r = \<lparr> po_account = a, po_direction = ld_debit, po_amount = x, po_account_ref = r \<rparr>"

definition Cr :: "LedgerAccount \<Rightarrow> money \<Rightarrow> uuid option \<Rightarrow> Posting" where
  "Cr a x r = \<lparr> po_account = a, po_direction = ld_credit, po_amount = x, po_account_ref = r \<rparr>"

lemma Dr_Cr_sel [simp]:
  "po_account (Dr a x r) = a" "po_direction (Dr a x r) = ld_debit" "po_amount (Dr a x r) = x"
  "po_account_ref (Dr a x r) = r"
  "po_account (Cr a x r) = a" "po_direction (Cr a x r) = ld_credit" "po_amount (Cr a x r) = x"
  "po_account_ref (Cr a x r) = r"
  by (simp_all add: Dr_def Cr_def)

text \<open>The sum of the amounts on one side of a posting set.\<close>

definition side :: "LedgerDirection \<Rightarrow> Posting list \<Rightarrow> money" where
  "side dir ps = sum_list (map po_amount (filter (\<lambda>p. po_direction p = dir) ps))"

fun mk_entries :: "instant \<Rightarrow> uuid \<Rightarrow> string \<Rightarrow> uuid option \<Rightarrow> string option \<Rightarrow> uuid \<Rightarrow> Posting list \<Rightarrow> LedgerEntry list" where
  "mk_entries now grp reason job_id tx k [] = []"
| "mk_entries now grp reason job_id tx k (p # ps) =
     \<lparr> le_id = k, le_entry_group = grp, le_job_id = job_id, le_account = po_account p,
       le_account_ref = po_account_ref p, le_direction = po_direction p, le_amount = po_amount p,
       le_reason = reason, le_tx_hash = tx, le_created_at = now \<rparr>
     # mk_entries now grp reason job_id tx (Suc k) ps"

text \<open>Append a balanced set of rows; the flush rejects a negative amount
  (\<open>ck_ledger_amount_nonneg\<close>).\<close>

definition post_transaction ::
    "instant \<Rightarrow> Posting list \<Rightarrow> string \<Rightarrow> uuid option \<Rightarrow> string option \<Rightarrow> db \<Rightarrow> err + (uuid \<times> db)" where
  "post_transaction now postings reason job_id tx_hash d =
     (if postings = [] then Inl UnbalancedTransactionError
      else if side ld_debit postings \<noteq> side ld_credit postings then Inl UnbalancedTransactionError
      else if \<exists>p \<in> set postings. po_amount p < 0 then Inl (IntegrityError ''ck_ledger_amount_nonneg'')
      else
        (let grp = next_id d;
             rows = mk_entries now grp reason job_id tx_hash (Suc grp) postings
         in Inr (grp, d\<lparr>ledger_entries := ledger_entries d @ rows,
                        next_id := Suc grp + length postings\<rparr>)))"

section \<open>Balances\<close>

definition on_account :: "LedgerAccount \<Rightarrow> uuid option \<Rightarrow> LedgerEntry \<Rightarrow> bool" where
  "on_account acc ref e \<longleftrightarrow> le_account e = acc \<and> (ref = None \<or> le_account_ref e = ref)"

definition sum_side :: "LedgerDirection \<Rightarrow> LedgerAccount \<Rightarrow> uuid option \<Rightarrow> db \<Rightarrow> money" where
  "sum_side dir acc ref d =
     sum_list (map le_amount (filter (\<lambda>e. on_account acc ref e \<and> le_direction e = dir) (ledger_entries d)))"

definition account_balance :: "LedgerAccount \<Rightarrow> uuid option \<Rightarrow> db \<Rightarrow> money" where
  "account_balance acc ref d = sum_side ld_credit acc ref d - sum_side ld_debit acc ref d"

definition provider_stake :: "uuid \<Rightarrow> db \<Rightarrow> money" where
  "provider_stake pid d = account_balance la_stake (Some pid) d"

definition group_delta :: "LedgerEntry list \<Rightarrow> uuid \<Rightarrow> money" where
  "group_delta es g =
     sum_list (map (\<lambda>e. if le_entry_group e = g \<and> le_direction e = ld_debit then le_amount e else 0) es)
     - sum_list (map (\<lambda>e. if le_entry_group e = g \<and> le_direction e = ld_credit then le_amount e else 0) es)"

definition verify_ledger_integrity :: "db \<Rightarrow> (uuid \<times> money) list" where
  "verify_ledger_integrity d =
     filter (\<lambda>(g, delta). delta \<noteq> 0)
       (map (\<lambda>g. (g, group_delta (ledger_entries d) g)) (remdups (map le_entry_group (ledger_entries d))))"

definition deposit_stake :: "instant \<Rightarrow> uuid \<Rightarrow> money \<Rightarrow> db \<Rightarrow> err + (uuid \<times> db)" where
  "deposit_stake now provider_id amount d =
     post_transaction now [Dr la_protocol amount None, Cr la_stake amount (Some provider_id)]
       ''stake_deposit'' None None d"

text \<open>Debit up to \<open>amount\<close> of a provider's stake, capped at the balance.\<close>

definition slash_stake :: "instant \<Rightarrow> uuid \<Rightarrow> money \<Rightarrow> uuid option \<Rightarrow> db \<Rightarrow> err + (money \<times> db)" where
  "slash_stake now provider_id amount job_id d =
     (let current = provider_stake provider_id d; slashed = min amount current in
      if slashed \<le> 0 then Inr (0, d)
      else bindE (post_transaction now
                    [Dr la_stake slashed (Some provider_id), Cr la_protocol slashed None]
                    ''slash'' job_id None d)
             (\<lambda>(_, d). Inr (slashed, d)))"

section \<open>Effects of a posting\<close>

text \<open>The signed contribution of a row, and of a posting set, to one account.\<close>

definition signed :: "LedgerDirection \<Rightarrow> money \<Rightarrow> money" where
  "signed dir x = (if dir = ld_credit then x else - x)"

lemma signed_simps [simp]: "signed ld_credit x = x" "signed ld_debit x = - x"
  by (simp_all add: signed_def)

definition net :: "LedgerEntry \<Rightarrow> money" where
  "net e = signed (le_direction e) (le_amount e)"

fun effect :: "LedgerAccount \<Rightarrow> uuid option \<Rightarrow> Posting list \<Rightarrow> money" where
  "effect acc ref [] = 0"
| "effect acc ref (p # ps) =
     (if po_account p = acc \<and> (ref = None \<or> po_account_ref p = ref)
      then signed (po_direction p) (po_amount p) else 0) + effect acc ref ps"

lemma not_debit [simp]: "dir \<noteq> ld_debit \<longleftrightarrow> dir = ld_credit"
  by (cases dir) auto

lemma balance_as_net:
  "account_balance acc ref d = sum_list (map net (filter (on_account acc ref) (ledger_entries d)))"
proof -
  have "sum_list (map le_amount (filter (\<lambda>e. on_account acc ref e \<and> le_direction e = ld_credit) es))
      - sum_list (map le_amount (filter (\<lambda>e. on_account acc ref e \<and> le_direction e = ld_debit) es))
      = sum_list (map net (filter (on_account acc ref) es))" for es
    by (induction es) (auto simp: net_def signed_def)
  then show ?thesis by (simp add: account_balance_def sum_side_def)
qed

lemma balance_mk_entries:
  "sum_list (map net (filter (on_account acc ref) (mk_entries now grp reason jid tx k ps))) = effect acc ref ps"
  by (induction ps arbitrary: k) (auto simp: on_account_def net_def)

lemma side_signed: "sum_list (map (\<lambda>p. signed (po_direction p) (po_amount p)) ps) = side ld_credit ps - side ld_debit ps"
  by (induction ps) (auto simp: side_def signed_def)

section \<open>When a posting is accepted\<close>

definition postable :: "Posting list \<Rightarrow> bool" where
  "postable ps \<longleftrightarrow> ps \<noteq> [] \<and> side ld_debit ps = side ld_credit ps \<and> (\<forall>p \<in> set ps. 0 \<le> po_amount p)"

lemma post_transaction_accepts:
  "postable ps \<longleftrightarrow> (\<exists>grp d'. post_transaction now ps reason jid tx d = Inr (grp, d'))"
  unfolding post_transaction_def postable_def Let_def by (auto simp flip: not_less)

lemma post_transaction_ex:
  "postable ps \<Longrightarrow> \<exists>d' grp. post_transaction now ps reason jid tx d = Inr (grp, d')"
  unfolding post_transaction_accepts [of ps now reason jid tx d] by blast

lemma post_transaction_Inr:
  assumes "post_transaction now ps reason jid tx d = Inr (grp, d')"
  shows "postable ps" "grp = next_id d"
    "d' = d\<lparr>ledger_entries := ledger_entries d @ mk_entries now (next_id d) reason jid tx (Suc (next_id d)) ps,
            next_id := Suc (next_id d) + length ps\<rparr>"
  using assms unfolding post_transaction_def postable_def Let_def
  by (auto split: if_splits simp flip: not_less)

lemma two_leg_postable [simp]:
  "postable [Dr a x r, Cr b x q] \<longleftrightarrow> 0 \<le> x"
  by (auto simp: postable_def side_def)

lemma post_transaction_balance:
  assumes "post_transaction now ps reason jid tx d = Inr (grp, d')"
  shows "account_balance acc ref d' = account_balance acc ref d + effect acc ref ps"
  unfolding balance_as_net post_transaction_Inr(3) [OF assms]
  by (simp add: balance_mk_entries)

lemma post_transaction_frame [frame_simps]:
  assumes "post_transaction now ps reason jid tx d = Inr (grp, d')"
  shows "developers d' = developers d" "providers d' = providers d" "api_keys d' = api_keys d"
    "provider_models d' = provider_models d" "auth_nonces d' = auth_nonces d" "jobs d' = jobs d"
    "job_attempts d' = job_attempts d" "reputation_events d' = reputation_events d"
    "provider_artifacts d' = provider_artifacts d" "upload_sessions d' = upload_sessions d"
    "disputes d' = disputes d" "bandwidth_events d' = bandwidth_events d"
    "chain_settlements d' = chain_settlements d" "provider_settlements d' = provider_settlements d"
    "chain_events d' = chain_events d" "chain_cursors d' = chain_cursors d"
    "free_tier_usage d' = free_tier_usage d" "next_id d < next_id d'"
  unfolding post_transaction_Inr(3) [OF assms] by simp_all

text \<open>The movements of one account on behalf of one job.\<close>

definition job_balance :: "LedgerAccount \<Rightarrow> uuid \<Rightarrow> db \<Rightarrow> money" where
  "job_balance acc k d =
     sum_list (map net (filter (\<lambda>e. le_account e = acc \<and> le_job_id e = Some k) (ledger_entries d)))"

lemma job_balance_mk_entries:
  "sum_list (map net (filter (\<lambda>e. le_account e = acc \<and> le_job_id e = Some k) (mk_entries now grp reason jid tx i ps)))
   = (if jid = Some k then effect acc None ps else 0)"
  by (induction ps arbitrary: i) (auto simp: net_def)

lemma post_transaction_job_balance:
  assumes "post_transaction now ps reason jid tx d = Inr (grp, d')"
  shows "job_balance acc k d' = job_balance acc k d + (if jid = Some k then effect acc None ps else 0)"
  unfolding job_balance_def post_transaction_Inr(3) [OF assms]
  by (simp add: job_balance_mk_entries)

lemma job_balance_cong: "ledger_entries d' = ledger_entries d \<Longrightarrow> job_balance acc k d' = job_balance acc k d"
  by (simp add: job_balance_def)

section \<open>The ledger invariant\<close>

definition ledger_ok :: "db \<Rightarrow> bool" where
  "ledger_ok d \<longleftrightarrow> verify_ledger_integrity d = []
     \<and> (\<forall>e \<in> set (ledger_entries d). le_entry_group e < next_id d \<and> 0 \<le> le_amount e)"

lemma group_delta_net:
  "group_delta es g = - sum_list (map net (filter (\<lambda>e. le_entry_group e = g) es))"
  by (induction es) (auto simp: group_delta_def net_def signed_def)

lemma integrity_iff:
  "verify_ledger_integrity d = [] \<longleftrightarrow>
     (\<forall>g. sum_list (map net (filter (\<lambda>e. le_entry_group e = g) (ledger_entries d))) = 0)"
proof -
  have "group_delta (ledger_entries d) g = 0" if "g \<notin> le_entry_group ` set (ledger_entries d)" for g
  proof -
    from that have "filter (\<lambda>e. le_entry_group e = g) (ledger_entries d) = []"
      by (auto simp: filter_empty_conv)
    then show ?thesis by (simp add: group_delta_net)
  qed
  then have "(\<forall>g \<in> le_entry_group ` set (ledger_entries d). group_delta (ledger_entries d) g = 0)
      \<longleftrightarrow> (\<forall>g. group_delta (ledger_entries d) g = 0)" by blast
  then show ?thesis by (simp add: verify_ledger_integrity_def filter_empty_conv group_delta_net)
qed

lemma mk_entries_group: "e \<in> set (mk_entries now grp reason jid tx k ps) \<Longrightarrow> le_entry_group e = grp"
  by (induction ps arbitrary: k) auto

lemma mk_entries_amount:
  "e \<in> set (mk_entries now grp reason jid tx k ps) \<Longrightarrow> \<forall>p \<in> set ps. 0 \<le> po_amount p \<Longrightarrow> 0 \<le> le_amount e"
  by (induction ps arbitrary: k) auto

lemma mk_entries_net:
  "sum_list (map net (mk_entries now grp reason jid tx k ps))
   = sum_list (map (\<lambda>p. signed (po_direction p) (po_amount p)) ps)"
  by (induction ps arbitrary: k) (auto simp: net_def)

lemma post_transaction_ok [ledger_pres]:
  assumes post: "post_transaction now ps reason jid tx d = Inr (grp, d')" and ok: "ledger_ok d"
  shows "ledger_ok d'"
proof -
  note d' = post_transaction_Inr(3) [OF post] and p = post_transaction_Inr(1) [OF post]
  let ?rows = "mk_entries now (next_id d) reason jid tx (Suc (next_id d)) ps"
  have old: "\<forall>e \<in> set (ledger_entries d). le_entry_group e < next_id d \<and> 0 \<le> le_amount e"
    using ok by (simp add: ledger_ok_def)
  have zero: "sum_list (map net ?rows) = 0"
    using p by (simp add: mk_entries_net side_signed postable_def)
  have "sum_list (map net (filter (\<lambda>e. le_entry_group e = g) (ledger_entries d'))) = 0" for g
  proof (cases "g = next_id d")
    case True
    have "filter (\<lambda>e. le_entry_group e = g) (ledger_entries d) = []"
      using old True by (fastforce simp: filter_empty_conv)
    moreover have "filter (\<lambda>e. le_entry_group e = g) ?rows = ?rows"
      using True by (auto simp: filter_id_conv dest: mk_entries_group)
    ultimately show ?thesis using zero by (simp add: d')
  next
    case False
    then have "filter (\<lambda>e. le_entry_group e = g) ?rows = []"
      by (auto simp: filter_empty_conv dest: mk_entries_group)
    then show ?thesis using ok by (simp add: d' ledger_ok_def integrity_iff)
  qed
  then have "verify_ledger_integrity d' = []" by (simp add: integrity_iff)
  moreover have "\<forall>e \<in> set (ledger_entries d'). le_entry_group e < next_id d' \<and> 0 \<le> le_amount e"
  proof
    fix e
    assume "e \<in> set (ledger_entries d')"
    then consider "e \<in> set (ledger_entries d)" | "e \<in> set ?rows" by (auto simp: d')
    then show "le_entry_group e < next_id d' \<and> 0 \<le> le_amount e"
    proof cases
      case 1
      then show ?thesis using old by (fastforce simp: d')
    next
      case 2
      then show ?thesis using p by (auto simp: d' postable_def dest: mk_entries_group mk_entries_amount)
    qed
  qed
  ultimately show ?thesis by (simp add: ledger_ok_def)
qed

text \<open>Only the ledger rows and the identifier counter matter to the invariant.\<close>

lemma ledger_ok_cong:
  "ledger_entries d' = ledger_entries d \<Longrightarrow> next_id d \<le> next_id d' \<Longrightarrow> ledger_ok d \<Longrightarrow> ledger_ok d'"
  by (fastforce simp: ledger_ok_def verify_ledger_integrity_def)

lemma balance_cong: "ledger_entries d' = ledger_entries d \<Longrightarrow> account_balance acc ref d' = account_balance acc ref d"
  by (simp add: account_balance_def sum_side_def)

section \<open>Conservation\<close>

lemma sum_by_group:
  fixes f :: "'x \<Rightarrow> 'v::comm_monoid_add"
  shows "sum_list (map f xs) = (\<Sum>g \<in> key ` set xs. sum_list (map f (filter (\<lambda>x. key x = g) xs)))"
proof (induction xs)
  case (Cons x xs)
  let ?G = "key ` set xs" and ?s = "\<lambda>g. sum_list (map f (filter (\<lambda>x. key x = g) xs))"
  have nil: "key x \<notin> ?G \<Longrightarrow> ?s (key x) = 0"
  proof -
    assume "key x \<notin> ?G"
    then have "filter (\<lambda>y. key y = key x) xs = []"
      by (auto simp: filter_empty_conv) (metis image_eqI)
    then show ?thesis by simp
  qed
  have "(\<Sum>g \<in> insert (key x) ?G. sum_list (map f (filter (\<lambda>y. key y = g) (x # xs))))
      = (\<Sum>g \<in> insert (key x) ?G. (if g = key x then f x else 0) + ?s g)"
    by (intro sum.cong) auto
  also have "\<dots> = f x + (\<Sum>g \<in> insert (key x) ?G. ?s g)"
    by (simp add: sum.distrib)
  also have "(\<Sum>g \<in> insert (key x) ?G. ?s g) = (\<Sum>g \<in> ?G. ?s g)"
    using nil by (cases "key x \<in> ?G") (simp_all add: insert_absorb)
  finally show ?case using Cons by simp
qed simp

lemma UNIV_LedgerAccount:
  "(UNIV :: LedgerAccount set) = {la_developer, la_provider, la_protocol, la_escrow, la_stake, la_disputed}"
proof -
  have "x \<in> {la_developer, la_provider, la_protocol, la_escrow, la_stake, la_disputed}" for x
    by (cases x) auto
  then show ?thesis by blast
qed

lemma ledger_total_zero:
  assumes "ledger_ok d"
  shows "(\<Sum>acc \<in> UNIV. account_balance acc None d) = 0"
proof -
  have "(\<Sum>acc \<in> UNIV. account_balance acc None d)
      = (\<Sum>acc \<in> UNIV. sum_list (map net (filter (\<lambda>e. le_account e = acc) (ledger_entries d))))"
    by (simp add: balance_as_net on_account_def [abs_def])
  also have "\<dots> = (\<Sum>acc \<in> le_account ` set (ledger_entries d).
                     sum_list (map net (filter (\<lambda>e. le_account e = acc) (ledger_entries d))))"
  proof (rule sum.mono_neutral_right)
    show "finite (UNIV :: LedgerAccount set)" by (simp add: UNIV_LedgerAccount)
    show "\<forall>acc \<in> UNIV - le_account ` set (ledger_entries d).
            sum_list (map net (filter (\<lambda>e. le_account e = acc) (ledger_entries d))) = 0"
    proof
      fix acc
      assume "acc \<in> UNIV - le_account ` set (ledger_entries d)"
      then have "filter (\<lambda>e. le_account e = acc) (ledger_entries d) = []"
        by (auto simp: filter_empty_conv)
      then show "sum_list (map net (filter (\<lambda>e. le_account e = acc) (ledger_entries d))) = 0" by simp
    qed
  qed simp
  also have "\<dots> = sum_list (map net (ledger_entries d))"
    by (rule sum_by_group [symmetric])
  also have "\<dots> = (\<Sum>g \<in> le_entry_group ` set (ledger_entries d).
                     sum_list (map net (filter (\<lambda>e. le_entry_group e = g) (ledger_entries d))))"
    by (rule sum_by_group)
  also have "\<dots> = 0" using assms by (simp add: ledger_ok_def integrity_iff)
  finally show ?thesis .
qed

lemma empty_ledger_ok [simp]: "ledger_ok empty_db"
  by (simp add: ledger_ok_def verify_ledger_integrity_def empty_db_def)

section \<open>Stake movements\<close>

lemma deposit_stake_Inr:
  assumes "deposit_stake now pid x d = Inr (grp, d')"
  shows "0 \<le> x" "provider_stake q d' = provider_stake q d + (if q = pid then x else 0)"
    "ledger_ok d \<Longrightarrow> ledger_ok d'"
  using post_transaction_Inr(1) [OF assms [unfolded deposit_stake_def]]
    post_transaction_balance [OF assms [unfolded deposit_stake_def]]
    post_transaction_ok [OF assms [unfolded deposit_stake_def]]
  by (simp_all add: provider_stake_def)

lemma slash_stake_total: "\<exists>y d'. slash_stake now pid x jid d = Inr (y, d')"
proof (cases "min x (provider_stake pid d) \<le> 0")
  case True
  then show ?thesis by (simp add: slash_stake_def Let_def)
next
  case False
  then have "postable [Dr la_stake (min x (provider_stake pid d)) (Some pid),
                       Cr la_protocol (min x (provider_stake pid d)) None]"
    by (subst two_leg_postable) linarith
  then obtain grp d' where
    "post_transaction now [Dr la_stake (min x (provider_stake pid d)) (Some pid),
       Cr la_protocol (min x (provider_stake pid d)) None] ''slash'' jid None d = Inr (grp, d')"
    unfolding post_transaction_accepts [of _ now "''slash''" jid None d] by blast
  with False show ?thesis by (simp add: slash_stake_def Let_def)
qed

lemma slash_stake_Inr:
  assumes "slash_stake now pid x jid d = Inr (y, d')"
  shows "y = max 0 (min x (provider_stake pid d))"
    "provider_stake q d' = provider_stake q d - (if q = pid then y else 0)"
    "ledger_ok d \<Longrightarrow> ledger_ok d'"
  using assms
  by (auto simp: slash_stake_def Let_def provider_stake_def split: if_splits elim!: bindE_InrE
      dest: post_transaction_balance intro: post_transaction_ok)

end
