(* ===== verification/Payments.thy ===== *)
theory Payments
  imports Ledger
begin

text \<open>
  The payment abstraction of \<open>api/app/payments.py\<close>.  The locale \<open>payment_provider\<close> is the abstract
  class: the three operations with the ledger movements its docstrings promise.  The lemmas proved
  inside it are what the result pipeline relies on: an escrow that is settled and whose remainder is
  refunded leaves escrow exactly as it was before the hold.  \<open>FiatStub\<close> is the implementation (the
  on-chain provider of \<open>api/app/chain/provider.py\<close> inherits its three operations unchanged) and is
  the interpretation of the locale.
\<close>

section \<open>FiatStub\<close>

definition FiatStub_hold_escrow :: "instant \<Rightarrow> uuid \<Rightarrow> uuid \<Rightarrow> money \<Rightarrow> db \<Rightarrow> err + db" where
  "FiatStub_hold_escrow now job_id developer_id amount d =
     (if amount \<le> 0 then Inr d
      else bindE (post_transaction now
                    [Dr la_developer amount (Some developer_id), Cr la_escrow amount (Some developer_id)]
                    ''escrow_hold'' (Some job_id) None d)
             (\<lambda>(_, d). Inr d))"

definition FiatStub_settle ::
    "instant \<Rightarrow> uuid \<Rightarrow> uuid \<Rightarrow> uuid \<Rightarrow> money \<Rightarrow> money \<Rightarrow> db \<Rightarrow> err + db" where
  "FiatStub_settle now job_id developer_id provider_id cost fee d =
     (if cost \<le> 0 then Inr d
      else
        (let postings = [Dr la_escrow cost (Some developer_id)];
             net = cost - fee;
             postings = (if net > 0 then postings @ [Cr la_provider net (Some provider_id)] else postings);
             postings = (if fee > 0 then postings @ [Cr la_protocol fee None] else postings)
         in bindE (post_transaction now postings ''settle'' (Some job_id) None d) (\<lambda>(_, d). Inr d)))"

definition FiatStub_refund :: "instant \<Rightarrow> uuid \<Rightarrow> uuid \<Rightarrow> money \<Rightarrow> db \<Rightarrow> err + db" where
  "FiatStub_refund now job_id developer_id amount d =
     (if amount \<le> 0 then Inr d
      else bindE (post_transaction now
                    [Dr la_escrow amount (Some developer_id), Cr la_developer amount (Some developer_id)]
                    ''refund'' (Some job_id) None d)
             (\<lambda>(_, d). Inr d))"

section \<open>The abstract provider\<close>

text \<open>An operation that only appends ledger groups.\<close>

definition ledger_only :: "db \<Rightarrow> db \<Rightarrow> bool" where
  "ledger_only d d' \<longleftrightarrow> (\<exists>rows n. d' = d\<lparr>ledger_entries := ledger_entries d @ rows, next_id := next_id d + n\<rparr>)
     \<and> (ledger_ok d \<longrightarrow> ledger_ok d')"

lemma ledger_only_refl [simp, intro]: "ledger_only d d"
  unfolding ledger_only_def by (auto intro!: exI [of _ "[]"] exI [of _ 0])

lemma ledger_only_trans [trans]:
  assumes "ledger_only d e" "ledger_only e f"
  shows "ledger_only d f"
proof -
  obtain rows n rows' n' where
    "e = d\<lparr>ledger_entries := ledger_entries d @ rows, next_id := next_id d + n\<rparr>"
    "f = e\<lparr>ledger_entries := ledger_entries e @ rows', next_id := next_id e + n'\<rparr>"
    using assms by (auto simp: ledger_only_def)
  then have "f = d\<lparr>ledger_entries := ledger_entries d @ (rows @ rows'), next_id := next_id d + (n + n')\<rparr>"
    by (simp add: add.assoc)
  with assms show ?thesis unfolding ledger_only_def by blast
qed

lemma ledger_onlyD:
  assumes "ledger_only d d'"
  shows "ledger_ok d \<Longrightarrow> ledger_ok d'" "next_id d \<le> next_id d'"
    "developers d' = developers d" "providers d' = providers d" "api_keys d' = api_keys d"
    "provider_models d' = provider_models d" "auth_nonces d' = auth_nonces d"
    "jobs d' = jobs d" "job_attempts d' = job_attempts d" "reputation_events d' = reputation_events d"
    "provider_artifacts d' = provider_artifacts d" "disputes d' = disputes d"
    "bandwidth_events d' = bandwidth_events d" "chain_settlements d' = chain_settlements d"
    "provider_settlements d' = provider_settlements d" "chain_events d' = chain_events d"
    "chain_cursors d' = chain_cursors d" "free_tier_usage d' = free_tier_usage d"
  using assms by (auto simp: ledger_only_def)

lemma post_ledger_only: "post_transaction now ps reason jid tx d = Inr (grp, d') \<Longrightarrow> ledger_only d d'"
  unfolding ledger_only_def
  by (metis add_Suc_shift post_transaction_Inr(3) post_transaction_ok)

text \<open>What the abstract class promises.  Amounts that are not positive move nothing.\<close>

locale payment_provider =
  fixes hold :: "instant \<Rightarrow> uuid \<Rightarrow> uuid \<Rightarrow> money \<Rightarrow> db \<Rightarrow> err + db"
    and settle :: "instant \<Rightarrow> uuid \<Rightarrow> uuid \<Rightarrow> uuid \<Rightarrow> money \<Rightarrow> money \<Rightarrow> db \<Rightarrow> err + db"
    and refund :: "instant \<Rightarrow> uuid \<Rightarrow> uuid \<Rightarrow> money \<Rightarrow> db \<Rightarrow> err + db"
  assumes hold_total: "\<exists>d'. hold now j dev x d = Inr d'"
    and hold_only: "hold now j dev x d = Inr d' \<Longrightarrow> ledger_only d d'"
    and hold_balance: "hold now j dev x d = Inr d' \<Longrightarrow> account_balance acc ref d' = account_balance acc ref d
          + effect acc ref [Dr la_developer (max 0 x) (Some dev), Cr la_escrow (max 0 x) (Some dev)]"
    and hold_job: "hold now j dev x d = Inr d' \<Longrightarrow> job_balance acc k d' = job_balance acc k d
          + (if k = j then effect acc None [Dr la_developer (max 0 x) (Some dev), Cr la_escrow (max 0 x) (Some dev)] else 0)"
    and settle_total: "0 \<le> fee \<Longrightarrow> fee \<le> cost \<Longrightarrow> \<exists>d'. settle now j dev p cost fee d = Inr d'"
    and settle_only: "settle now j dev p cost fee d = Inr d' \<Longrightarrow> ledger_only d d'"
    and settle_balance: "0 \<le> fee \<Longrightarrow> fee \<le> cost \<Longrightarrow> settle now j dev p cost fee d = Inr d'
          \<Longrightarrow> account_balance acc ref d' = account_balance acc ref d
            + effect acc ref [Dr la_escrow cost (Some dev), Cr la_provider (cost - fee) (Some p), Cr la_protocol fee None]"
    and settle_job: "0 \<le> fee \<Longrightarrow> fee \<le> cost \<Longrightarrow> settle now j dev p cost fee d = Inr d'
          \<Longrightarrow> job_balance acc k d' = job_balance acc k d + (if k = j then
            effect acc None [Dr la_escrow cost (Some dev), Cr la_provider (cost - fee) (Some p), Cr la_protocol fee None] else 0)"
    and refund_total: "\<exists>d'. refund now j dev x d = Inr d'"
    and refund_only: "refund now j dev x d = Inr d' \<Longrightarrow> ledger_only d d'"
    and refund_balance: "refund now j dev x d = Inr d' \<Longrightarrow> account_balance acc ref d' = account_balance acc ref d
          + effect acc ref [Dr la_escrow (max 0 x) (Some dev), Cr la_developer (max 0 x) (Some dev)]"
    and refund_job: "refund now j dev x d = Inr d' \<Longrightarrow> job_balance acc k d' = job_balance acc k d
          + (if k = j then effect acc None [Dr la_escrow (max 0 x) (Some dev), Cr la_developer (max 0 x) (Some dev)] else 0)"
begin

text \<open>Settling part of an escrow and refunding the rest releases exactly the escrow: the provider
  earns the cost net of the fee, the protocol the fee, the developer gets the remainder back.\<close>

lemma settle_refund:
  assumes fee: "0 \<le> fee" "fee \<le> cost" "cost \<le> escrow"
    and s: "settle now j dev p cost fee d = Inr e" and r: "refund now j dev (escrow - cost) e = Inr d'"
  shows "account_balance la_escrow (Some dev) d' = account_balance la_escrow (Some dev) d - escrow"
    and "account_balance la_developer (Some dev) d' = account_balance la_developer (Some dev) d + (escrow - cost)"
    and "account_balance la_provider (Some p) d' = account_balance la_provider (Some p) d + (cost - fee)"
    and "account_balance la_protocol None d' = account_balance la_protocol None d + fee"
  using fee by (simp_all add: refund_balance [OF r] settle_balance [OF fee(1,2) s])

text \<open>Settling and refunding releases exactly the job's escrow, and no other job's.\<close>

lemma settle_refund_job:
  assumes fee: "0 \<le> fee" "fee \<le> cost" "cost \<le> escrow"
    and s: "settle now j dev p cost fee d = Inr e" and r: "refund now j dev (escrow - cost) e = Inr d'"
  shows "job_balance la_escrow k d' = job_balance la_escrow k d - (if k = j then escrow else 0)"
  using fee by (simp add: refund_job [OF r] settle_job [OF fee(1,2) s])

text \<open>A hold that is refunded in full is undone on every account.\<close>

lemma hold_refund:
  assumes h: "hold now j dev x d = Inr e" and r: "refund now' j dev x e = Inr d'"
  shows "account_balance acc ref d' = account_balance acc ref d"
  by (auto simp: refund_balance [OF r] hold_balance [OF h])

end

lemma FiatStub_hold_cases:
  "FiatStub_hold_escrow now j dev x d = Inr d' \<longleftrightarrow>
     (x \<le> 0 \<and> d' = d) \<or> (0 < x \<and> (\<exists>grp. post_transaction now
        [Dr la_developer x (Some dev), Cr la_escrow x (Some dev)] ''escrow_hold'' (Some j) None d = Inr (grp, d')))"
  by (auto simp: FiatStub_hold_escrow_def bindE_Inr_iff)

lemma FiatStub_refund_cases:
  "FiatStub_refund now j dev x d = Inr d' \<longleftrightarrow>
     (x \<le> 0 \<and> d' = d) \<or> (0 < x \<and> (\<exists>grp. post_transaction now
        [Dr la_escrow x (Some dev), Cr la_developer x (Some dev)] ''refund'' (Some j) None d = Inr (grp, d')))"
  by (auto simp: FiatStub_refund_def bindE_Inr_iff)

definition settle_postings :: "uuid \<Rightarrow> uuid \<Rightarrow> money \<Rightarrow> money \<Rightarrow> Posting list" where
  "settle_postings dev p cost fee =
     Dr la_escrow cost (Some dev) # (if cost - fee > 0 then [Cr la_provider (cost - fee) (Some p)] else [])
     @ (if fee > 0 then [Cr la_protocol fee None] else [])"

lemma FiatStub_settle_cases:
  "FiatStub_settle now j dev p cost fee d = Inr d' \<longleftrightarrow>
     (cost \<le> 0 \<and> d' = d) \<or> (0 < cost \<and> (\<exists>grp. post_transaction now (settle_postings dev p cost fee)
        ''settle'' (Some j) None d = Inr (grp, d')))"
  by (auto simp: FiatStub_settle_def settle_postings_def Let_def bindE_Inr_iff)

lemma settle_postable: "0 \<le> fee \<Longrightarrow> fee \<le> cost \<Longrightarrow> postable (settle_postings dev p cost fee)"
  by (auto simp: postable_def settle_postings_def side_def)

lemma settle_effect:
  "0 \<le> fee \<Longrightarrow> fee \<le> cost \<Longrightarrow> effect acc ref (settle_postings dev p cost fee) =
     effect acc ref [Dr la_escrow cost (Some dev), Cr la_provider (cost - fee) (Some p), Cr la_protocol fee None]"
  by (auto simp: settle_postings_def)

lemma zero_effect: "effect acc ref [Dr a 0 r, Cr b 0 q] = 0"
  by simp

lemma settle_zero: "effect acc ref [Dr a 0 r, Cr b 0 q, Cr c 0 s] = 0"
  by simp

interpretation fiat: payment_provider FiatStub_hold_escrow FiatStub_settle FiatStub_refund
proof
  fix now j dev p and x cost fee :: money and d d' :: db and acc :: LedgerAccount and ref :: "uuid option"
  show "\<exists>d'. FiatStub_hold_escrow now j dev x d = Inr d'"
    by (cases "x \<le> 0") (simp_all add: FiatStub_hold_cases post_transaction_ex)
  show "\<exists>d'. FiatStub_refund now j dev x d = Inr d'"
    by (cases "x \<le> 0") (simp_all add: FiatStub_refund_cases post_transaction_ex)
  show "FiatStub_hold_escrow now j dev x d = Inr d' \<Longrightarrow> ledger_only d d'"
    by (auto simp: FiatStub_hold_cases intro: post_ledger_only)
  show "FiatStub_refund now j dev x d = Inr d' \<Longrightarrow> ledger_only d d'"
    by (auto simp: FiatStub_refund_cases intro: post_ledger_only)
  show "FiatStub_settle now j dev p cost fee d = Inr d' \<Longrightarrow> ledger_only d d'"
    by (auto simp: FiatStub_settle_cases intro: post_ledger_only)
  show "FiatStub_hold_escrow now j dev x d = Inr d' \<Longrightarrow> account_balance acc ref d' = account_balance acc ref d
          + effect acc ref [Dr la_developer (max 0 x) (Some dev), Cr la_escrow (max 0 x) (Some dev)]"
    by (auto simp: FiatStub_hold_cases max_absorb1 max_absorb2 zero_effect post_transaction_balance
        simp del: effect.simps)
  show "FiatStub_refund now j dev x d = Inr d' \<Longrightarrow> account_balance acc ref d' = account_balance acc ref d
          + effect acc ref [Dr la_escrow (max 0 x) (Some dev), Cr la_developer (max 0 x) (Some dev)]"
    by (auto simp: FiatStub_refund_cases max_absorb1 max_absorb2 zero_effect post_transaction_balance
        simp del: effect.simps)
  show "FiatStub_hold_escrow now j dev x d = Inr d' \<Longrightarrow> job_balance acc k d' = job_balance acc k d
          + (if k = j then effect acc None [Dr la_developer (max 0 x) (Some dev), Cr la_escrow (max 0 x) (Some dev)] else 0)" for k
    by (auto simp: FiatStub_hold_cases max_absorb1 max_absorb2 zero_effect post_transaction_job_balance
        simp del: effect.simps)
  show "FiatStub_refund now j dev x d = Inr d' \<Longrightarrow> job_balance acc k d' = job_balance acc k d
          + (if k = j then effect acc None [Dr la_escrow (max 0 x) (Some dev), Cr la_developer (max 0 x) (Some dev)] else 0)" for k
    by (auto simp: FiatStub_refund_cases max_absorb1 max_absorb2 zero_effect post_transaction_job_balance
        simp del: effect.simps)
  assume fee: "0 \<le> fee" "fee \<le> cost"
  show "\<exists>d'. FiatStub_settle now j dev p cost fee d = Inr d'"
    by (cases "cost \<le> 0")
      (simp_all add: FiatStub_settle_cases post_transaction_ex settle_postable [OF fee])
  show "FiatStub_settle now j dev p cost fee d = Inr d' \<Longrightarrow> account_balance acc ref d' = account_balance acc ref d
          + effect acc ref [Dr la_escrow cost (Some dev), Cr la_provider (cost - fee) (Some p), Cr la_protocol fee None]"
    using fee
    by (cases "cost = 0")
      (auto simp: FiatStub_settle_cases settle_effect [OF fee, symmetric] post_transaction_balance
        settle_zero simp del: effect.simps)
  show "FiatStub_settle now j dev p cost fee d = Inr d' \<Longrightarrow> job_balance acc k d' = job_balance acc k d + (if k = j then
            effect acc None [Dr la_escrow cost (Some dev), Cr la_provider (cost - fee) (Some p), Cr la_protocol fee None] else 0)" for k
    using fee
    by (cases "cost = 0")
      (auto simp: FiatStub_settle_cases settle_effect [OF fee, symmetric] post_transaction_job_balance
        settle_zero simp del: effect.simps)
qed

end
