(* ===== verification/Quorum.thy ===== *)
theory Quorum
  imports Models
begin

text \<open>
  The redundancy quorum, \<open>api/app/quorum.py\<close>.  Votes are grouped by output hash as \<open>Counter\<close> does, in
  order of first appearance, and \<open>most_common(1)\<close> takes the first hash with the highest count.  A
  provider's \<open>str(provider_id)\<close> is represented by the identifier itself.  The hash type is a
  parameter: the result pipeline compares JSON values, the theory needs only their equality.

  The lemmas are the correctness of the decision: it is reached exactly when some hash holds the
  required number of votes, the agreers are exactly the successful providers that reported that
  hash, and when at most \<open>redundancy\<close> votes are in, the winner is unique and does not depend on the
  order in which the results arrived (two strict majorities intersect).
\<close>

record 'h AttemptResult =
  ar_provider_id :: "uuid option"
  ar_output_hash :: "'h option"
  ar_succeeded :: bool

record 'h QuorumOutcome =
  qo_reached :: bool
  qo_winning_hash :: "'h option"
  qo_agreers :: "uuid option list"
  qo_disagreers :: "uuid option list"

section \<open>Counter\<close>

fun first_max :: "('a \<Rightarrow> nat) \<Rightarrow> 'a \<Rightarrow> 'a list \<Rightarrow> 'a" where
  "first_max f b [] = b"
| "first_max f b (x # xs) = first_max f (if f b < f x then x else b) xs"

text \<open>The keys of a \<open>Counter\<close> in insertion order.\<close>

definition keys_in_order :: "'a list \<Rightarrow> 'a list" where
  "keys_in_order xs = rev (remdups (rev xs))"

text \<open>\<open>Counter(xs).most_common(1)[0]\<close> for a non-empty list.\<close>

definition most_common1 :: "'a list \<Rightarrow> 'a \<times> nat" where
  "most_common1 xs =
     (let ks = keys_in_order xs; k = first_max (count_list xs) (hd ks) (tl ks)
      in (k, count_list xs k))"

section \<open>The decision\<close>

definition not_reached :: "'h QuorumOutcome" where
  "not_reached = \<lparr> qo_reached = False, qo_winning_hash = None, qo_agreers = [], qo_disagreers = [] \<rparr>"

definition usable_hashes :: "'h AttemptResult list \<Rightarrow> 'h list" where
  "usable_hashes attempts =
     map (\<lambda>a. the (ar_output_hash a)) (filter (\<lambda>a. ar_succeeded a \<and> ar_output_hash a \<noteq> None) attempts)"

definition evaluate_quorum :: "'h AttemptResult list \<Rightarrow> int \<Rightarrow> 'h QuorumOutcome" where
  "evaluate_quorum attempts redundancy =
     (if usable_hashes attempts = [] then not_reached
      else
        (let (winning_hash, votes) = most_common1 (usable_hashes attempts);
             needed = redundancy div 2 + 1
         in if int votes < needed then not_reached
            else
              (let agreers = map ar_provider_id
                     (filter (\<lambda>a. ar_output_hash a = Some winning_hash \<and> ar_succeeded a) attempts);
                   disagreers = map ar_provider_id
                     (filter (\<lambda>a. ar_provider_id a \<notin> set agreers
                                  \<and> (ar_output_hash a \<noteq> None \<or> \<not> ar_succeeded a)) attempts)
               in \<lparr> qo_reached = True, qo_winning_hash = Some winning_hash,
                    qo_agreers = agreers, qo_disagreers = disagreers \<rparr>)))"

section \<open>Counting\<close>

lemma first_max_in: "first_max f b xs \<in> insert b (set xs)"
  by (induction xs arbitrary: b) auto

lemma first_max_ge: "x \<in> insert b (set xs) \<Longrightarrow> f x \<le> f (first_max f b xs)"
proof (induction xs arbitrary: b x)
  case (Cons y ys)
  define c where "c = (if f b < f y then y else b)"
  have "f b \<le> f c" "f y \<le> f c" by (auto simp: c_def)
  moreover have "f c \<le> f (first_max f c ys)" using Cons.IH [of c c] by simp
  moreover have "x \<in> set ys \<Longrightarrow> f x \<le> f (first_max f c ys)" using Cons.IH [of x c] by simp
  ultimately show ?case using Cons.prems by (auto simp: c_def [symmetric])
qed simp

lemma set_keys_in_order [simp]: "set (keys_in_order xs) = set xs"
  by (simp add: keys_in_order_def)

lemma most_common1:
  assumes "xs \<noteq> []" "most_common1 xs = (k, n)"
  shows "k \<in> set xs" "n = count_list xs k" "count_list xs x \<le> n"
proof -
  let ?ks = "keys_in_order xs"
  have ne: "?ks \<noteq> []" using assms(1) set_keys_in_order by (metis set_empty2)
  then have ks: "insert (hd ?ks) (set (tl ?ks)) = set xs"
    by (metis list.collapse list.simps(15) set_keys_in_order)
  have k: "k = first_max (count_list xs) (hd ?ks) (tl ?ks)" "n = count_list xs k"
    using assms(2) by (auto simp: most_common1_def Let_def)
  show "k \<in> set xs" using first_max_in [of "count_list xs" "hd ?ks" "tl ?ks"] ks k by simp
  show "n = count_list xs k" by (rule k(2))
  show "count_list xs x \<le> n"
  proof (cases "x \<in> set xs")
    case True
    then show ?thesis using first_max_ge [of x "hd ?ks" "tl ?ks" "count_list xs"] ks k by simp
  next
    case False
    then show ?thesis by (simp add: count_list_0_iff)
  qed
qed

lemma two_counts: "x \<noteq> y \<Longrightarrow> count_list xs x + count_list xs y \<le> length xs"
  by (induction xs) auto

section \<open>Correctness of the decision\<close>

definition votes_for :: "'h AttemptResult list \<Rightarrow> 'h \<Rightarrow> nat" where
  "votes_for attempts h = length (filter (\<lambda>a. ar_succeeded a \<and> ar_output_hash a = Some h) attempts)"

lemma count_usable: "count_list (usable_hashes attempts) h = votes_for attempts h"
  by (induction attempts) (auto simp: usable_hashes_def votes_for_def)

lemma quorum_cases:
  assumes "1 \<le> redundancy"
  obtains
    (reached) h where "qo_reached (evaluate_quorum rs redundancy)"
      "qo_winning_hash (evaluate_quorum rs redundancy) = Some h"
      "redundancy div 2 + 1 \<le> int (votes_for rs h)" "\<And>g. votes_for rs g \<le> votes_for rs h"
      "qo_agreers (evaluate_quorum rs redundancy)
         = map ar_provider_id (filter (\<lambda>a. ar_output_hash a = Some h \<and> ar_succeeded a) rs)"
  | (undecided) "evaluate_quorum rs redundancy = not_reached" "\<And>h. int (votes_for rs h) < redundancy div 2 + 1"
proof (cases "usable_hashes rs = []")
  case True
  have "votes_for rs h = 0" for h using count_usable [of rs h] True by simp
  then show ?thesis using True assms by (intro undecided) (auto simp: evaluate_quorum_def)
next
  case False
  obtain k n where kn: "most_common1 (usable_hashes rs) = (k, n)" by force
  note mc = most_common1 [OF False kn, unfolded count_usable]
  show ?thesis
  proof (cases "int n < redundancy div 2 + 1")
    case True
    have "int (votes_for rs h) < redundancy div 2 + 1" for h
      using mc(3) [of h] True by linarith
    then show ?thesis using False True kn by (intro undecided) (auto simp: evaluate_quorum_def)
  next
    case less: False
    show ?thesis
      using False less kn mc
      by (intro reached [of k]) (auto simp: evaluate_quorum_def Let_def)
  qed
qed

lemma quorum_reached_iff:
  "1 \<le> redundancy \<Longrightarrow> qo_reached (evaluate_quorum rs redundancy)
     \<longleftrightarrow> (\<exists>h. redundancy div 2 + 1 \<le> int (votes_for rs h))"
  by (erule quorum_cases [of _ rs]) (auto simp: not_reached_def not_le)

lemma quorum_unique:
  assumes "int (length (usable_hashes rs)) \<le> redundancy"
    and "redundancy div 2 + 1 \<le> int (votes_for rs h)" "redundancy div 2 + 1 \<le> int (votes_for rs g)"
  shows "g = h"
proof (rule ccontr)
  assume "g \<noteq> h"
  then have "votes_for rs g + votes_for rs h \<le> length (usable_hashes rs)"
    using two_counts [of g h "usable_hashes rs"] by (simp add: count_usable)
  with assms show False by linarith
qed

lemma quorum_winner:
  assumes "1 \<le> redundancy" "int (length (usable_hashes rs)) \<le> redundancy"
    and "redundancy div 2 + 1 \<le> int (votes_for rs h)"
  shows "qo_winning_hash (evaluate_quorum rs redundancy) = Some h"
  using assms(1)
proof (cases rule: quorum_cases [of redundancy rs])
  case (reached g)
  have "g = h" by (rule quorum_unique [OF assms(2,3) reached(3)])
  with reached show ?thesis by simp
next
  case undecided
  with assms(3) show ?thesis by (simp add: not_le [symmetric])
qed

lemma evaluate_nil_agreers: "\<not> qo_reached (evaluate_quorum rs r) \<Longrightarrow> qo_agreers (evaluate_quorum rs r) = []"
  by (auto simp: evaluate_quorum_def not_reached_def Let_def split: if_splits prod.splits)

end
