(* ===== verification/Numerics.thy ===== *)
theory Numerics
  imports Prelude
begin

text \<open>
  Decimal arithmetic as the coordinator's money code uses it.  A \<open>Decimal\<close> is its exact rational
  value.  Products and quotients are rounded by the default context (28 significant digits, ties to
  even), \<open>quantize\<close> rounds half away from zero to a fixed number of places (\<open>ROUND_HALF_UP\<close>), and a
  conversion to whole units truncates.  Sums and differences of ledger amounts (\<open>Numeric(20, 8)\<close>
  columns) stay below 28 digits and are exact.

  The locale \<open>rounding\<close> states what the pricing code relies on: the context rounding is monotone and
  leaves every ledger amount alone.  It is interpreted on the decimal context itself.
\<close>

section \<open>Rounding modes\<close>

definition round_half_up :: "rat \<Rightarrow> int" where
  "round_half_up x = (if 0 \<le> x then \<lfloor>x + 1 / 2\<rfloor> else - \<lfloor>- x + 1 / 2\<rfloor>)"

definition round_half_even :: "rat \<Rightarrow> int" where
  "round_half_even x =
     (let f = \<lfloor>x\<rfloor>; d = x - of_int f
      in if d < 1 / 2 then f else if 1 / 2 < d then f + 1 else if even f then f else f + 1)"

definition round_down :: "rat \<Rightarrow> int" where
  "round_down x = (if 0 \<le> x then \<lfloor>x\<rfloor> else - \<lfloor>- x\<rfloor>)"

definition quantize :: "nat \<Rightarrow> rat \<Rightarrow> rat" where
  "quantize k x = of_int (round_half_up (x * 10 ^ k)) / 10 ^ k"

text \<open>The number of base-\<open>b\<close> digits of a positive integer, the position of the leading digit of a
  positive rational, and rounding to \<open>p\<close> significant base-\<open>b\<close> digits with ties to even.\<close>

function ndigits :: "int \<Rightarrow> int \<Rightarrow> int" where
  "ndigits b n = (if b \<le> 1 \<or> n \<le> 0 then 0 else ndigits b (n div b) + 1)"
  by pat_completeness auto
termination
  by (relation "measure (\<lambda>(b, n). nat n)") (auto simp: nat_less_iff int_div_less_self)

declare ndigits.simps [simp del]

definition flog :: "int \<Rightarrow> rat \<Rightarrow> int" where
  "flog b x =
     (let (n, d) = quotient_of x; k = ndigits b n - ndigits b d
      in if (of_int b :: rat) powi k \<le> x then k else k - 1)"

definition round_sig :: "int \<Rightarrow> nat \<Rightarrow> rat \<Rightarrow> rat" where
  "round_sig b p x =
     (if x = 0 then 0
      else let u = (of_int b :: rat) powi (flog b \<bar>x\<bar> - int p + 1)
           in sgn x * (of_int (round_half_even (\<bar>x\<bar> / u)) * u))"

section \<open>Laws of the roundings\<close>

lemma ndigits_nonpos [simp]: "n \<le> 0 \<Longrightarrow> ndigits b n = 0"
  by (subst ndigits.simps) simp

lemma ndigits_bounds:
  assumes "1 < b" "0 < n"
  shows "b ^ nat (ndigits b n - 1) \<le> n \<and> n < b ^ nat (ndigits b n) \<and> 0 < ndigits b n"
  using assms
proof (induction b n rule: ndigits.induct)
  case (1 b n)
  show ?case
  proof (cases "n < b")
    case True
    then have "ndigits b n = 1" using "1.prems" by (subst ndigits.simps) simp
    with True show ?thesis using "1.prems" by simp
  next
    case False
    then have pos: "0 < n div b" using "1.prems" by (simp add: pos_imp_zdiv_pos_iff)
    define L where "L = ndigits b (n div b)"
    from "1.IH" pos "1.prems"
    have IH: "b ^ nat (L - 1) \<le> n div b" "n div b < b ^ nat L" "0 < L"
      by (auto simp: L_def)
    have n: "ndigits b n = L + 1"
      using "1.prems" by (subst ndigits.simps) (simp add: L_def)
    have "nat L = Suc (nat (L - 1))" using IH(3) by simp
    then have "b ^ nat L = b * b ^ nat (L - 1)" by simp
    also have "\<dots> \<le> b * (n div b)" using IH(1) "1.prems" by simp
    also have "\<dots> \<le> n" using "1.prems" by (simp add: minus_mod_eq_mult_div [symmetric])
    finally have lo: "b ^ nat L \<le> n" .
    have "n < b * (n div b + 1)"
      using "1.prems" pos_mod_bound [of b n] by (simp add: algebra_simps minus_mod_eq_mult_div [symmetric])
    also have "\<dots> \<le> b * b ^ nat L" using IH(2) "1.prems" by (intro mult_left_mono) auto
    also have "\<dots> = b ^ nat (L + 1)" using IH(3) by (simp add: nat_add_distrib)
    finally show ?thesis using lo n IH(3) by simp
  qed
qed

lemma ndigits_powi:
  assumes "1 < b" "0 < n"
  shows "(of_int b :: rat) powi (ndigits b n - 1) \<le> of_int n"
    and "of_int n < (of_int b :: rat) powi ndigits b n"
proof -
  note * = ndigits_bounds [OF assms]
  have "(of_int (b ^ nat (ndigits b n - 1)) :: rat) \<le> of_int n" using * of_int_le_iff by blast
  then show "(of_int b :: rat) powi (ndigits b n - 1) \<le> of_int n"
    using * by (simp add: power_int_def)
  have "(of_int n :: rat) < of_int (b ^ nat (ndigits b n))" using * of_int_less_iff by blast
  then show "of_int n < (of_int b :: rat) powi ndigits b n"
    using * by (simp add: power_int_def)
qed

lemma flog_bounds:
  assumes b: "1 < b" and x: "0 < x"
  shows "(of_int b :: rat) powi flog b x \<le> x" and "x < (of_int b) powi (flog b x + 1)"
proof -
  obtain n d where q: "quotient_of x = (n, d)" by force
  have d: "0 < d" using quotient_of_denom_pos [OF q] .
  have xe: "x = of_int n / of_int d" using quotient_of_div [OF q] .
  have n: "0 < n" using x xe d by (simp add: zero_less_divide_iff)
  let ?B = "of_int b :: rat" and ?N = "ndigits b n" and ?D = "ndigits b d"
  let ?k = "?N - ?D"
  have B: "1 < ?B" using b by simp
  have add: "\<And>i j. ?B powi (i + j) = ?B powi i * ?B powi j" using B by (intro power_int_add) auto
  note N = ndigits_powi [OF b n] and D = ndigits_powi [OF b d]
  have up: "x < ?B powi (?k + 1)"
  proof -
    have "?B powi ?N = ?B powi (?k + 1) * ?B powi (?D - 1)"
      by (subst add [symmetric]) simp
    also have "\<dots> \<le> ?B powi (?k + 1) * of_int d"
      using D(1) B by (intro mult_left_mono) auto
    finally have "of_int n < ?B powi (?k + 1) * of_int d" using N(2) by linarith
    then show ?thesis using d pos_divide_less_eq [of "of_int d :: rat"] unfolding xe by simp
  qed
  have lo: "?B powi (?k - 1) \<le> x"
  proof -
    have "?B powi (?k - 1) * of_int d \<le> ?B powi (?k - 1) * ?B powi ?D"
      using D(2) B by (intro mult_left_mono) auto
    also have "\<dots> = ?B powi (?N - 1)"
      by (subst add [symmetric]) simp
    finally have "?B powi (?k - 1) * of_int d \<le> of_int n" using N(1) by linarith
    then show ?thesis using d pos_le_divide_eq [of "of_int d :: rat"] unfolding xe by simp
  qed
  have f: "flog b x = (if ?B powi ?k \<le> x then ?k else ?k - 1)"
    by (simp only: flog_def q Let_def prod.case)
  show "?B powi flog b x \<le> x" using f lo by simp
  show "x < ?B powi (flog b x + 1)" using f up by simp
qed

lemma round_half_even_int [simp]: "round_half_even (of_int n) = n"
  by (simp add: round_half_even_def)

lemma round_half_even_floor: "round_half_even x = \<lfloor>x\<rfloor> \<or> round_half_even x = \<lfloor>x\<rfloor> + 1"
  by (auto simp: round_half_even_def Let_def)

lemma round_half_even_mono: "x \<le> y \<Longrightarrow> round_half_even x \<le> round_half_even y"
proof -
  assume le: "x \<le> y"
  show ?thesis
  proof (cases "\<lfloor>x\<rfloor> = \<lfloor>y\<rfloor>")
    case True
    with le show ?thesis by (auto simp: round_half_even_def Let_def)
  next
    case False
    with floor_mono [OF le] have "\<lfloor>x\<rfloor> + 1 \<le> \<lfloor>y\<rfloor>" by simp
    then show ?thesis using round_half_even_floor [of x] round_half_even_floor [of y] by linarith
  qed
qed

lemma round_half_even_le: "x \<le> of_int n \<Longrightarrow> round_half_even x \<le> n"
  using round_half_even_mono [of x "of_int n"] by simp

lemma round_half_even_ge: "of_int n \<le> x \<Longrightarrow> n \<le> round_half_even x"
  using round_half_even_mono [of "of_int n" x] by simp

lemma round_half_up_int [simp]: "round_half_up (of_int n) = n"
proof -
  have "\<lfloor>(of_int m :: rat) + 1 / 2\<rfloor> = m" for m by (simp add: floor_eq_iff)
  from this [of n] this [of "- n"] show ?thesis by (simp add: round_half_up_def)
qed

lemma round_half_up_mono: "x \<le> y \<Longrightarrow> round_half_up x \<le> round_half_up y"
proof -
  assume le: "x \<le> y"
  consider "0 \<le> x" | "x < 0" "0 \<le> y" | "y < 0" by linarith
  then show ?thesis
  proof cases
    case 1
    with le show ?thesis by (simp add: round_half_up_def floor_mono)
  next
    case 2
    then have "0 \<le> \<lfloor>- x + 1 / 2\<rfloor>" "0 \<le> \<lfloor>y + 1 / 2\<rfloor>" by simp_all
    then have "- \<lfloor>- x + 1 / 2\<rfloor> \<le> \<lfloor>y + 1 / 2\<rfloor>" by linarith
    with 2 show ?thesis by (simp only: round_half_up_def not_le [symmetric] if_False if_True)
  next
    case 3
    with le have "\<lfloor>- y + 1 / 2\<rfloor> \<le> \<lfloor>- x + 1 / 2\<rfloor>" by (intro floor_mono) simp
    with le 3 show ?thesis by (simp add: round_half_up_def)
  qed
qed

lemma round_half_up_error: "\<bar>of_int (round_half_up x) - x\<bar> \<le> 1 / 2"
proof (cases "0 \<le> x")
  case True
  then show ?thesis
    using floor_correct [of "x + 1 / 2"] by (simp add: round_half_up_def abs_if) linarith
next
  case False
  then show ?thesis
    using floor_correct [of "- x + 1 / 2"] by (simp add: round_half_up_def abs_if) linarith
qed

lemma round_down_int [simp]: "round_down (of_int n) = n"
  by (simp add: round_down_def)

lemma round_down_bounds: "0 \<le> x \<Longrightarrow> of_int (round_down x) \<le> x \<and> x < of_int (round_down x) + 1"
  using floor_correct [of x] by (simp add: round_down_def)

lemma round_down_mono: "0 \<le> x \<Longrightarrow> x \<le> y \<Longrightarrow> round_down x \<le> round_down y"
  by (simp add: round_down_def floor_mono)

lemma quantize_mono: "x \<le> y \<Longrightarrow> quantize k x \<le> quantize k y"
  unfolding quantize_def
  by (intro divide_right_mono of_int_le_iff [THEN iffD2] round_half_up_mono mult_right_mono) auto

text \<open>Amounts with at most \<open>k\<close> decimal places.\<close>

definition on_grid :: "nat \<Rightarrow> rat \<Rightarrow> bool" where
  "on_grid k x \<longleftrightarrow> of_int \<lfloor>x * 10 ^ k\<rfloor> = x * 10 ^ k"

lemma on_gridI: "x * 10 ^ k = of_int n \<Longrightarrow> on_grid k x"
  by (simp add: on_grid_def)

lemma on_gridE: "on_grid k x \<Longrightarrow> (\<And>n. x * 10 ^ k = of_int n \<Longrightarrow> P) \<Longrightarrow> P"
  unfolding on_grid_def by metis

lemma on_grid_quantize [simp]: "on_grid k (quantize k x)"
  by (rule on_gridI) (simp add: quantize_def)

lemma quantize_id: "on_grid k x \<Longrightarrow> quantize k x = x"
  by (erule on_gridE) (simp add: quantize_def field_simps)

lemma quantize_idem [simp]: "quantize k (quantize k x) = quantize k x"
  by (simp add: quantize_id)

lemma quantize_0 [simp]: "quantize k 0 = 0"
  using round_half_up_int [of 0] by (simp add: quantize_def)

lemma quantize_nonneg [simp]: "0 \<le> x \<Longrightarrow> 0 \<le> quantize k x"
  using quantize_mono [of 0 x k] by simp

lemma quantize_error: "\<bar>quantize k x - x\<bar> \<le> 1 / (2 * 10 ^ k)"
proof -
  have "quantize k x - x = (of_int (round_half_up (x * 10 ^ k)) - x * 10 ^ k) / 10 ^ k"
    by (simp add: quantize_def field_simps)
  then have "\<bar>quantize k x - x\<bar> = \<bar>of_int (round_half_up (x * 10 ^ k)) - x * 10 ^ k\<bar> / 10 ^ k"
    by simp
  also have "\<dots> \<le> 1 / 2 / 10 ^ k"
    by (intro divide_right_mono round_half_up_error) simp
  finally show ?thesis by simp
qed

lemma on_grid_0 [simp]: "on_grid k 0"
  by (simp add: on_grid_def)

lemma on_grid_diff: "on_grid k x \<Longrightarrow> on_grid k y \<Longrightarrow> on_grid k (x - y)"
proof (elim on_gridE)
  fix n m
  assume "x * 10 ^ k = of_int n" "y * 10 ^ k = of_int m"
  then show ?thesis by (intro on_gridI [of _ _ "n - m"]) (simp add: left_diff_distrib)
qed

lemma on_grid_add: "on_grid k x \<Longrightarrow> on_grid k y \<Longrightarrow> on_grid k (x + y)"
proof (elim on_gridE)
  fix n m
  assume "x * 10 ^ k = of_int n" "y * 10 ^ k = of_int m"
  then show ?thesis by (intro on_gridI [of _ _ "n + m"]) (simp add: distrib_right)
qed

lemma on_grid_mult_int: "on_grid k c \<Longrightarrow> on_grid k (c * of_int n)"
proof (elim on_gridE)
  fix m
  assume "c * 10 ^ k = of_int m"
  then show ?thesis by (intro on_gridI [of _ _ "m * n"]) (simp add: mult.assoc mult.commute)
qed

lemma on_grid_mono: "on_grid j x \<Longrightarrow> j \<le> k \<Longrightarrow> on_grid k x"
proof (elim on_gridE)
  fix m
  assume "x * 10 ^ j = of_int m" "j \<le> k"
  then have "x * 10 ^ k = of_int (m * 10 ^ (k - j))"
    by (simp add: power_add [symmetric] flip: mult.assoc)
       (simp add: mult.assoc power_add [symmetric] flip: \<open>x * 10 ^ j = of_int m\<close>)
  then show ?thesis by (rule on_gridI)
qed

lemma round_sig_0 [simp]: "round_sig b p 0 = 0"
  by (simp add: round_sig_def)

lemma round_sig_minus: "round_sig b p (- x) = - round_sig b p x"
  by (simp add: round_sig_def Let_def sgn_minus)

lemma round_sig_pos:
  "0 < x \<Longrightarrow> round_sig b p x =
     of_int (round_half_even (x / (of_int b powi (flog b x - int p + 1)))) * of_int b powi (flog b x - int p + 1)"
  by (simp add: round_sig_def Let_def)

lemma flog_mono:
  assumes b: "1 < b" and "0 < x" "x \<le> y"
  shows "flog b x \<le> flog b y"
proof (rule ccontr)
  assume "\<not> flog b x \<le> flog b y"
  then have "(of_int b :: rat) powi (flog b y + 1) \<le> of_int b powi flog b x"
    using b by (intro power_int_increasing) auto
  moreover have "y < of_int b powi (flog b y + 1)" "of_int b powi flog b x \<le> x"
    using flog_bounds [OF b] assms by auto
  ultimately show False using \<open>x \<le> y\<close> by linarith
qed

lemma round_sig_range:
  assumes b: "1 < b" and p: "0 < p" and x: "0 < x"
  shows "of_int b powi flog b x \<le> round_sig b p x" and "round_sig b p x \<le> of_int b powi (flog b x + 1)"
proof -
  let ?B = "of_int b :: rat" and ?f = "flog b x"
  define u where "u = ?B powi (?f - int p + 1)"
  have u: "0 < u" using b by (simp add: u_def)
  have add: "\<And>i j. ?B powi (i + j) = ?B powi i * ?B powi j" using b by (intro power_int_add) auto
  have lo: "?B powi ?f = of_int (b ^ (p - 1)) * u"
  proof -
    have "?B powi ?f = ?B powi (int (p - 1)) * u"
      unfolding u_def using p by (subst add [symmetric]) (simp add: of_nat_diff)
    then show ?thesis by simp
  qed
  have hi: "?B powi (?f + 1) = of_int (b ^ p) * u"
  proof -
    have "?B powi (?f + 1) = ?B powi (int p) * u"
      unfolding u_def by (subst add [symmetric]) simp
    then show ?thesis by simp
  qed
  have r: "round_sig b p x = of_int (round_half_even (x / u)) * u"
    by (simp only: round_sig_pos [OF x] u_def)
  have "of_int (b ^ (p - 1)) \<le> x / u" "x / u \<le> of_int (b ^ p)"
    using flog_bounds [OF b x] unfolding lo hi
    by (simp_all only: pos_le_divide_eq [OF u] pos_divide_le_eq [OF u] less_imp_le)
  then have "b ^ (p - 1) \<le> round_half_even (x / u)" "round_half_even (x / u) \<le> b ^ p"
    by (simp_all only: round_half_even_ge round_half_even_le)
  then show "?B powi ?f \<le> round_sig b p x" "round_sig b p x \<le> ?B powi (?f + 1)"
    unfolding r lo hi using u by (simp_all only: mult_right_mono of_int_le_iff less_imp_le)
qed

lemma round_sig_nonneg:
  assumes "1 < b" "0 < p" "0 \<le> x"
  shows "0 \<le> round_sig b p x"
proof (cases "x = 0")
  case False
  have "(0 :: rat) \<le> of_int b powi flog b x" using assms by simp
  with round_sig_range(1) [of b p x] assms False show ?thesis by linarith
qed simp

lemma round_sig_mono_pos:
  assumes b: "1 < b" and p: "0 < p" and x: "0 < x" and le: "x \<le> y"
  shows "round_sig b p x \<le> round_sig b p y"
proof (cases "flog b x = flog b y")
  case True
  have "0 < y" using x le by linarith
  then show ?thesis
    using b le unfolding round_sig_pos [OF x] round_sig_pos [OF \<open>0 < y\<close>] True
    by (intro mult_right_mono of_int_le_iff [THEN iffD2] round_half_even_mono divide_right_mono) auto
next
  case False
  with flog_mono [OF b x le] have lt: "flog b x + 1 \<le> flog b y" by simp
  have "0 < y" using x le by linarith
  have "round_sig b p x \<le> of_int b powi (flog b x + 1)" by (rule round_sig_range [OF b p x])
  also have "\<dots> \<le> of_int b powi flog b y" using b lt by (intro power_int_increasing) auto
  also have "\<dots> \<le> round_sig b p y" by (rule round_sig_range [OF b p \<open>0 < y\<close>])
  finally show ?thesis .
qed

lemma round_sig_mono:
  assumes b: "1 < b" and p: "0 < p" and le: "x \<le> y"
  shows "round_sig b p x \<le> round_sig b p y"
proof -
  consider "0 < x" | "x \<le> 0" "0 \<le> y" | "y < 0" by linarith
  then show ?thesis
  proof cases
    case 1
    then show ?thesis using round_sig_mono_pos assms by blast
  next
    case 2
    then show ?thesis
      using round_sig_nonneg [OF b p, of y] round_sig_nonneg [OF b p, of "- x"]
      by (simp add: round_sig_minus)
  next
    case 3
    then show ?thesis
      using round_sig_mono_pos [OF b p, of "- y" "- x"] le by (simp add: round_sig_minus)
  qed
qed

lemma round_sig_exact_pos:
  assumes b: "1 < b" and p: "0 < p" and m: "0 < m" "m < b ^ p" and x: "x = of_int m * of_int b powi e"
  shows "round_sig b p x = x"
proof -
  let ?B = "of_int b :: rat"
  have add: "\<And>i j. ?B powi (i + j) = ?B powi i * ?B powi j" using b by (intro power_int_add) auto
  have x0: "0 < x" using x m b by simp
  have "x < ?B powi (int p + e)"
  proof -
    have "(of_int m :: rat) < of_int (b ^ p)" using m by (simp only: of_int_less_iff)
    then show ?thesis unfolding x add using b by (intro mult_strict_right_mono) auto
  qed
  then have "?B powi flog b x < ?B powi (int p + e)" using flog_bounds(1) [OF b x0] by linarith
  then have "flog b x < int p + e"
    using b power_int_increasing [of "int p + e" "flog b x" ?B] by (meson not_le of_int_1_le_iff less_imp_le)
  define u where "u = ?B powi (flog b x - int p + 1)"
  define d where "d = nat (e - (flog b x - int p + 1))"
  have e: "e = int d + (flog b x - int p + 1)" using \<open>flog b x < int p + e\<close> by (simp add: d_def)
  have u: "u \<noteq> 0" using b by (simp add: u_def)
  have "?B powi e = ?B powi int d * u" unfolding u_def by (subst e) (rule add)
  then have xu: "x = of_int (m * b ^ d) * u" by (simp add: x)
  then have "x / u = of_int (m * b ^ d)" using u by (simp only: nonzero_mult_div_cancel_right not_False_eq_True)
  then have "round_sig b p x = of_int (m * b ^ d) * u"
    unfolding round_sig_pos [OF x0] u_def [symmetric] by (simp only: round_half_even_int)
  with xu show ?thesis by simp
qed

lemma round_sig_exact:
  assumes b: "1 < b" and p: "0 < p" and m: "\<bar>m\<bar> < b ^ p" and x: "x = of_int m * of_int b powi e"
  shows "round_sig b p x = x"
proof -
  consider "0 < m" | "m = 0" | "m < 0" by linarith
  then show ?thesis
  proof cases
    case 1
    then show ?thesis using round_sig_exact_pos [OF b p _ _ x] m by simp
  next
    case 2
    then show ?thesis by (simp add: x)
  next
    case 3
    then have "round_sig b p (- x) = - x"
      using m x by (intro round_sig_exact_pos [OF b p, of "- m" _ e]) auto
    then show ?thesis by (simp add: round_sig_minus)
  qed
qed

section \<open>The decimal context\<close>

text \<open>Python's default context: 28 significant digits, ties to even.\<close>

definition ctx :: "rat \<Rightarrow> rat" where
  "ctx = round_sig 10 28"

lemma ctx_grid:
  assumes "on_grid k x" "\<bar>x\<bar> < 10 ^ 20" "k \<le> 8"
  shows "ctx x = x"
proof -
  obtain n where n: "x * 10 ^ k = of_int n" using assms(1) by (elim on_gridE)
  have "\<bar>of_int n :: rat\<bar> = \<bar>x\<bar> * 10 ^ k" by (simp add: n [symmetric] abs_mult)
  also have "\<dots> < 10 ^ 20 * 10 ^ k" using assms(2) by (intro mult_strict_right_mono) auto
  also have "\<dots> \<le> 10 ^ 20 * 10 ^ 8" using assms(3) by (intro mult_left_mono power_increasing) auto
  finally have "(of_int \<bar>n\<bar> :: rat) < of_int (10 ^ 28)" by simp
  then have m: "\<bar>n\<bar> < 10 ^ 28" by (simp only: of_int_less_iff)
  have "x = of_int n * of_int 10 powi (- int k)"
    using n by (simp add: power_int_minus field_simps)
  with m show ?thesis unfolding ctx_def by (intro round_sig_exact) auto
qed

text \<open>What the money code needs of the context rounding.\<close>

locale rounding =
  fixes rnd :: "rat \<Rightarrow> rat"
  assumes rnd_mono: "x \<le> y \<Longrightarrow> rnd x \<le> rnd y"
    and rnd_grid: "on_grid 8 x \<Longrightarrow> \<bar>x\<bar> < 10 ^ 20 \<Longrightarrow> rnd x = x"
begin

lemma rnd_0 [simp]: "rnd 0 = 0"
  by (rule rnd_grid) auto

lemma rnd_1 [simp]: "rnd 1 = 1"
  by (rule rnd_grid) (auto intro: on_gridI [of _ _ "10 ^ 8"])

lemma rnd_nonneg [simp]: "0 \<le> x \<Longrightarrow> 0 \<le> rnd x"
  using rnd_mono [of 0 x] by simp

lemma rnd_le_1: "x \<le> 1 \<Longrightarrow> rnd x \<le> 1"
  using rnd_mono [of x 1] by simp

text \<open>A share of \<open>n\<close> out of \<open>d\<close> parts, multiplied first and divided after, never exceeds the whole.\<close>

lemma share_le:
  assumes c: "0 \<le> c" "on_grid 8 c" "c * d < 10 ^ 20" and n: "0 \<le> n" "n \<le> d" and d: "1 \<le> d" "on_grid 8 (c * d)"
  shows "rnd (rnd (c * n) / d) \<le> c"
proof -
  have "c * n \<le> c * d" using c n by (intro mult_left_mono) auto
  then have "rnd (c * n) \<le> rnd (c * d)" by (rule rnd_mono)
  also have "\<dots> = c * d" using c d by (intro rnd_grid) (auto simp: abs_mult)
  finally have "rnd (c * n) / d \<le> c" using d by (simp add: pos_divide_le_eq)
  then have "rnd (rnd (c * n) / d) \<le> rnd c" by (rule rnd_mono)
  also have "c * 1 \<le> c * d" using c d by (intro mult_left_mono) auto
  then have "rnd c = c" using c by (intro rnd_grid) auto
  finally show ?thesis .
qed

lemma share_nonneg: "0 \<le> c \<Longrightarrow> 0 \<le> n \<Longrightarrow> 0 \<le> d \<Longrightarrow> 0 \<le> rnd (rnd (c * n) / d)"
  by simp

end

interpretation decimal: rounding ctx
proof
  show "x \<le> y \<Longrightarrow> ctx x \<le> ctx y" for x y
    unfolding ctx_def by (rule round_sig_mono) auto
  show "on_grid 8 x \<Longrightarrow> \<bar>x\<bar> < 10 ^ 20 \<Longrightarrow> ctx x = x" for x
    by (rule ctx_grid) auto
qed

end
