(* ===== verification/Stdlib.thy ===== *)
theory Stdlib
  imports Numerics "HOL-Library.Word"
begin

unbundle bit_operations_syntax

text \<open>
  The standard-library functions whose values the coordinator stores or compares: \<open>hashlib.sha256\<close>
  (FIPS 180-4), \<open>hmac\<close> over it, and \<open>json.dumps\<close> with sorted keys and compact separators.  A byte
  string is a \<open>string\<close> (a list of eight-bit characters); text is restricted to the code points below
  256.
\<close>

section \<open>SHA-256\<close>

type_synonym w32 = "32 word"

definition first_primes :: "int list" where
  "first_primes = [
     2, 3, 5, 7, 11, 13, 17, 19, 23, 29, 31, 37, 41, 43, 47, 53,
     59, 61, 67, 71, 73, 79, 83, 89, 97, 101, 103, 107, 109, 113, 127, 131,
     137, 139, 149, 151, 157, 163, 167, 173, 179, 181, 191, 193, 197, 199, 211, 223,
     227, 229, 233, 239, 241, 251, 257, 263, 269, 271, 277, 281, 283, 293, 307, 311]"

text \<open>The round constants: the first 32 bits of the fractional parts of the cube roots of these primes.\<close>

definition sha256_K :: "w32 list" where
  "sha256_K = [
     1116352408, 1899447441, 3049323471, 3921009573, 961987163, 1508970993, 2453635748,
     2870763221, 3624381080, 310598401, 607225278, 1426881987, 1925078388, 2162078206,
     2614888103, 3248222580, 3835390401, 4022224774, 264347078, 604807628, 770255983,
     1249150122, 1555081692, 1996064986, 2554220882, 2821834349, 2952996808, 3210313671,
     3336571891, 3584528711, 113926993, 338241895, 666307205, 773529912, 1294757372,
     1396182291, 1695183700, 1986661051, 2177026350, 2456956037, 2730485921, 2820302411,
     3259730800, 3345764771, 3516065817, 3600352804, 4094571909, 275423344, 430227734,
     506948616, 659060556, 883997877, 958139571, 1322822218, 1537002063, 1747873779,
     1955562222, 2024104815, 2227730452, 2361852424, 2428436474, 2756734187, 3204031479,
     3329325298]"

definition is_cube_root_fraction :: "int \<Rightarrow> int \<Rightarrow> bool" where
  "is_cube_root_fraction p k \<longleftrightarrow>
     list_ex (\<lambda>m. (m * 2 ^ 32 + k) ^ 3 \<le> p * 2 ^ 96 \<and> p * 2 ^ 96 < (m * 2 ^ 32 + k + 1) ^ 3) [1, 2, 3, 4, 5, 6]"

lemma sha256_K_cube_roots: "list_all2 is_cube_root_fraction first_primes (map uint sha256_K)"
  by code_simp

definition sha256_H0 :: "w32 list" where
  "sha256_H0 = [0x6a09e667, 0xbb67ae85, 0x3c6ef372, 0xa54ff53a, 0x510e527f, 0x9b05688c, 0x1f83d9ab, 0x5be0cd19]"

definition Ch :: "w32 \<Rightarrow> w32 \<Rightarrow> w32 \<Rightarrow> w32" where
  "Ch x y z = (x AND y) XOR (NOT x AND z)"

definition Maj :: "w32 \<Rightarrow> w32 \<Rightarrow> w32 \<Rightarrow> w32" where
  "Maj x y z = (x AND y) XOR (x AND z) XOR (y AND z)"

definition Sig0 :: "w32 \<Rightarrow> w32" where
  "Sig0 x = word_rotr 2 x XOR word_rotr 13 x XOR word_rotr 22 x"

definition Sig1 :: "w32 \<Rightarrow> w32" where
  "Sig1 x = word_rotr 6 x XOR word_rotr 11 x XOR word_rotr 25 x"

definition sig0 :: "w32 \<Rightarrow> w32" where
  "sig0 x = word_rotr 7 x XOR word_rotr 18 x XOR drop_bit 3 x"

definition sig1 :: "w32 \<Rightarrow> w32" where
  "sig1 x = word_rotr 17 x XOR word_rotr 19 x XOR drop_bit 10 x"

text \<open>The message schedule, newest word first.\<close>

fun sha256_expand :: "nat \<Rightarrow> w32 list \<Rightarrow> w32 list" where
  "sha256_expand 0 ws = ws"
| "sha256_expand (Suc n) ws =
     sha256_expand n ((sig1 (ws ! 1) + ws ! 6 + sig0 (ws ! 14) + ws ! 15) # ws)"

definition sha256_round :: "w32 list \<Rightarrow> w32 \<times> w32 \<Rightarrow> w32 list" where
  "sha256_round st kw =
     (case st of [a, b, c, d, e, f, g, h] \<Rightarrow>
        (let t1 = h + Sig1 e + Ch e f g + fst kw + snd kw; t2 = Sig0 a + Maj a b c
         in [t1 + t2, a, b, c, d + t1, e, f, g])
      | _ \<Rightarrow> st)"

definition sha256_block :: "w32 list \<Rightarrow> w32 list \<Rightarrow> w32 list" where
  "sha256_block hs ws =
     map2 (+) hs (foldl sha256_round hs (zip sha256_K (rev (sha256_expand 48 (rev ws)))))"

fun be_words :: "string \<Rightarrow> w32 list" where
  "be_words (a # b # c # d # cs) =
     (push_bit 24 (of_char a) OR push_bit 16 (of_char b) OR push_bit 8 (of_char c) OR of_char d) # be_words cs"
| "be_words _ = []"

fun be_bytes :: "nat \<Rightarrow> int \<Rightarrow> string" where
  "be_bytes 0 n = []"
| "be_bytes (Suc k) n = be_bytes k (n div 256) @ [char_of (n mod 256)]"

definition sha256_pad :: "string \<Rightarrow> string" where
  "sha256_pad m =
     (let l = int (length m) in
      m @ [char_of (128::int)] @ replicate (nat ((119 - l mod 64) mod 64)) (char_of (0::int)) @ be_bytes 8 (8 * l))"

fun sha256_blocks :: "nat \<Rightarrow> w32 list \<Rightarrow> w32 list \<Rightarrow> w32 list" where
  "sha256_blocks 0 hs ws = hs"
| "sha256_blocks (Suc n) hs ws = sha256_blocks n (sha256_block hs (take 16 ws)) (drop 16 ws)"

definition sha256_digest :: "string \<Rightarrow> string" where
  "sha256_digest m =
     (let p = sha256_pad m
      in concat (map (\<lambda>w. be_bytes 4 (uint w)) (sha256_blocks (length p div 64) sha256_H0 (be_words p))))"

definition to_hex :: "string \<Rightarrow> string" where
  "to_hex bs = concat (map (\<lambda>c. hex_fixed 2 (of_char c)) bs)"

text \<open>\<open>hashlib.sha256(m).hexdigest()\<close>\<close>

definition sha256 :: "string \<Rightarrow> string" where
  "sha256 m = to_hex (sha256_digest m)"

text \<open>\<open>hmac.new(key, m, hashlib.sha256).hexdigest()\<close>\<close>

definition xor_pad :: "int \<Rightarrow> string \<Rightarrow> string" where
  "xor_pad x k = map (\<lambda>c. char_of ((of_char c :: int) XOR x)) k"

definition hmac_sha256 :: "string \<Rightarrow> string \<Rightarrow> string" where
  "hmac_sha256 key m =
     (let k = (if length key > 64 then sha256_digest key else key);
          k = k @ replicate (64 - length k) (char_of (0::int))
      in sha256 (xor_pad 0x5c k @ sha256_digest (xor_pad 0x36 k @ m)))"

section \<open>JSON text\<close>

definition json_escape :: "char \<Rightarrow> string" where
  "json_escape c =
     (let n = of_char c :: int in
      if n = 34 then [char_of (92::int), char_of (34::int)]
      else if n = 92 then [char_of (92::int), char_of (92::int)]
      else if n = 10 then [char_of (92::int), CHR ''n'']
      else if n = 13 then [char_of (92::int), CHR ''r'']
      else if n = 9 then [char_of (92::int), CHR ''t'']
      else if n = 12 then [char_of (92::int), CHR ''f'']
      else if n = 8 then [char_of (92::int), CHR ''b'']
      else if 32 \<le> n \<and> n \<le> 126 then [c]
      else char_of (92::int) # CHR ''u'' # hex_fixed 4 n)"

definition json_string :: "string \<Rightarrow> string" where
  "json_string s = char_of (34::int) # concat (map json_escape s) @ [char_of (34::int)]"

text \<open>\<open>float.__repr__\<close>: the shortest digits that read back as the same double, in positional form for
  decimal exponents from -4 to 15 and in scientific form otherwise.\<close>

fun shortest_digits :: "nat \<Rightarrow> nat \<Rightarrow> rat \<Rightarrow> nat" where
  "shortest_digits 0 n x = n"
| "shortest_digits (Suc fuel) n x =
     (if round_sig 2 53 (round_sig 10 n x) = x then n else shortest_digits fuel (Suc n) x)"

definition float_repr :: "rat \<Rightarrow> string" where
  "float_repr x =
     (if x = 0 then ''0.0''
      else
        (let n = shortest_digits 16 1 \<bar>x\<bar>;
             y = round_sig 10 n \<bar>x\<bar>;
             e = flog 10 y;
             digits = nonneg_str (round_half_even (y / 10 powi (e - int n + 1)));
             body =
               (if - 4 \<le> e \<and> e < 16 then
                  (if e < 0 then ''0.'' @ replicate (nat (- e - 1)) (CHR ''0'') @ digits
                   else if int n \<le> e + 1 then digits @ replicate (nat (e + 1 - int n)) (CHR ''0'') @ ''.0''
                   else take (nat (e + 1)) digits @ ''.'' @ drop (nat (e + 1)) digits)
                else
                  (take 1 digits @ (if n > 1 then ''.'' @ drop 1 digits else [])
                   @ ''e'' @ (if e < 0 then ''-'' else ''+'')
                   @ (if \<bar>e\<bar> < 10 then ''0'' else []) @ nonneg_str \<bar>e\<bar>))
         in (if x < 0 then CHR ''-'' # body else body)))"

fun str_le :: "string \<Rightarrow> string \<Rightarrow> bool" where
  "str_le [] t \<longleftrightarrow> True"
| "str_le (c # s) [] \<longleftrightarrow> False"
| "str_le (c # s) (d # t) \<longleftrightarrow>
     (of_char c :: int) < of_char d \<or> (c = d \<and> str_le s t)"

fun insert_pair :: "string \<times> 'v \<Rightarrow> (string \<times> 'v) list \<Rightarrow> (string \<times> 'v) list" where
  "insert_pair p [] = [p]"
| "insert_pair p (q # qs) = (if str_le (fst p) (fst q) then p # q # qs else q # insert_pair p qs)"

definition sort_pairs :: "(string \<times> 'v) list \<Rightarrow> (string \<times> 'v) list" where
  "sort_pairs ps = foldr insert_pair ps []"

fun join :: "string \<Rightarrow> string list \<Rightarrow> string" where
  "join sep [] = []"
| "join sep [x] = x"
| "join sep (x # y # ys) = x @ sep @ join sep (y # ys)"

text \<open>\<open>json.dumps(v, sort_keys=True, separators=(",", ":"), ensure_ascii=True)\<close>\<close>

fun dumps :: "json \<Rightarrow> string" where
  "dumps JNull = ''null''"
| "dumps (JBool b) = (if b then ''true'' else ''false'')"
| "dumps (JInt i) = int_str i"
| "dumps (JFloat x) = float_repr x"
| "dumps (JStr s) = json_string s"
| "dumps (JList xs) = ''['' @ join '','' (map dumps xs) @ '']''"
| "dumps (JObj d) =
     ''{'' @ join '','' (map (\<lambda>(k, s). json_string k @ '':'' @ s)
                         (sort_pairs (map (\<lambda>(k, v). (k, dumps v)) d))) @ ''}''"

lemma set_insert_pair [simp]: "set (insert_pair p qs) = insert p (set qs)"
  by (induction qs) auto

lemma set_sort_pairs [simp]: "set (sort_pairs ps) = set ps"
  by (induction ps) (auto simp: sort_pairs_def)

section \<open>Text and comparison\<close>

text \<open>\<open>str.encode()\<close> (UTF-8) on code points below 256.\<close>

definition utf8 :: "string \<Rightarrow> string" where
  "utf8 s = concat (map (\<lambda>c. let n = of_char c :: int in
     if n < 128 then [c] else [char_of (192 + n div 64), char_of (128 + n mod 64)]) s)"

definition is_ascii :: "string \<Rightarrow> bool" where
  "is_ascii s = list_all (\<lambda>c. (of_char c :: int) < 128) s"

text \<open>\<open>hmac.compare_digest\<close> on two strings: equality, refused (\<open>None\<close>) on text that is not ASCII.\<close>

definition compare_digest :: "string \<Rightarrow> string \<Rightarrow> bool option" where
  "compare_digest a b = (if is_ascii a \<and> is_ascii b then Some (a = b) else None)"

definition is_space :: "char \<Rightarrow> bool" where
  "is_space c = (let n = of_char c :: int in n = 32 \<or> (9 \<le> n \<and> n \<le> 13) \<or> (28 \<le> n \<and> n \<le> 31) \<or> n = 133 \<or> n = 160)"

definition strip :: "string \<Rightarrow> string" where
  "strip s = rev (dropWhile is_space (rev (dropWhile is_space s)))"

fun split_on :: "char \<Rightarrow> string \<Rightarrow> string list" where
  "split_on c [] = [[]]"
| "split_on c (x # xs) =
     (if x = c then [] # split_on c xs
      else (case split_on c xs of [] \<Rightarrow> [[x]] | w # ws \<Rightarrow> (x # w) # ws))"

definition to_lower :: "string \<Rightarrow> string" where
  "to_lower s = map (\<lambda>c. let n = of_char c :: int in
     if (65 \<le> n \<and> n \<le> 90) \<or> (192 \<le> n \<and> n \<le> 222 \<and> n \<noteq> 215) then char_of (n + 32) else c) s"

text \<open>\<open>repr\<close> and \<open>str\<close> of a JSON value.\<close>

definition repr_char :: "char \<Rightarrow> char \<Rightarrow> string" where
  "repr_char q c =
     (let n = of_char c :: int; bs = char_of (92::int) in
      if n = 92 then [bs, bs]
      else if c = q then [bs, q]
      else if n = 10 then [bs, CHR ''n''] else if n = 13 then [bs, CHR ''r''] else if n = 9 then [bs, CHR ''t'']
      else if n < 32 \<or> (127 \<le> n \<and> n \<le> 160) \<or> n = 173 then bs # CHR ''x'' # hex_fixed 2 n
      else [c])"

definition str_repr :: "string \<Rightarrow> string" where
  "str_repr s =
     (let q = (if char_of (39::int) \<in> set s \<and> char_of (34::int) \<notin> set s then char_of (34::int) else char_of (39::int))
      in q # concat (map (repr_char q) s) @ [q])"

fun py_repr :: "json \<Rightarrow> string" where
  "py_repr JNull = ''None''"
| "py_repr (JBool b) = (if b then ''True'' else ''False'')"
| "py_repr (JInt i) = int_str i"
| "py_repr (JFloat x) = float_repr x"
| "py_repr (JStr s) = str_repr s"
| "py_repr (JList xs) = ''['' @ join '', '' (map py_repr xs) @ '']''"
| "py_repr (JObj d) = ''{'' @ join '', '' (map (\<lambda>(k, v). str_repr k @ '': '' @ py_repr v) d) @ ''}''"

definition py_str :: "json \<Rightarrow> string" where
  "py_str v = (case v of JStr s \<Rightarrow> s | _ \<Rightarrow> py_repr v)"

text \<open>IEEE doubles: the nearest representable value, and the numbers of a JSON value (\<open>bool\<close> counts as
  an integer).\<close>

definition dbl :: "rat \<Rightarrow> rat" where
  "dbl x = round_sig 2 53 x"

fun num_of :: "json \<Rightarrow> rat option" where
  "num_of (JInt i) = Some (of_int i)"
| "num_of (JFloat x) = Some x"
| "num_of (JBool b) = Some (if b then 1 else 0)"
| "num_of _ = None"

lemma compare_digest_refl [simp]: "is_ascii a \<Longrightarrow> compare_digest a a = Some True"
  by (simp add: compare_digest_def)

lemma compare_digest_True: "compare_digest a b = Some True \<longleftrightarrow> is_ascii a \<and> a = b"
  by (auto simp: compare_digest_def)

lemma hex_digit_ascii: "0 \<le> n \<Longrightarrow> n < 16 \<Longrightarrow> (of_char (hex_digit n) :: int) < 128"
  by (simp add: hex_digit_def)

lemma hex_fixed_ascii: "is_ascii (hex_fixed k n)"
  by (induction k arbitrary: n) (auto simp: is_ascii_def hex_digit_ascii)

lemma sha256_ascii [simp]: "is_ascii (sha256 m)"
  using hex_fixed_ascii by (auto simp: sha256_def to_hex_def is_ascii_def list_all_iff)

lemma hmac_ascii [simp]: "is_ascii (hmac_sha256 k m)"
  by (simp add: hmac_sha256_def Let_def)


text \<open>A hex digest has 64 characters.\<close>

lemma sha256_round_length: "length (sha256_round st kw) = length st"
  by (auto simp: sha256_round_def Let_def split: list.splits)

lemma sha256_rounds_length: "length (foldl sha256_round st xs) = length st"
  by (induction xs arbitrary: st) (simp_all add: sha256_round_length)

lemma sha256_blocks_length: "length (sha256_blocks n hs ws) = length hs"
  by (induction n arbitrary: hs ws) (simp_all add: sha256_block_def sha256_rounds_length)

lemma be_bytes_length: "length (be_bytes k n) = k"
  by (induction k arbitrary: n) simp_all

lemma sha256_digest_length: "length (sha256_digest m) = 32"
  by (simp add: sha256_digest_def Let_def length_concat comp_def be_bytes_length sum_list_triv
      sha256_blocks_length sha256_H0_def)

lemma sha256_length [simp]: "length (sha256 m) = 64"
proof -
  have "length (hex_fixed k n) = k" for k n by (induction k arbitrary: n) simp_all
  then show ?thesis
    by (simp add: sha256_def to_hex_def length_concat comp_def sum_list_triv sha256_digest_length)
qed


text \<open>All of them are lower-case hexadecimal digits.\<close>

definition hex_chars :: string where
  "hex_chars = ''0123456789abcdef''"

lemma hex_digit_chars:
  assumes "0 \<le> n" "n < 16"
  shows "hex_digit n \<in> set hex_chars"
proof -
  have "n \<in> {0, 1, 2, 3, 4, 5, 6, 7, 8, 9, 10, 11, 12, 13, 14, 15}" unfolding insert_iff empty_iff using assms by presburger
  then show ?thesis by (elim insertE) (simp_all add: hex_digit_def hex_chars_def char_of_def)
qed

lemma sha256_chars: "set (sha256 m) \<subseteq> set hex_chars"
proof -
  have "set (hex_fixed k n) \<subseteq> set hex_chars" for k n
    by (induction k arbitrary: n) (auto simp: hex_digit_chars)
  then show ?thesis by (auto simp: sha256_def to_hex_def)
qed

end
