(* ===== verification/Config.thy ===== *)
theory Config
  imports Numerics
begin

text \<open>
  The settings of \<open>api/app/config.py\<close> the modelled code reads, with the bounds their \<open>Field\<close>s declare
  (\<open>field_bounds\<close>) and the cross-field validator that keeps the liveness window open.  A \<open>float\<close>
  setting is the decimal value it was written as.
\<close>

record Settings =
  env :: string
  cors_allow_origins :: string
  siwe_domain :: string
  siwe_uri :: string
  siwe_nonce_ttl_seconds :: int
  session_ttl_seconds :: int
  secret_key :: string
  hmac_key :: string
  operator_secret :: string
  relay_secret :: string
  endpoint_key :: string
  kek :: string
  kek_previous :: string
  attestation_secret :: string
  secrets_ttl_seconds :: int
  dispute_window_seconds :: int
  health_max_gpu_temp_c :: rat
  health_max_error_rate :: rat
  alert_queue_backlog :: int
  alert_min_connected_providers :: int
  peer_distribution_enabled :: bool
  lease_seconds :: int
  max_attempts :: int
  poll_hold_seconds :: rat
  poll_tick_seconds :: rat
  connection_timeout_seconds :: int
  agent_heartbeat_interval_seconds :: int
  relay_allowed_origins :: string
  relay_auth_failures_per_minute :: int
  public_base_url :: string
  canary_rate :: rat
  min_provider_stake :: int
  slash_amount :: int
  high_value_min_reputation :: rat
  protocol_fee_bps :: int
  base_job_price :: rat
  data_price_per_gb :: rat
  chain_enabled :: bool
  chain_rpc_url :: string
  chain_id :: int
  escrow_address :: string
  staking_address :: string
  usdc_decimals :: nat
  chain_signer :: string
  chain_kms_key_id :: string
  coordinator_private_key :: string
  expected_coordinator_address :: string
  chain_confirmations :: int
  chain_balance_cache_ttl_seconds :: rat
  chain_start_block :: int
  chain_log_window :: int
  settlement_threshold_usdc :: rat
  settlement_interval_seconds :: rat
  rate_limit_per_minute :: int
  max_request_bytes :: int
  free_chat_rate_per_minute :: int
  free_chat_concurrency :: int
  free_chat_queue_depth :: int
  free_images_per_day :: int

definition default_settings :: Settings where
  "default_settings = \<lparr>
     env = ''dev'', cors_allow_origins = '''',
     siwe_domain = ''localhost:3000'', siwe_uri = ''http://localhost:3000'',
     siwe_nonce_ttl_seconds = 300, session_ttl_seconds = 7 * 86400,
     secret_key = ''dev-insecure-secret-change-me'',
     hmac_key = '''', operator_secret = '''', relay_secret = '''', endpoint_key = '''',
     kek = '''', kek_previous = '''', attestation_secret = '''',
     secrets_ttl_seconds = 3600, dispute_window_seconds = 86400,
     health_max_gpu_temp_c = 90, health_max_error_rate = 1 / 10,
     alert_queue_backlog = 100, alert_min_connected_providers = 1,
     peer_distribution_enabled = False,
     lease_seconds = 60, max_attempts = 3, poll_hold_seconds = 25, poll_tick_seconds = 1,
     connection_timeout_seconds = 30, agent_heartbeat_interval_seconds = 10,
     relay_allowed_origins = '''', relay_auth_failures_per_minute = 10,
     public_base_url = ''http://localhost:8000'',
     canary_rate = 5 / 100, min_provider_stake = 100, slash_amount = 50,
     high_value_min_reputation = 70, protocol_fee_bps = 250,
     base_job_price = 1, data_price_per_gb = 10 / 100,
     chain_enabled = False, chain_rpc_url = '''', chain_id = 11155111, escrow_address = '''',
     staking_address = '''', usdc_decimals = 6, chain_signer = ''local'', chain_kms_key_id = '''',
     coordinator_private_key = '''', expected_coordinator_address = '''', chain_confirmations = 3,
     chain_balance_cache_ttl_seconds = 5, chain_start_block = 0, chain_log_window = 500,
     settlement_threshold_usdc = 100, settlement_interval_seconds = 3600,
     rate_limit_per_minute = 120, max_request_bytes = 512 * 1024 * 1024,
     free_chat_rate_per_minute = 30, free_chat_concurrency = 4, free_chat_queue_depth = 32, free_images_per_day = 5 \<rparr>"

text \<open>\<open>timedelta(seconds=x)\<close> of a \<open>float\<close>, in microseconds.\<close>

definition timedelta_seconds :: "rat \<Rightarrow> instant" where
  "timedelta_seconds x = round_half_even (x * 1000000)"

text \<open>Each function's own secret, falling back to the legacy \<open>secret_key\<close> when it is empty.\<close>

definition or_str :: "string \<Rightarrow> string \<Rightarrow> string" where
  "or_str a b = (if a = [] then b else a)"

definition api_hmac_key :: "Settings \<Rightarrow> string" where
  "api_hmac_key s = or_str (hmac_key s) (secret_key s)"

definition operator_key :: "Settings \<Rightarrow> string" where
  "operator_key s = or_str (operator_secret s) (secret_key s)"

definition relay_key :: "Settings \<Rightarrow> string" where
  "relay_key s = or_str (relay_secret s) (secret_key s)"

definition endpoint_signing_key :: "Settings \<Rightarrow> string" where
  "endpoint_signing_key s = or_str (endpoint_key s) (secret_key s)"

text \<open>The bounds of the \<open>Field\<close> declarations.\<close>

definition field_bounds :: "Settings \<Rightarrow> bool" where
  "field_bounds s \<longleftrightarrow>
     30 \<le> siwe_nonce_ttl_seconds s \<and> siwe_nonce_ttl_seconds s \<le> 3600 \<and>
     300 \<le> session_ttl_seconds s \<and> 1 \<le> secrets_ttl_seconds s \<and> 1 \<le> dispute_window_seconds s \<and>
     0 \<le> health_max_error_rate s \<and> health_max_error_rate s \<le> 1 \<and>
     0 \<le> alert_queue_backlog s \<and> 0 \<le> alert_min_connected_providers s \<and>
     5 \<le> lease_seconds s \<and> 1 \<le> max_attempts s \<and> 0 \<le> poll_hold_seconds s \<and> 0 < poll_tick_seconds s \<and>
     1 \<le> relay_auth_failures_per_minute s \<and>
     1 \<le> connection_timeout_seconds s \<and> 1 \<le> agent_heartbeat_interval_seconds s \<and>
     0 \<le> canary_rate s \<and> canary_rate s \<le> 1 \<and> 0 \<le> min_provider_stake s \<and> 0 \<le> slash_amount s \<and>
     0 \<le> high_value_min_reputation s \<and> 0 \<le> protocol_fee_bps s \<and> protocol_fee_bps s \<le> 10000 \<and>
     0 \<le> base_job_price s \<and> 0 \<le> data_price_per_gb s \<and> usdc_decimals s \<le> 36 \<and>
     1 \<le> chain_confirmations s \<and> 0 \<le> chain_balance_cache_ttl_seconds s \<and>
     0 \<le> chain_start_block s \<and> 1 \<le> chain_log_window s \<and>
     0 \<le> settlement_threshold_usdc s \<and> 0 < settlement_interval_seconds s \<and>
     1 \<le> rate_limit_per_minute s \<and> 1024 \<le> max_request_bytes s \<and> 1 \<le> free_chat_rate_per_minute s \<and>
     1 \<le> free_chat_concurrency s \<and> 0 \<le> free_chat_queue_depth s \<and> 0 \<le> free_images_per_day s"

text \<open>The process refuses to start when the reaper could reclaim a live job between heartbeats:
  \<open>validate_liveness_window\<close> is the validator's test, \<open>True\<close> when it does not raise.\<close>

definition validate_liveness_window :: "Settings \<Rightarrow> bool" where
  "validate_liveness_window s \<longleftrightarrow>
     \<not> connection_timeout_seconds s \<le> 2 * agent_heartbeat_interval_seconds s"

definition valid_settings :: "Settings \<Rightarrow> bool" where
  "valid_settings s \<longleftrightarrow> field_bounds s \<and> validate_liveness_window s"

lemma valid_settings_fee:
  "valid_settings s \<Longrightarrow> 0 \<le> protocol_fee_bps s"
  "valid_settings s \<Longrightarrow> protocol_fee_bps s \<le> 10000"
  unfolding valid_settings_def field_bounds_def by blast+

lemma valid_settings_prices:
  "valid_settings s \<Longrightarrow> 0 \<le> base_job_price s"
  "valid_settings s \<Longrightarrow> 0 \<le> data_price_per_gb s"
  "valid_settings s \<Longrightarrow> 0 \<le> slash_amount s"
  unfolding valid_settings_def field_bounds_def by blast+

lemma default_settings_valid: "valid_settings default_settings"
  by (simp add: valid_settings_def field_bounds_def validate_liveness_window_def default_settings_def)

end
