(* ===== verification/Disputes.thy ===== *)
theory Disputes
  imports Payments Quorum Stdlib Config
begin

text \<open>
  Slashing governance: \<open>api/app/disputes.py\<close>, \<open>penalties.py\<close>, \<open>fraud_proof.py\<close>, \<open>adjudicate.py\<close> and the
  endpoints of \<open>routes/disputes.py\<close>.  A slash moves stake into the \<open>disputed\<close> account and opens a
  dispute; a ruling burns or returns it.

  \<open>held_ok\<close> is the component's invariant: for every provider, the \<open>disputed\<close> balance equals the sum of
  the amounts of its unresolved disputes.  Opening, contesting and ruling keep it, and keep every
  stake balance non-negative.
\<close>

section \<open>penalties.py and fraud\_proof.py\<close>

definition MAX_MULTIPLIER :: int where
  "MAX_MULTIPLIER = 8"

definition count_prior_offenses :: "uuid \<Rightarrow> db \<Rightarrow> nat" where
  "count_prior_offenses provider_id d =
     length (filter (\<lambda>x. dp_provider_id x = provider_id \<and> dp_state x = ds_upheld) (disputes d))"

definition graduated_slash :: "money \<Rightarrow> nat \<Rightarrow> money" where
  "graduated_slash base prior_upheld = base * of_int (min (2 ^ prior_upheld) MAX_MULTIPLIER)"

definition canonical_evidence :: "jdict \<Rightarrow> string" where
  "canonical_evidence evidence = dumps (JObj evidence)"

definition evidence_commitment :: "jdict \<Rightarrow> string" where
  "evidence_commitment evidence = sha256 (canonical_evidence evidence)"

section \<open>disputes.py\<close>

definition open_dispute ::
    "instant \<Rightarrow> uuid \<Rightarrow> money \<Rightarrow> string \<Rightarrow> Settings \<Rightarrow> uuid option \<Rightarrow> jdict option \<Rightarrow> db \<Rightarrow> err + (Dispute \<times> db)" where
  "open_dispute now provider_id amount reason settings job_id evidence d =
     (let current = provider_stake provider_id d; held = min amount current in
      bindE (if held > 0
             then bindE (post_transaction now
                           [Dr la_stake held (Some provider_id), Cr la_disputed held (Some provider_id)]
                           ''slash_hold'' job_id None d)
                    (\<lambda>(_, d). Inr d)
             else Inr d)
        (\<lambda>d. let dispute = \<lparr> dp_id = next_id d, dp_provider_id = provider_id, dp_job_id = job_id,
                    dp_amount = held, dp_state = ds_open, dp_reason = reason, dp_evidence = evidence,
                    dp_evidence_hash = map_option evidence_commitment evidence,
                    dp_ruling_reason = None,
                    dp_window_expires_at = Some (now + seconds (dispute_window_seconds settings)),
                    dp_created_at = now, dp_resolved_at = None \<rparr>
             in Inr (dispute, d\<lparr>disputes := disputes d @ [dispute], next_id := Suc (next_id d)\<rparr>)))"

definition window_open :: "instant \<Rightarrow> Dispute \<Rightarrow> bool" where
  "window_open now dispute =
     (case dp_window_expires_at dispute of None \<Rightarrow> False | Some expires \<Rightarrow> now < expires)"

definition contest_dispute :: "instant \<Rightarrow> Dispute \<Rightarrow> db \<Rightarrow> bool \<times> db" where
  "contest_dispute now dispute d =
     (if dp_state dispute \<noteq> ds_open \<or> \<not> window_open now dispute then (False, d)
      else (True, put_dispute (dispute\<lparr>dp_state := ds_under_review\<rparr>) d))"

definition or_reason :: "string \<Rightarrow> string option \<Rightarrow> string option" where
  "or_reason s r = (if s = [] then r else Some s)"

definition resolve_dispute :: "instant \<Rightarrow> Dispute \<Rightarrow> bool \<Rightarrow> string \<Rightarrow> db \<Rightarrow> err + db" where
  "resolve_dispute now dispute upheld ruling_reason d =
     (if dp_state dispute = ds_upheld \<or> dp_state dispute = ds_overturned then Inr d
      else
        (let amount = dp_amount dispute in
         bindE (if amount > 0
                then
                  (let credit = (if upheld then la_protocol else la_stake);
                       ref = (if upheld then None else Some (dp_provider_id dispute))
                   in bindE (post_transaction now
                               [Dr la_disputed amount (Some (dp_provider_id dispute)), Cr credit amount ref]
                               (if upheld then ''slash_confirmed'' else ''slash_reversed'')
                               (dp_job_id dispute) None d)
                        (\<lambda>(_, d). Inr d))
                else Inr d)
           (\<lambda>d. Inr (put_dispute (dispute\<lparr>dp_state := (if upheld then ds_upheld else ds_overturned),
                                          dp_ruling_reason := or_reason ruling_reason (dp_ruling_reason dispute),
                                          dp_resolved_at := Some now\<rparr>) d))))"

section \<open>adjudicate.py\<close>

text \<open>The hash values of the successful votes in the evidence.  Malformed evidence raises.\<close>

fun vote_hashes :: "json list \<Rightarrow> err + json list" where
  "vote_hashes [] = Inr []"
| "vote_hashes (JObj v # vs) =
     bindE (vote_hashes vs) (\<lambda>hs.
       if truthy (jget v ''succeeded'') \<and> truthy (jget v ''output_hash'')
       then Inr (jnorm (jget v ''output_hash'') # hs) else Inr hs)"
| "vote_hashes (_ # vs) = Inl TypeError"

definition known_good :: "jdict \<Rightarrow> err + json option" where
  "known_good evidence =
     (if truthy (jget evidence ''expected_output_hash'')
      then Inr (Some (jnorm (jget evidence ''expected_output_hash'')))
      else
        (case jget evidence ''quorum_votes'' of
           JList votes \<Rightarrow>
             bindE (vote_hashes votes) (\<lambda>hashes.
               if hashes = [] then Inr None
               else if \<not> list_all hashable hashes then Inl TypeError
               else
                 (let (winner, count) = most_common1 hashes
                  in Inr (if int count \<ge> int (length votes) div 2 + 1 then Some winner else None)))
         | v \<Rightarrow> if truthy v then Inl TypeError else Inr None))"

text \<open>Returns the terminal state, or \<open>None\<close> when it escalated.\<close>

definition auto_adjudicate :: "instant \<Rightarrow> Dispute \<Rightarrow> db \<Rightarrow> err + (DisputeState option \<times> db)" where
  "auto_adjudicate now dispute d =
     (let evidence = or_empty (dp_evidence dispute);
          submitted = jget evidence ''submitted_output_hash''
      in bindE (known_good evidence) (\<lambda>expected.
         case expected of
           None \<Rightarrow> Inr (None, put_dispute (dispute\<lparr>dp_state := ds_under_review\<rparr>) d)
         | Some h \<Rightarrow>
             if submitted = JNull
             then Inr (None, put_dispute (dispute\<lparr>dp_state := ds_under_review\<rparr>) d)
             else if jnorm submitted = h
             then bindE (resolve_dispute now dispute False ''auto: matches known-good output'' d)
                    (\<lambda>d. Inr (Some ds_overturned, d))
             else bindE (resolve_dispute now dispute True ''auto: differs from known-good output'' d)
                    (\<lambda>d. Inr (Some ds_upheld, d))))"

text \<open>The output hash of an attempt's proof, \<open>(a.proof or {}).get("output_sha256")\<close>, with \<open>None\<close> for an
  absent or null value.\<close>

definition output_hash_of :: "JobAttempt \<Rightarrow> json option" where
  "output_hash_of a =
     (case jget (or_empty (at_proof a)) ''output_sha256'' of JNull \<Rightarrow> None | v \<Rightarrow> Some v)"

definition attempt_result :: "JobAttempt \<Rightarrow> json AttemptResult" where
  "attempt_result a = \<lparr> ar_provider_id = at_provider_id a, ar_output_hash = output_hash_of a,
                        ar_succeeded = (at_outcome a = ao_completed) \<rparr>"

text \<open>Counting the votes hashes and compares the values; a list or dictionary there raises.\<close>

definition norm_result :: "json AttemptResult \<Rightarrow> json AttemptResult" where
  "norm_result r = r\<lparr>ar_output_hash := map_option jnorm (ar_output_hash r)\<rparr>"

definition quorum_of :: "json AttemptResult list \<Rightarrow> int \<Rightarrow> err + json QuorumOutcome" where
  "quorum_of results redundancy =
     (if list_all hashable (usable_hashes results)
      then Inr (evaluate_quorum (map norm_result results) redundancy)
      else Inl TypeError)"

text \<open>\<open>winning_hash[:12]\<close> of a string; any other value is not subscriptable.\<close>

fun hash_prefix :: "json option \<Rightarrow> err + string" where
  "hash_prefix (Some (JStr s)) = Inr (take 12 s)"
| "hash_prefix _ = Inl TypeError"

definition quorum_revote :: "instant \<Rightarrow> Dispute \<Rightarrow> db \<Rightarrow> err + (DisputeState option \<times> db)" where
  "quorum_revote now dispute d =
     (case dp_job_id dispute of
        None \<Rightarrow> Inr (None, put_dispute (dispute\<lparr>dp_state := ds_under_review\<rparr>) d)
      | Some jid \<Rightarrow>
          (let attempts = filter (\<lambda>a. at_job_id a = jid) (job_attempts d);
               results = map attempt_result attempts;
               k = (case get_job jid d of None \<Rightarrow> int (length results) | Some job \<Rightarrow> j_redundancy job)
           in bindE (quorum_of results k) (\<lambda>outcome.
              if \<not> qo_reached outcome
              then Inr (None, put_dispute (dispute\<lparr>dp_state := ds_under_review\<rparr>) d)
              else
                (let submitted =
                       (case find (\<lambda>a. at_provider_id a = Some (dp_provider_id dispute)) attempts of
                          None \<Rightarrow> None | Some a \<Rightarrow> map_option jnorm (output_hash_of a));
                     upheld = (submitted \<noteq> qo_winning_hash outcome)
                 in bindE (hash_prefix (qo_winning_hash outcome)) (\<lambda>prefix.
                    bindE (resolve_dispute now dispute upheld (''revote: majority='' @ prefix) d) (\<lambda>d.
                    Inr (Some (if upheld then ds_upheld else ds_overturned), d)))))))"

section \<open>routes/disputes.py\<close>

definition owned_dispute :: "uuid \<Rightarrow> uuid \<Rightarrow> db \<Rightarrow> err + Dispute" where
  "owned_dispute provider_id dispute_id d =
     (case get_dispute dispute_id d of
        None \<Rightarrow> Inl (HTTPException 404 ''Dispute not found.'')
      | Some x \<Rightarrow> if dp_provider_id x \<noteq> provider_id then Inl (HTTPException 404 ''Dispute not found.'')
                  else Inr x)"

definition my_disputes :: "uuid \<Rightarrow> db \<Rightarrow> Dispute list" where
  "my_disputes provider_id d =
     rev (sort_key dp_created_at (rev (filter (\<lambda>x. dp_provider_id x = provider_id) (disputes d))))"

definition review_queue :: "db \<Rightarrow> Dispute list" where
  "review_queue d = sort_key dp_created_at (filter (\<lambda>x. dp_state x = ds_under_review) (disputes d))"

definition contest :: "instant \<Rightarrow> uuid \<Rightarrow> uuid \<Rightarrow> db \<Rightarrow> err + db" where
  "contest now provider_id dispute_id d =
     bindE (owned_dispute provider_id dispute_id d) (\<lambda>dispute.
       if dp_state dispute \<noteq> ds_open then Inl (HTTPException 409 ''Dispute is no longer open.'')
       else
         (let (ok, d) = contest_dispute now dispute d
          in if ok then Inr d else Inl (HTTPException 409 ''Dispute contest window has closed.'')))"

definition rule_on_dispute :: "instant \<Rightarrow> uuid \<Rightarrow> bool \<Rightarrow> string \<Rightarrow> db \<Rightarrow> err + db" where
  "rule_on_dispute now dispute_id upheld reason d =
     (case get_dispute dispute_id d of
        None \<Rightarrow> Inl (HTTPException 404 ''Dispute not found.'')
      | Some dispute \<Rightarrow>
          if dp_state dispute = ds_upheld \<or> dp_state dispute = ds_overturned
          then Inl (HTTPException 409 ''Dispute already resolved.'')
          else resolve_dispute now dispute upheld reason d)"

section \<open>The penalty schedule\<close>

lemma graduated_slash_bounds:
  assumes "0 \<le> base"
  shows "base \<le> graduated_slash base n" "graduated_slash base n \<le> 8 * base"
    "n \<le> m \<Longrightarrow> graduated_slash base n \<le> graduated_slash base m"
proof -
  have one: "(1::int) \<le> min (2 ^ n) MAX_MULTIPLIER" by (simp add: MAX_MULTIPLIER_def)
  then have "(1::rat) \<le> of_int (min (2 ^ n) MAX_MULTIPLIER)" by (simp only: of_int_1_le_iff)
  then show "base \<le> graduated_slash base n"
    unfolding graduated_slash_def using assms mult_left_mono [of 1 _ base] by fastforce
  have "min (2 ^ n) MAX_MULTIPLIER \<le> (8::int)" by (simp add: MAX_MULTIPLIER_def)
  then have "(of_int (min (2 ^ n) MAX_MULTIPLIER) :: rat) \<le> of_int 8" by (simp only: of_int_le_iff)
  from mult_right_mono [OF this assms] show "graduated_slash base n \<le> 8 * base"
    unfolding graduated_slash_def by (simp add: mult.commute)
  assume "n \<le> m"
  then have "(2::int) ^ n \<le> 2 ^ m" by (intro power_increasing) auto
  then have "min (2 ^ n) MAX_MULTIPLIER \<le> min (2 ^ m) MAX_MULTIPLIER" by linarith
  then have "(of_int (min (2 ^ n) MAX_MULTIPLIER) :: rat) \<le> of_int (min (2 ^ m) MAX_MULTIPLIER)"
    by (simp only: of_int_le_iff)
  then show "graduated_slash base n \<le> graduated_slash base m"
    unfolding graduated_slash_def using assms by (intro mult_left_mono)
qed

section \<open>Held stake\<close>

definition resolved :: "Dispute \<Rightarrow> bool" where
  "resolved x \<longleftrightarrow> dp_state x = ds_upheld \<or> dp_state x = ds_overturned"

definition held_of :: "uuid \<Rightarrow> Dispute \<Rightarrow> money" where
  "held_of pid x = (if dp_provider_id x = pid \<and> \<not> resolved x then dp_amount x else 0)"

text \<open>What a provider's unresolved disputes hold.\<close>

definition held_sum :: "uuid \<Rightarrow> db \<Rightarrow> money" where
  "held_sum pid d = sum_list (map (held_of pid) (disputes d))"

definition held_ok :: "db \<Rightarrow> bool" where
  "held_ok d \<longleftrightarrow> distinct (map dp_id (disputes d))
     \<and> (\<forall>x \<in> set (disputes d). dp_id x < next_id d \<and> 0 \<le> dp_amount x)
     \<and> (\<forall>pid. account_balance la_disputed (Some pid) d = held_sum pid d)
     \<and> (\<forall>pid. 0 \<le> provider_stake pid d)"

lemma held_ok_cong:
  assumes "held_ok d" "disputes d' = disputes d" "next_id d \<le> next_id d'"
    and "\<And>pid. account_balance la_disputed (Some pid) d' = account_balance la_disputed (Some pid) d"
    and "\<And>pid. account_balance la_stake (Some pid) d' = account_balance la_stake (Some pid) d"
  shows "held_ok d'"
  using assms by (fastforce simp: held_ok_def held_sum_def provider_stake_def)

lemma held_ok_same_ledger:
  "held_ok d \<Longrightarrow> disputes d' = disputes d \<Longrightarrow> next_id d \<le> next_id d' \<Longrightarrow> ledger_entries d' = ledger_entries d
   \<Longrightarrow> held_ok d'"
  by (rule held_ok_cong) (simp_all add: balance_cong [of d' d])

lemma held_ok_get: "held_ok d \<Longrightarrow> get_dispute k d = Some x \<Longrightarrow> 0 \<le> dp_amount x \<and> dp_id x = k"
  by (auto simp: held_ok_def get_dispute_def dest!: tget_SomeD)

lemma disputed_nonneg: "held_ok d \<Longrightarrow> 0 \<le> account_balance la_disputed (Some pid) d"
proof -
  assume "held_ok d"
  then have "0 \<le> sum_list (map (held_of pid) (disputes d))"
    by (intro sum_list_nonneg) (auto simp: held_ok_def held_of_def)
  with \<open>held_ok d\<close> show ?thesis by (simp add: held_ok_def held_sum_def)
qed

lemma put_dispute_sel [simp]:
  "disputes (put_dispute x d) = tput dp_id x (disputes d)"
  "ledger_entries (put_dispute x d) = ledger_entries d" "next_id (put_dispute x d) = next_id d"
  "jobs (put_dispute x d) = jobs d" "job_attempts (put_dispute x d) = job_attempts d"
  "providers (put_dispute x d) = providers d" "reputation_events (put_dispute x d) = reputation_events d"
  by (simp_all add: put_dispute_def)

text \<open>Writing back a dispute, together with a ledger movement that accounts for its change.\<close>

lemma put_dispute_held:
  assumes ok: "held_ok d" and x: "get_dispute (dp_id x) d = Some prev" "0 \<le> dp_amount x"
    and e: "disputes e = disputes d" "next_id d \<le> next_id e"
    and bal: "\<And>pid. account_balance la_disputed (Some pid) e
               = account_balance la_disputed (Some pid) d - held_of pid prev + held_of pid x"
    and stake: "\<And>pid. 0 \<le> provider_stake pid e"
  shows "held_ok (put_dispute x e)"
proof -
  have "held_sum pid (put_dispute x e) = held_sum pid d - held_of pid prev + held_of pid x" for pid
    using ok x(1) e(1) sum_list_tput [of dp_id "disputes d" x prev "held_of pid"]
    by (simp add: held_sum_def held_ok_def get_dispute_def)
  moreover have "account_balance acc ref (put_dispute x e) = account_balance acc ref e" for acc ref
    by (rule balance_cong) simp
  moreover have "\<forall>y \<in> set (tput dp_id x (disputes d)). dp_id y < next_id e \<and> 0 \<le> dp_amount y"
    using ok x e tget_SomeD [of dp_id "dp_id x" "disputes d" prev]
    by (intro tput_ball) (fastforce simp: held_ok_def get_dispute_def)+
  ultimately show ?thesis
    using ok e bal stake by (simp add: held_ok_def provider_stake_def)
qed

lemma open_dispute_cases:
  "open_dispute now pid amount reason s jid ev d = Inr (x, d') \<Longrightarrow>
     \<exists>e. (if 0 < min amount (provider_stake pid d)
          then \<exists>grp. post_transaction now
                 [Dr la_stake (min amount (provider_stake pid d)) (Some pid),
                  Cr la_disputed (min amount (provider_stake pid d)) (Some pid)] ''slash_hold'' jid None d = Inr (grp, e)
          else e = d)
       \<and> dp_id x = next_id e \<and> dp_provider_id x = pid \<and> dp_amount x = min amount (provider_stake pid d)
       \<and> dp_state x = ds_open \<and> dp_job_id x = jid \<and> dp_reason x = reason
       \<and> d' = e\<lparr>disputes := disputes e @ [x], next_id := Suc (next_id e)\<rparr>"
  by (auto simp: open_dispute_def Let_def split: if_splits elim!: bindE_InrE)

lemma open_dispute_total: "\<exists>x d'. open_dispute now pid amount reason s jid ev d = Inr (x, d')"
proof (cases "0 < min amount (provider_stake pid d)")
  case True
  then have "postable [Dr la_stake (min amount (provider_stake pid d)) (Some pid),
                       Cr la_disputed (min amount (provider_stake pid d)) (Some pid)]"
    by (subst two_leg_postable) linarith
  from post_transaction_ex [OF this, of now "''slash_hold''" jid None d] obtain e grp where
    "post_transaction now [Dr la_stake (min amount (provider_stake pid d)) (Some pid),
       Cr la_disputed (min amount (provider_stake pid d)) (Some pid)] ''slash_hold'' jid None d = Inr (grp, e)"
    by blast
  with True show ?thesis by (simp add: open_dispute_def Let_def)
next
  case False
  then show ?thesis by (simp add: open_dispute_def Let_def del: min_less_iff_conj)
qed

lemma open_dispute_Inr:
  assumes "open_dispute now pid amount reason s jid ev d = Inr (x, d')"
  shows "account_balance acc ref d' = account_balance acc ref d
      + effect acc ref [Dr la_stake (max 0 (min amount (provider_stake pid d))) (Some pid),
                        Cr la_disputed (max 0 (min amount (provider_stake pid d))) (Some pid)]"
    and "disputes d' = disputes d @ [x]" "dp_state x = ds_open" "dp_provider_id x = pid"
    "dp_amount x = min amount (provider_stake pid d)" "next_id d \<le> dp_id x" "next_id d' = Suc (dp_id x)"
    "ledger_ok d \<Longrightarrow> ledger_ok d'" "dp_reason x = reason"
    "jobs d' = jobs d" "job_attempts d' = job_attempts d" "providers d' = providers d"
    "reputation_events d' = reputation_events d" "bandwidth_events d' = bandwidth_events d"
    "developers d' = developers d"
proof -
  let ?h = "min amount (provider_stake pid d)"
  from open_dispute_cases [OF assms] obtain e where
    e: "if 0 < ?h then \<exists>grp. post_transaction now [Dr la_stake ?h (Some pid), Cr la_disputed ?h (Some pid)]
           ''slash_hold'' jid None d = Inr (grp, e) else e = d"
    and x: "dp_id x = next_id e" "dp_provider_id x = pid" "dp_amount x = ?h" "dp_state x = ds_open" "dp_reason x = reason"
    and d': "d' = e\<lparr>disputes := disputes e @ [x], next_id := Suc (next_id e)\<rparr>"
    by auto
  have only: "ledger_only d e" using e by (auto split: if_splits intro: post_ledger_only)
  have "account_balance acc ref e = account_balance acc ref d
      + effect acc ref [Dr la_stake (max 0 ?h) (Some pid), Cr la_disputed (max 0 ?h) (Some pid)]"
  proof (cases "0 < ?h")
    case True
    with e obtain grp where "post_transaction now [Dr la_stake ?h (Some pid), Cr la_disputed ?h (Some pid)]
           ''slash_hold'' jid None d = Inr (grp, e)" by auto
    from post_transaction_balance [OF this, of acc ref] True show ?thesis
      by (simp only: max_absorb2 less_imp_le)
  next
    case False
    then have "max 0 ?h = 0" by linarith
    with False e show ?thesis by (simp only: if_False zero_effect add_0_right)
  qed
  moreover have "account_balance acc ref d' = account_balance acc ref e"
    by (rule balance_cong) (simp add: d')
  ultimately show "account_balance acc ref d' = account_balance acc ref d
      + effect acc ref [Dr la_stake (max 0 ?h) (Some pid), Cr la_disputed (max 0 ?h) (Some pid)]" by simp
  have "ledger_ok e \<Longrightarrow> ledger_ok d'" by (rule ledger_ok_cong [of d' e]) (simp_all add: d')
  then show "ledger_ok d \<Longrightarrow> ledger_ok d'" using ledger_onlyD(1) [OF only] by blast
qed (insert open_dispute_cases [OF assms], auto split: if_splits dest!: post_ledger_only dest: ledger_onlyD)

lemma open_dispute_job_balance:
  assumes "open_dispute now pid amount reason s jid ev d = Inr (x, d')" "acc \<noteq> la_stake" "acc \<noteq> la_disputed"
  shows "job_balance acc k d' = job_balance acc k d"
proof -
  from open_dispute_cases [OF assms(1)] obtain e where
    e: "if 0 < min amount (provider_stake pid d)
          then \<exists>grp. post_transaction now
                 [Dr la_stake (min amount (provider_stake pid d)) (Some pid),
                  Cr la_disputed (min amount (provider_stake pid d)) (Some pid)] ''slash_hold'' jid None d = Inr (grp, e)
          else e = d" and "d' = e\<lparr>disputes := disputes e @ [x], next_id := Suc (next_id e)\<rparr>" by blast
  then have "job_balance acc k d' = job_balance acc k e" by (intro job_balance_cong) simp
  also have "\<dots> = job_balance acc k d"
  proof (cases "0 < min amount (provider_stake pid d)")
    case True
    with e obtain grp where "post_transaction now
                 [Dr la_stake (min amount (provider_stake pid d)) (Some pid),
                  Cr la_disputed (min amount (provider_stake pid d)) (Some pid)] ''slash_hold'' jid None d = Inr (grp, e)"
      by auto
    from post_transaction_job_balance [OF this, of acc k] assms(2,3) show ?thesis by simp
  next
    case False
    with e show ?thesis by (simp only: if_False)
  qed
  finally show ?thesis .
qed

lemma open_dispute_held:
  assumes op: "open_dispute now pid amount reason s jid ev d = Inr (x, d')" and ok: "held_ok d" and a: "0 \<le> amount"
  shows "held_ok d'"
proof -
  note * = open_dispute_Inr [OF op]
  define h where "h = min amount (provider_stake pid d)"
  have h: "0 \<le> h" "h \<le> provider_stake pid d" using ok a by (auto simp: h_def held_ok_def)
  have bal: "account_balance acc ref d' = account_balance acc ref d
      + effect acc ref [Dr la_stake h (Some pid), Cr la_disputed h (Some pid)]" for acc ref
    using *(1) h by (simp only: h_def [symmetric] max_absorb2)
  have "held_sum q d' = held_sum q d + (if q = pid then h else 0)" for q
    using * by (simp add: held_sum_def held_of_def resolved_def h_def)
  moreover have "distinct (map dp_id (disputes d'))"
    using ok * by (fastforce simp: held_ok_def)
  moreover have "\<forall>y \<in> set (disputes d'). dp_id y < next_id d' \<and> 0 \<le> dp_amount y"
    using ok * h by (fastforce simp: held_ok_def h_def)
  moreover have "0 \<le> provider_stake q d'" for q
    using ok h bal by (auto simp: held_ok_def provider_stake_def)
  ultimately show ?thesis using ok bal by (simp add: held_ok_def)
qed

lemma contest_dispute_held:
  assumes "held_ok d" "get_dispute (dp_id x) d = Some x"
  shows "held_ok (snd (contest_dispute now x d))"
proof (cases "dp_state x \<noteq> ds_open \<or> \<not> window_open now x")
  case True
  then show ?thesis using assms by (auto simp: contest_dispute_def)
next
  case False
  then have "held_ok (put_dispute (x\<lparr>dp_state := ds_under_review\<rparr>) d)"
    using assms held_ok_get [OF assms]
    by (intro put_dispute_held [where prev = x]) (auto simp: held_of_def resolved_def held_ok_def)
  with False show ?thesis by (simp add: contest_dispute_def)
qed

lemma resolve_dispute_cases:
  assumes "resolve_dispute now x up r d = Inr d'"
  shows "(resolved x \<and> d' = d) \<or> (\<not> resolved x \<and> (\<exists>e.
      (if 0 < dp_amount x
       then \<exists>grp reason. post_transaction now [Dr la_disputed (dp_amount x) (Some (dp_provider_id x)),
              Cr (if up then la_protocol else la_stake) (dp_amount x) (if up then None else Some (dp_provider_id x))]
              reason (dp_job_id x) None d = Inr (grp, e)
       else e = d)
      \<and> d' = put_dispute (x\<lparr>dp_state := (if up then ds_upheld else ds_overturned),
                            dp_ruling_reason := or_reason r (dp_ruling_reason x), dp_resolved_at := Some now\<rparr>) e))"
  using assms unfolding resolve_dispute_def Let_def resolved_def
  by (auto split: if_splits elim!: bindE_InrE)

lemma resolve_dispute_Inr:
  assumes "resolve_dispute now x up r d = Inr d'" "\<not> resolved x"
  shows "account_balance acc ref d' = account_balance acc ref d
     + effect acc ref [Dr la_disputed (max 0 (dp_amount x)) (Some (dp_provider_id x)),
         Cr (if up then la_protocol else la_stake) (max 0 (dp_amount x)) (if up then None else Some (dp_provider_id x))]"
    and "ledger_ok d \<Longrightarrow> ledger_ok d'"
    and "\<exists>e. ledger_only d e \<and> d' = put_dispute (x\<lparr>dp_state := (if up then ds_upheld else ds_overturned),
                dp_ruling_reason := or_reason r (dp_ruling_reason x), dp_resolved_at := Some now\<rparr>) e"
proof -
  let ?a = "dp_amount x" and ?p = "Some (dp_provider_id x)"
  let ?ps = "\<lambda>a. [Dr la_disputed a ?p, Cr (if up then la_protocol else la_stake) a (if up then None else ?p)]"
  let ?x = "x\<lparr>dp_state := (if up then ds_upheld else ds_overturned),
                dp_ruling_reason := or_reason r (dp_ruling_reason x), dp_resolved_at := Some now\<rparr>"
  obtain e where e: "if 0 < ?a then \<exists>grp reason. post_transaction now (?ps ?a) reason (dp_job_id x) None d = Inr (grp, e)
                     else e = d" and d': "d' = put_dispute ?x e"
    using resolve_dispute_cases [OF assms(1)] assms(2) by blast
  have only: "ledger_only d e" using e by (auto split: if_splits intro: post_ledger_only)
  have "account_balance acc ref e = account_balance acc ref d + effect acc ref (?ps (max 0 ?a))"
  proof (cases "0 < ?a")
    case True
    with e obtain grp reason where "post_transaction now (?ps ?a) reason (dp_job_id x) None d = Inr (grp, e)" by auto
    from post_transaction_balance [OF this, of acc ref] True show ?thesis by (simp only: max_absorb2 less_imp_le)
  next
    case False
    then have "max 0 ?a = 0" by linarith
    with False e show ?thesis by (simp only: if_False zero_effect add_0_right)
  qed
  moreover have "account_balance acc ref d' = account_balance acc ref e" by (rule balance_cong) (simp add: d')
  ultimately show "account_balance acc ref d' = account_balance acc ref d + effect acc ref (?ps (max 0 ?a))" by simp
  have "ledger_ok e \<Longrightarrow> ledger_ok d'" by (rule ledger_ok_cong [of d' e]) (simp_all add: d')
  then show "ledger_ok d \<Longrightarrow> ledger_ok d'" using ledger_onlyD(1) [OF only] by blast
  show "\<exists>e. ledger_only d e \<and> d' = put_dispute ?x e" using only d' by blast
qed

lemma resolve_dispute_total: "\<exists>d'. resolve_dispute now x up r d = Inr d'"
  by (auto simp: resolve_dispute_def Let_def bindE_Inr_iff split: if_splits intro!: post_transaction_ex)

lemma resolve_dispute_held:
  assumes res: "resolve_dispute now x up r d = Inr d'" and ok: "held_ok d" and x: "get_dispute (dp_id x) d = Some x"
  shows "held_ok d'"
proof (cases "resolved x")
  case True
  then show ?thesis using resolve_dispute_cases [OF res] ok by simp
next
  case False
  let ?x = "x\<lparr>dp_state := (if up then ds_upheld else ds_overturned),
                dp_ruling_reason := or_reason r (dp_ruling_reason x), dp_resolved_at := Some now\<rparr>"
  obtain e where e: "ledger_only d e" "d' = put_dispute ?x e"
    using resolve_dispute_Inr(3) [OF res False] by blast
  have a: "0 \<le> dp_amount x" using held_ok_get [OF ok x] by simp
  have bal: "account_balance acc ref e = account_balance acc ref d
     + effect acc ref [Dr la_disputed (dp_amount x) (Some (dp_provider_id x)),
         Cr (if up then la_protocol else la_stake) (dp_amount x) (if up then None else Some (dp_provider_id x))]" for acc ref
    using resolve_dispute_Inr(1) [OF res False, of acc ref] a balance_cong [of d' e acc ref] e(2)
    by (simp only: max_absorb2) simp
  show ?thesis unfolding e(2)
  proof (rule put_dispute_held [OF ok])
    show "get_dispute (dp_id ?x) d = Some x" "0 \<le> dp_amount ?x" using x a by simp_all
    show "disputes e = disputes d" "next_id d \<le> next_id e" using ledger_onlyD [OF e(1)] by simp_all
    show "account_balance la_disputed (Some pid) e
            = account_balance la_disputed (Some pid) d - held_of pid x + held_of pid ?x" for pid
      using False by (cases up) (auto simp: bal held_of_def resolved_def)
    show "0 \<le> provider_stake pid e" for pid
      using ok a by (cases up) (auto simp: bal held_ok_def provider_stake_def intro: add_nonneg_nonneg)
  qed
qed

section \<open>The endpoints\<close>

lemma contest_Inr:
  assumes "contest now pid k d = Inr d'"
  obtains x where "get_dispute k d = Some x" "dp_provider_id x = pid" "dp_state x = ds_open" "window_open now x"
    "d' = put_dispute (x\<lparr>dp_state := ds_under_review\<rparr>) d"
  using assms
  by (auto simp: contest_def owned_dispute_def contest_dispute_def split: option.splits if_splits elim!: bindE_InrE)

lemma rule_on_dispute_Inr:
  assumes "rule_on_dispute now k up r d = Inr d'"
  obtains x where "get_dispute k d = Some x" "\<not> resolved x" "resolve_dispute now x up r d = Inr d'"
  using assms by (auto simp: rule_on_dispute_def resolved_def split: option.splits if_splits)

lemma get_dispute_id: "get_dispute k d = Some x \<Longrightarrow> dp_id x = k"
  by (auto simp: get_dispute_def dest: tget_SomeD)

lemma contest_held: "contest now pid k d = Inr d' \<Longrightarrow> held_ok d \<Longrightarrow> held_ok d'"
proof (elim contest_Inr)
  fix x
  assume "held_ok d" "get_dispute k d = Some x" "dp_state x = ds_open" "window_open now x"
    "d' = put_dispute (x\<lparr>dp_state := ds_under_review\<rparr>) d"
  then show ?thesis
    using contest_dispute_held [of d x now] by (simp add: contest_dispute_def get_dispute_id)
qed

lemma rule_on_dispute_held: "rule_on_dispute now k up r d = Inr d' \<Longrightarrow> held_ok d \<Longrightarrow> held_ok d'"
  by (elim rule_on_dispute_Inr) (auto intro: resolve_dispute_held simp: get_dispute_id)

lemma contest_ledger_ok [ledger_pres]: "contest now pid k d = Inr d' \<Longrightarrow> ledger_ok d \<Longrightarrow> ledger_ok d'"
  by (elim contest_Inr, rule ledger_ok_cong [of d' d]) simp_all

lemma rule_on_dispute_ledger_ok [ledger_pres]: "rule_on_dispute now k up r d = Inr d' \<Longrightarrow> ledger_ok d \<Longrightarrow> ledger_ok d'"
  by (elim rule_on_dispute_Inr) (auto intro: resolve_dispute_Inr(2))

text \<open>Automatic adjudication keeps the invariant on an unresolved dispute.\<close>

lemma auto_adjudicate_held:
  assumes "auto_adjudicate now x d = Inr (st, d')" "held_ok d" "get_dispute (dp_id x) d = Some x" "\<not> resolved x"
  shows "held_ok d'"
proof -
  have under: "held_ok (put_dispute (x\<lparr>dp_state := ds_under_review\<rparr>) d)"
    using assms held_ok_get [OF assms(2,3)]
    by (intro put_dispute_held [where prev = x]) (auto simp: held_of_def resolved_def held_ok_def)
  show ?thesis
    using assms(1) under resolve_dispute_held [OF _ assms(2,3)]
    by (auto simp: auto_adjudicate_def Let_def split: option.splits if_splits elim!: bindE_InrE)
qed

end
