(* ===== verification/Reputation.thy ===== *)
theory Reputation
  imports Ledger
begin

text \<open>
  Provider reputation, \<open>api/app/reputation.py\<close>.  \<open>record_reputation\<close> clamps the score into
  \<open>[REP_MIN, REP_MAX]\<close>, writes the provider back and appends the event; it returns the mutated
  provider with the database.  (No caller passes \<open>meta\<close>.)  The deltas and scores are multiples of
  one half, which doubles represent exactly.  Lemmas: the score stays in range, and a provider's
  score is always the replay of its own events.
\<close>

definition REP_MIN :: rat where "REP_MIN = 0"
definition REP_MAX :: rat where "REP_MAX = 100"

fun DELTAS :: "ReputationKind \<Rightarrow> rat" where
  "DELTAS rk_job_success = 1"
| "DELTAS rk_job_failure = - 1"
| "DELTAS rk_timeout = - 2"
| "DELTAS rk_canary_pass = 2"
| "DELTAS rk_canary_fail = - 25"
| "DELTAS rk_quorum_agree = 3 / 2"
| "DELTAS rk_quorum_disagree = - 15"
| "DELTAS rk_dispute = - 5"
| "DELTAS rk_slash = 0"

definition clamp :: "rat \<Rightarrow> rat" where
  "clamp score = max REP_MIN (min REP_MAX score)"

definition record_reputation ::
    "instant \<Rightarrow> Provider \<Rightarrow> ReputationKind \<Rightarrow> uuid option \<Rightarrow> rat option \<Rightarrow> db \<Rightarrow> Provider \<times> db" where
  "record_reputation now provider kind job_id delta d =
     (let change = (case delta of None \<Rightarrow> DELTAS kind | Some x \<Rightarrow> x);
          provider = provider\<lparr>pr_reputation := clamp (pr_reputation provider + change)\<rparr>;
          event = \<lparr> re_id = next_id d, re_provider_id = pr_id provider, re_job_id = job_id,
                    re_kind = kind, re_delta = change, re_score_after = pr_reputation provider,
                    re_created_at = now \<rparr>
      in (provider,
          (put_provider provider d)\<lparr>reputation_events := reputation_events d @ [event],
                                    next_id := Suc (next_id d)\<rparr>))"

section \<open>Range\<close>

lemma clamp_range: "REP_MIN \<le> clamp x \<and> clamp x \<le> REP_MAX"
  by (simp add: clamp_def REP_MIN_def REP_MAX_def)

definition reputations_ok :: "db \<Rightarrow> bool" where
  "reputations_ok d \<longleftrightarrow> (\<forall>p \<in> set (providers d). REP_MIN \<le> pr_reputation p \<and> pr_reputation p \<le> REP_MAX)"

lemma record_reputation_sel [frame_simps]:
  assumes "record_reputation now p k jid dl d = (p', d')"
  shows "pr_id p' = pr_id p" "pr_reputation p' = clamp (pr_reputation p + (case dl of None \<Rightarrow> DELTAS k | Some x \<Rightarrow> x))"
    "providers d' = tput pr_id p' (providers d)"
    "ledger_entries d' = ledger_entries d" "jobs d' = jobs d" "job_attempts d' = job_attempts d"
    "disputes d' = disputes d" "developers d' = developers d" "bandwidth_events d' = bandwidth_events d"
    "next_id d' = Suc (next_id d)"
  using assms by (auto simp: record_reputation_def Let_def put_provider_def)

lemma record_reputation_ledger_ok [ledger_pres]:
  "record_reputation now p k jid dl d = (p', d') \<Longrightarrow> ledger_ok d \<Longrightarrow> ledger_ok d'"
  by (rule ledger_ok_cong) (simp_all add: record_reputation_sel)

lemma record_reputation_ok:
  assumes "record_reputation now p k jid dl d = (p', d')" "reputations_ok d"
  shows "reputations_ok d'"
  using assms clamp_range unfolding reputations_ok_def record_reputation_sel(3) [OF assms(1)]
  by (intro tput_ball) (auto simp: record_reputation_sel)

section \<open>The score is the replay of the events\<close>

definition INITIAL_REPUTATION :: rat where "INITIAL_REPUTATION = 50"

definition replay :: "ReputationEvent list \<Rightarrow> uuid \<Rightarrow> rat" where
  "replay es pid = foldl (\<lambda>s e. clamp (s + re_delta e)) INITIAL_REPUTATION (filter (\<lambda>e. re_provider_id e = pid) es)"

definition replay_ok :: "db \<Rightarrow> bool" where
  "replay_ok d \<longleftrightarrow> distinct (map pr_id (providers d))
     \<and> (\<forall>p \<in> set (providers d). pr_reputation p = replay (reputation_events d) (pr_id p))"

lemma record_reputation_replay:
  assumes r: "record_reputation now p k jid dl d = (p', d')" and ok: "replay_ok d"
    and p: "get_provider (pr_id p) d = Some p"
  shows "replay_ok d'"
proof -
  let ?c = "case dl of None \<Rightarrow> DELTAS k | Some x \<Rightarrow> x"
  obtain e where e: "reputation_events d' = reputation_events d @ [e]" "re_provider_id e = pr_id p" "re_delta e = ?c"
    using r by (auto simp: record_reputation_def Let_def put_provider_def)
  have old: "\<forall>q \<in> set (providers d). pr_reputation q = replay (reputation_events d) (pr_id q)"
    using ok by (simp add: replay_ok_def)
  have pin: "p \<in> set (providers d)" using p tget_SomeD by (fastforce simp: get_provider_def)
  have "pr_reputation q = replay (reputation_events d') (pr_id q)" if "q \<in> set (providers d')" for q
  proof (cases "pr_id q = pr_id p")
    case True
    then have "q = p'" using that r by (auto simp: record_reputation_sel(1,3) tput_def split: if_splits)
    then show ?thesis using old pin r e True by (simp add: replay_def record_reputation_sel)
  next
    case False
    then have "q \<in> set (providers d)"
      using that r by (auto simp: record_reputation_sel(1,3) tput_def split: if_splits)
    with False show ?thesis using old e by (simp add: replay_def)
  qed
  then show ?thesis using ok r by (simp add: replay_ok_def record_reputation_sel)
qed

end
