(* ===== verification/Verification.thy ===== *)
theory Verification
  imports Models
begin

text \<open>
  Result verification and canaries: \<open>api/app/verification.py\<close> and \<open>api/app/canary.py\<close>.  \<open>verify\<close> decides
  whether one submitted result is trusted; \<open>create_canary_job\<close> inserts the known-answer job.
\<close>

section \<open>verification.py\<close>

record AgentResultRequest =
  rq_result_ref :: "string option"
  rq_exit_code :: int
  rq_proof :: jdict
  rq_timed_out :: bool

text \<open>The characters of the pattern \<open>^[0-9a-f]{64}$\<close>, matched against the whole string.\<close>

definition hex_char :: "char \<Rightarrow> bool" where
  "hex_char c \<longleftrightarrow> c \<in> set ''0123456789abcdef''"

definition is_sha256_hex :: "json \<Rightarrow> bool" where
  "is_sha256_hex value = (case value of JStr s \<Rightarrow> length s = 64 \<and> list_all hex_char s | _ \<Rightarrow> False)"

record Verdict =
  vd_valid :: bool
  vd_reason :: string
  vd_is_canary :: bool
  vd_canary_passed :: "bool option"

text \<open>\<open>isinstance(exit_code, int)\<close> excluding \<open>bool\<close>.\<close>

definition proof_well_formed :: "AgentResultRequest \<Rightarrow> bool" where
  "proof_well_formed req =
     (case jget (rq_proof req) ''exit_code'' of
        JInt _ \<Rightarrow> rq_result_ref req = None \<or> is_sha256_hex (jget (rq_proof req) ''output_sha256'')
      | _ \<Rightarrow> False)"

definition verify :: "Job \<Rightarrow> AgentResultRequest \<Rightarrow> Verdict" where
  "verify job req =
     (let is_canary = (j_kind job = jk_canary);
          bad = (\<lambda>reason. \<lparr> vd_valid = False, vd_reason = reason, vd_is_canary = is_canary,
                           vd_canary_passed = (if is_canary then Some False else None) \<rparr>)
      in
      if \<not> proof_well_formed req then bad ''malformed_proof''
      else if rq_timed_out req then bad ''timeout''
      else if rq_exit_code req \<noteq> 0 then bad ''nonzero_exit''
      else if is_canary then
        (let claimed = jget (rq_proof req) ''output_sha256'';
             passed = (case j_expected_output_hash job of None \<Rightarrow> False | Some h \<Rightarrow> claimed = JStr h)
         in \<lparr> vd_valid = passed, vd_reason = (if passed then ''canary_pass'' else ''canary_fail''),
              vd_is_canary = True, vd_canary_passed = Some passed \<rparr>)
      else \<lparr> vd_valid = True, vd_reason = ''ok'', vd_is_canary = False, vd_canary_passed = None \<rparr>)"

lemma verify_valid_iff:
  "vd_valid (verify job req) \<longleftrightarrow>
     proof_well_formed req \<and> \<not> rq_timed_out req \<and> rq_exit_code req = 0
     \<and> (j_kind job = jk_canary \<longrightarrow>
          (\<exists>h. j_expected_output_hash job = Some h \<and> jget (rq_proof req) ''output_sha256'' = JStr h))"
  by (auto simp: verify_def Let_def split: option.splits)

lemma sha256_hex_string:
  "is_sha256_hex v \<Longrightarrow> \<exists>s. v = JStr s \<and> length s = 64 \<and> (\<forall>c \<in> set s. hex_char c)"
  by (auto simp: is_sha256_hex_def list_all_iff split: json.splits)

section \<open>canary.py\<close>

definition CANARY_IMAGE :: string where
  "CANARY_IMAGE = ''ghcr.io/gridix/canary:1''"

definition CANARY_EXPECTED_HASH :: string where
  "CANARY_EXPECTED_HASH = ''e3b0c44298fc1c149afbf4c8996fb92427ae41e4649b934ca495991b7852b855''"

definition SYSTEM_DEVELOPER_NAME :: string where
  "SYSTEM_DEVELOPER_NAME = ''__gridix_system__''"

definition SYSTEM_DEVELOPER_ID :: uuid where
  "SYSTEM_DEVELOPER_ID = 0xc0de"

definition system_developer :: "instant \<Rightarrow> db \<Rightarrow> Developer \<times> db" where
  "system_developer now d =
     (case tget dv_id SYSTEM_DEVELOPER_ID (developers d) of
        Some dev \<Rightarrow> (dev, d)
      | None \<Rightarrow>
          (let dev = \<lparr> dv_id = SYSTEM_DEVELOPER_ID, dv_name = SYSTEM_DEVELOPER_NAME,
                       dv_wallet_address = None, dv_created_at = now \<rparr>
           in (dev, d\<lparr>developers := developers d @ [dev]\<rparr>)))"

text \<open>\<open>queued_at\<close> is copied from \<open>created_at\<close> before the flush fills that default in, so the row is
  inserted with \<open>queued_at\<close> empty.\<close>

definition create_canary_job :: "instant \<Rightarrow> db \<Rightarrow> Job \<times> db" where
  "create_canary_job now d =
     (let (dev, d) = system_developer now d;
          job = \<lparr> j_id = next_id d, j_developer_id = dv_id dev, j_kind = jk_canary,
                  j_status = js_queued, j_image_ref = CANARY_IMAGE, j_input_ref = None,
                  j_result_ref = None,
                  j_resource_spec = \<lparr> rs_cpu_cores = Some 1, rs_memory_mb = Some 512,
                                      rs_gpu = None, rs_gpu_vram_mb = None \<rparr>,
                  j_args = None, j_allow_egress = False, j_timeout_seconds = 120,
                  j_exposed_port = None, j_data_tier = dt_public, j_wrapped_key = None,
                  j_is_high_value = False, j_redundancy = 1,
                  j_expected_output_hash = Some CANARY_EXPECTED_HASH, j_proof = None,
                  j_assigned_provider_id = None, j_attempt_count = 0, j_lease_expires_at = None,
                  j_escrow_amount = None, j_cost_final = None, j_idempotency_key = None,
                  j_created_at = now, j_queued_at = None, j_assigned_at = None,
                  j_started_at = None, j_finished_at = None \<rparr>
      in (job, d\<lparr>jobs := jobs d @ [job], next_id := Suc (next_id d)\<rparr>))"

definition is_canary :: "uuid \<Rightarrow> db \<Rightarrow> bool" where
  "is_canary job_id d \<longleftrightarrow> (case get_job job_id d of None \<Rightarrow> False | Some j \<Rightarrow> j_kind j = jk_canary)"

lemma create_canary_is_canary:
  assumes "\<forall>j \<in> set (jobs d). j_id j < next_id d" "create_canary_job now d = (job, d')"
  shows "is_canary (j_id job) d'"
proof -
  obtain dev e where sd: "system_developer now d = (dev, e)" by force
  then have e: "jobs e = jobs d" "next_id e = next_id d"
    by (auto simp: system_developer_def Let_def split: option.splits)
  have "tget j_id (next_id d) (jobs d) = None" using assms(1) by (fastforce simp: tget_None_iff)
  with assms(2) show ?thesis
    by (auto simp: create_canary_job_def sd Let_def e is_canary_def get_job_def tget_append)
qed

end
