(* ===== verification/Presence.thy ===== *)
theory Presence
  imports Models Config
begin

text \<open>
  Provider presence (\<open>api/app/presence.py\<close>) and bandwidth accounting (\<open>api/app/bandwidth.py\<close>).
\<close>

definition is_connected :: "Provider \<Rightarrow> instant \<Rightarrow> int \<Rightarrow> bool" where
  "is_connected provider now timeout_seconds =
     (case pr_last_seen provider of None \<Rightarrow> False | Some t \<Rightarrow> t > now - seconds timeout_seconds)"

definition mark_seen :: "Provider \<Rightarrow> instant \<Rightarrow> int \<Rightarrow> Provider" where
  "mark_seen provider now timeout_seconds =
     (let provider = (if \<not> is_connected provider now timeout_seconds
                      then provider\<lparr>pr_connected_at := Some now\<rparr> else provider)
      in provider\<lparr>pr_last_seen := Some now\<rparr>)"

lemma mark_seen_sel [simp]:
  "pr_id (mark_seen p now t) = pr_id p" "pr_reputation (mark_seen p now t) = pr_reputation p"
  "pr_last_seen (mark_seen p now t) = Some now" "pr_enabled (mark_seen p now t) = pr_enabled p"
  by (simp_all add: mark_seen_def Let_def)

lemma mark_seen_connected: "0 < t \<Longrightarrow> is_connected (mark_seen p now t) now t"
  by (simp add: is_connected_def seconds_def)

text \<open>The connection window is kept while the provider calls often enough, and reopened otherwise.\<close>

lemma mark_seen_window:
  "pr_connected_at (mark_seen p now t) = (if is_connected p now t then pr_connected_at p else Some now)"
  by (simp add: mark_seen_def Let_def)

section \<open>Bandwidth\<close>

definition record_bandwidth ::
    "instant \<Rightarrow> uuid \<Rightarrow> BandwidthDirection \<Rightarrow> int \<Rightarrow> uuid option \<Rightarrow> db \<Rightarrow> db" where
  "record_bandwidth now provider_id direction num_bytes job_id d =
     (if num_bytes \<le> 0 then d
      else d\<lparr>bandwidth_events := bandwidth_events d @
               [\<lparr> be_id = next_id d, be_provider_id = provider_id, be_job_id = job_id,
                  be_direction = direction, be_num_bytes = num_bytes, be_created_at = now \<rparr>],
             next_id := Suc (next_id d)\<rparr>)"

definition direction_total :: "uuid \<Rightarrow> instant option \<Rightarrow> BandwidthDirection \<Rightarrow> db \<Rightarrow> int" where
  "direction_total provider_id since dir d =
     sum_list (map be_num_bytes
       (filter (\<lambda>e. be_provider_id e = provider_id \<and> be_direction e = dir
                    \<and> (case since of None \<Rightarrow> True | Some t \<Rightarrow> be_created_at e \<ge> t)) (bandwidth_events d)))"

text \<open>The \<open>ingress\<close>, \<open>egress\<close> and \<open>total\<close> of a provider.\<close>

definition provider_bandwidth :: "uuid \<Rightarrow> instant option \<Rightarrow> db \<Rightarrow> int \<times> int \<times> int" where
  "provider_bandwidth provider_id since d =
     (let ingress = direction_total provider_id since bd_ingress d;
          egress = direction_total provider_id since bd_egress d
      in (ingress, egress, ingress + egress))"

definition job_bytes :: "uuid \<Rightarrow> db \<Rightarrow> int" where
  "job_bytes job_id d =
     sum_list (map be_num_bytes (filter (\<lambda>e. be_job_id e = Some job_id) (bandwidth_events d)))"

lemma record_bandwidth_job_bytes:
  "job_bytes j (record_bandwidth now p dir n jid d) = job_bytes j d + (if jid = Some j then max 0 n else 0)"
  by (simp add: job_bytes_def record_bandwidth_def)

lemma record_bandwidth_frame [simp]:
  "ledger_entries (record_bandwidth now p dir n jid d) = ledger_entries d"
  "jobs (record_bandwidth now p dir n jid d) = jobs d"
  "job_attempts (record_bandwidth now p dir n jid d) = job_attempts d"
  "providers (record_bandwidth now p dir n jid d) = providers d"
  "disputes (record_bandwidth now p dir n jid d) = disputes d"
  "reputation_events (record_bandwidth now p dir n jid d) = reputation_events d"
  "developers (record_bandwidth now p dir n jid d) = developers d"
  "next_id d \<le> next_id (record_bandwidth now p dir n jid d)"
  by (simp_all add: record_bandwidth_def)

end
