(* ===== verification/Pricing.thy ===== *)
theory Pricing
  imports Numerics Config Models
begin

text \<open>
  Job pricing, \<open>api/app/pricing.py\<close>.  Each \<open>Decimal\<close> product and quotient is rounded by the context
  (\<open>ctx\<close>) in the order the code performs them, and the result is quantized to eight places.  The
  lemmas bound the results: costs are amounts on the ledger's grid, they grow with the duration (so
  the escrow estimate covers every run within the timeout), and the protocol fee never exceeds the
  cost it is taken from.
\<close>

definition GPU_MULTIPLIER :: rat where
  "GPU_MULTIPLIER = 4"

definition opt_get :: "'a option \<Rightarrow> 'a \<Rightarrow> 'a" where
  "opt_get x v = (case x of None \<Rightarrow> v | Some y \<Rightarrow> y)"

definition compute_cost :: "ResourceSpec \<Rightarrow> rat \<Rightarrow> Settings \<Rightarrow> money" where
  "compute_cost spec duration_seconds settings =
     (let cpu = max 1 (opt_get (rs_cpu_cores spec) 1);
          gpu = opt_get (rs_gpu spec) False;
          minutes = ctx (max 0 duration_seconds / 60);
          unit = base_job_price settings;
          multiplier = (if gpu then GPU_MULTIPLIER else 1);
          cost = ctx (ctx (ctx (unit * of_int cpu) * multiplier) * minutes)
      in quantize 8 cost)"

definition escrow_estimate :: "ResourceSpec \<Rightarrow> int \<Rightarrow> Settings \<Rightarrow> money" where
  "escrow_estimate spec timeout_seconds settings = compute_cost spec (of_int timeout_seconds) settings"

definition protocol_fee :: "money \<Rightarrow> Settings \<Rightarrow> money" where
  "protocol_fee cost settings = quantize 8 (ctx (ctx (cost * of_int (protocol_fee_bps settings)) / 10000))"

definition data_cost :: "int \<Rightarrow> Settings \<Rightarrow> money" where
  "data_cost num_bytes settings =
     (let gb = ctx (of_int (max 0 num_bytes) / 1000000000)
      in quantize 8 (ctx (gb * data_price_per_gb settings)))"

section \<open>Bounds\<close>

lemma GPU_MULTIPLIER_ge_1: "1 \<le> GPU_MULTIPLIER"
  by (simp add: GPU_MULTIPLIER_def)

lemma compute_cost_on_grid [simp]: "on_grid 8 (compute_cost spec t s)"
  by (simp add: compute_cost_def Let_def)

lemma compute_cost_mono:
  assumes s: "0 \<le> base_job_price s" and le: "t \<le> t'"
  shows "compute_cost spec t s \<le> compute_cost spec t' s"
proof -
  let ?k = "ctx (ctx (base_job_price s * of_int (max 1 (opt_get (rs_cpu_cores spec) 1)))
                 * (if opt_get (rs_gpu spec) False then GPU_MULTIPLIER else 1))"
  have "0 \<le> ?k"
    using s GPU_MULTIPLIER_ge_1 by (intro decimal.rnd_nonneg mult_nonneg_nonneg) auto
  moreover have "ctx (max 0 t / 60) \<le> ctx (max 0 t' / 60)"
    using le by (intro decimal.rnd_mono divide_right_mono) auto
  ultimately have "?k * ctx (max 0 t / 60) \<le> ?k * ctx (max 0 t' / 60)"
    by (rule mult_left_mono [rotated])
  then have "quantize 8 (ctx (?k * ctx (max 0 t / 60))) \<le> quantize 8 (ctx (?k * ctx (max 0 t' / 60)))"
    by (intro quantize_mono decimal.rnd_mono)
  then show ?thesis by (simp only: compute_cost_def Let_def)
qed

lemma compute_cost_nonpos: "t \<le> 0 \<Longrightarrow> compute_cost spec t s = 0"
  by (simp add: compute_cost_def Let_def max_absorb1)

lemma compute_cost_nonneg [simp]: "0 \<le> base_job_price s \<Longrightarrow> 0 \<le> compute_cost spec t s"
proof -
  assume s: "0 \<le> base_job_price s"
  show ?thesis
  proof (cases "t \<le> 0")
    case True
    then show ?thesis by (simp add: compute_cost_nonpos)
  next
    case False
    then show ?thesis using compute_cost_mono [OF s, of 0 t spec] by (simp add: compute_cost_nonpos)
  qed
qed

lemma protocol_fee_on_grid [simp]: "on_grid 8 (protocol_fee c s)"
  by (simp add: protocol_fee_def)

lemma protocol_fee_bounds:
  assumes s: "valid_settings s" and c: "0 \<le> c" "on_grid 8 c" "c < 10 ^ 16"
  shows "0 \<le> protocol_fee c s" and "protocol_fee c s \<le> c"
proof -
  note bps = valid_settings_fee [OF s]
  show "0 \<le> protocol_fee c s"
    unfolding protocol_fee_def using c bps by (intro quantize_nonneg decimal.share_nonneg) auto
  have "on_grid 8 (c * of_int 10000)" using c by (intro on_grid_mult_int)
  then have "ctx (ctx (c * of_int (protocol_fee_bps s)) / 10000) \<le> c"
    using c bps by (intro decimal.share_le) auto
  from quantize_mono [OF this, of 8] show "protocol_fee c s \<le> c"
    using c by (simp add: protocol_fee_def quantize_id)
qed

lemma data_cost_on_grid [simp]: "on_grid 8 (data_cost n s)"
  by (simp add: data_cost_def Let_def)

lemma data_cost_nonneg [simp]: "0 \<le> data_price_per_gb s \<Longrightarrow> 0 \<le> data_cost n s"
  by (simp add: data_cost_def Let_def)

lemma data_cost_mono:
  assumes "0 \<le> data_price_per_gb s" "n \<le> m"
  shows "data_cost n s \<le> data_cost m s"
  unfolding data_cost_def Let_def using assms
  by (intro quantize_mono decimal.rnd_mono mult_right_mono divide_right_mono) auto

end
