(* ===== verification/Usage_Billing.thy ===== *)
theory Usage_Billing
  imports Payments Pricing
begin

text \<open>
  Metered inference billing, \<open>api/app/usage_billing.py\<close>: the pre-dispatch reservation, its settlement
  or release, the charge itself and deposits.  An operation that commits returns the committed
  database; one that raises leaves the database alone (the request's session rolls back), so the
  error value carries no state.  The lemmas show that the gate never overdraws an account, that a
  reservation can always be settled for what it covers, and that reserving followed by releasing
  moves nothing.
\<close>

definition quantize_usdc :: "money \<Rightarrow> money" where
  "quantize_usdc amount = quantize 6 amount"

definition developer_balance :: "uuid \<Rightarrow> db \<Rightarrow> money" where
  "developer_balance developer_id d = account_balance la_developer (Some developer_id) d"

definition charge_usage ::
    "instant \<Rightarrow> uuid \<Rightarrow> uuid \<Rightarrow> money \<Rightarrow> Settings \<Rightarrow> uuid option \<Rightarrow> string \<Rightarrow> db \<Rightarrow> err + (money \<times> db)" where
  "charge_usage now developer_id provider_id cost settings job_id reason d =
     (let cost = quantize_usdc cost in
      if cost \<le> 0 then Inr (0, d)
      else
        (let balance = developer_balance developer_id d in
         if balance < cost then Inl (InsufficientBalanceError balance cost)
         else
           (let fee = quantize_usdc (ctx (ctx (cost * of_int (protocol_fee_bps settings)) / 10000));
                provider_earning = cost - fee;
                postings = [Dr la_developer cost (Some developer_id),
                            Cr la_provider provider_earning (Some provider_id)];
                postings = (if fee > 0 then postings @ [Cr la_protocol fee None] else postings)
            in bindE (post_transaction now postings reason job_id None d) (\<lambda>(_, d). Inr (cost, d)))))"

definition reserve_balance :: "instant \<Rightarrow> uuid \<Rightarrow> money \<Rightarrow> db \<Rightarrow> err + (money \<times> db)" where
  "reserve_balance now developer_id amount d =
     (let amount = quantize_usdc amount in
      if amount \<le> 0 then Inr (0, d)
      else
        (let balance = developer_balance developer_id d in
         if balance < amount then Inl (InsufficientBalanceError balance amount)
         else bindE (post_transaction now
                       [Dr la_developer amount (Some developer_id), Cr la_escrow amount (Some developer_id)]
                       ''inference_hold'' None None d)
                (\<lambda>(_, d). Inr (amount, d))))"

definition return_hold :: "instant \<Rightarrow> uuid \<Rightarrow> money \<Rightarrow> db \<Rightarrow> err + db" where
  "return_hold now developer_id held d =
     (let held = quantize_usdc held in
      if held \<le> 0 then Inr d
      else bindE (post_transaction now
                    [Dr la_escrow held (Some developer_id), Cr la_developer held (Some developer_id)]
                    ''inference_hold_release'' None None d)
             (\<lambda>(_, d). Inr d))"

definition settle_reservation ::
    "instant \<Rightarrow> uuid \<Rightarrow> uuid \<Rightarrow> money \<Rightarrow> money \<Rightarrow> Settings \<Rightarrow> db \<Rightarrow> err + (money \<times> db)" where
  "settle_reservation now developer_id provider_id held actual settings d =
     bindE (return_hold now developer_id held d)
       (charge_usage now developer_id provider_id actual settings None ''inference_usage'')"

definition release_reservation :: "instant \<Rightarrow> uuid \<Rightarrow> money \<Rightarrow> db \<Rightarrow> err + db" where
  "release_reservation now developer_id held d = return_hold now developer_id held d"

definition credit_deposit :: "instant \<Rightarrow> uuid \<Rightarrow> money \<Rightarrow> string \<Rightarrow> db \<Rightarrow> err + (money \<times> db)" where
  "credit_deposit now developer_id amount reason d =
     (let amount = quantize_usdc amount in
      if amount \<le> 0 then Inr (0, d)
      else bindE (post_transaction now
                    [Dr la_protocol amount None, Cr la_developer amount (Some developer_id)]
                    reason None None d)
             (\<lambda>(_, d). Inr (amount, d)))"

section \<open>The fee of a charge\<close>

definition usage_fee :: "money \<Rightarrow> Settings \<Rightarrow> money" where
  "usage_fee cost s = quantize_usdc (ctx (ctx (cost * of_int (protocol_fee_bps s)) / 10000))"

lemma usage_fee_bounds:
  assumes s: "valid_settings s" and c: "0 \<le> c" "on_grid 6 c" "c < 10 ^ 16"
  shows "0 \<le> usage_fee c s" and "usage_fee c s \<le> c"
proof -
  note bps = valid_settings_fee [OF s]
  have g: "on_grid 8 c" using c by (auto intro: on_grid_mono)
  show "0 \<le> usage_fee c s"
    unfolding usage_fee_def quantize_usdc_def using c bps
    by (intro quantize_nonneg decimal.share_nonneg) auto
  have "on_grid 8 (c * of_int 10000)" using g by (intro on_grid_mult_int)
  then have "ctx (ctx (c * of_int (protocol_fee_bps s)) / 10000) \<le> c"
    using c bps g by (intro decimal.share_le) auto
  from quantize_mono [OF this, of 6] show "usage_fee c s \<le> c"
    using c by (simp add: usage_fee_def quantize_usdc_def quantize_id)
qed

definition charge_postings :: "uuid \<Rightarrow> uuid \<Rightarrow> money \<Rightarrow> money \<Rightarrow> Posting list" where
  "charge_postings dev p cost fee =
     [Dr la_developer cost (Some dev), Cr la_provider (cost - fee) (Some p)]
     @ (if fee > 0 then [Cr la_protocol fee None] else [])"

lemma charge_postable: "0 \<le> fee \<Longrightarrow> fee \<le> cost \<Longrightarrow> postable (charge_postings dev p cost fee)"
  by (auto simp: postable_def charge_postings_def side_def)

lemma charge_effect:
  "0 \<le> fee \<Longrightarrow> effect acc ref (charge_postings dev p cost fee)
     = effect acc ref [Dr la_developer cost (Some dev), Cr la_provider (cost - fee) (Some p), Cr la_protocol fee None]"
  by (auto simp: charge_postings_def)

section \<open>Each operation, on each branch\<close>

lemma charge_usage_cases:
  "charge_usage now dev p cost s jid reason d =
     (let c = quantize_usdc cost in
      if c \<le> 0 then Inr (0, d)
      else if developer_balance dev d < c then Inl (InsufficientBalanceError (developer_balance dev d) c)
      else bindE (post_transaction now (charge_postings dev p c (usage_fee c s)) reason jid None d)
             (\<lambda>(_, d). Inr (c, d)))"
  by (simp add: charge_usage_def charge_postings_def usage_fee_def Let_def)

lemma charge_usage_Inr:
  assumes "charge_usage now dev p cost s jid reason d = Inr (c, d')"
  shows "c = max 0 (quantize_usdc cost)" "ledger_only d d'"
  using assms
  by (auto simp: charge_usage_cases Let_def split: if_splits elim!: bindE_InrE intro: post_ledger_only)

lemma charge_usage_balance:
  assumes "charge_usage now dev p cost s jid reason d = Inr (c, d')"
    and s: "valid_settings s" and c: "c < 10 ^ 16"
  shows "account_balance acc ref d' = account_balance acc ref d
     + effect acc ref [Dr la_developer c (Some dev), Cr la_provider (c - usage_fee c s) (Some p), Cr la_protocol (usage_fee c s) None]"
    and "0 < c \<Longrightarrow> c \<le> developer_balance dev d"
proof -
  let ?q = "quantize_usdc cost"
  have grid: "on_grid 6 ?q" by (simp add: quantize_usdc_def)
  have c_eq: "c = max 0 ?q" by (rule charge_usage_Inr(1) [OF assms(1)])
  show "account_balance acc ref d' = account_balance acc ref d
     + effect acc ref [Dr la_developer c (Some dev), Cr la_provider (c - usage_fee c s) (Some p), Cr la_protocol (usage_fee c s) None]"
  proof (cases "?q \<le> 0")
    case True
    then have "d' = d" "c = 0" using assms(1) by (auto simp: charge_usage_cases Let_def)
    then show ?thesis by (simp add: usage_fee_def quantize_usdc_def)
  next
    case False
    then have q: "c = ?q" "0 \<le> usage_fee ?q s"
      using usage_fee_bounds(1) [OF s _ grid] c c_eq by auto
    from assms(1) False obtain grp where
      "post_transaction now (charge_postings dev p ?q (usage_fee ?q s)) reason jid None d = Inr (grp, d')"
      by (auto simp: charge_usage_cases Let_def split: if_splits elim!: bindE_InrE)
    from post_transaction_balance [OF this, of acc ref] show ?thesis
      unfolding charge_effect [OF q(2)] q(1) .
  qed
  show "0 < c \<Longrightarrow> c \<le> developer_balance dev d"
    using assms(1) by (auto simp: charge_usage_cases Let_def split: if_splits elim!: bindE_InrE)
qed

lemma charge_usage_succeeds:
  assumes s: "valid_settings s" and b: "quantize_usdc cost \<le> developer_balance dev d" "quantize_usdc cost < 10 ^ 16"
  shows "\<exists>d'. charge_usage now dev p cost s jid reason d = Inr (max 0 (quantize_usdc cost), d')"
proof (cases "quantize_usdc cost \<le> 0")
  case True
  then show ?thesis by (simp add: charge_usage_cases Let_def max_absorb1)
next
  case False
  then have "postable (charge_postings dev p (quantize_usdc cost) (usage_fee (quantize_usdc cost) s))"
    using usage_fee_bounds [OF s, of "quantize_usdc cost"] b
    by (intro charge_postable) (simp_all add: quantize_usdc_def)
  from post_transaction_ex [OF this, of now reason jid None d] False b show ?thesis
    by (auto simp: charge_usage_cases Let_def not_le max_absorb2)
qed

lemma reserve_balance_Inr:
  assumes "reserve_balance now dev x d = Inr (h, d')"
  shows "h = max 0 (quantize_usdc x)" "ledger_only d d'"
    and "account_balance acc ref d' = account_balance acc ref d
           + effect acc ref [Dr la_developer h (Some dev), Cr la_escrow h (Some dev)]"
    and "0 \<le> developer_balance dev d \<Longrightarrow> 0 \<le> developer_balance dev d'"
proof -
  let ?q = "quantize_usdc x"
  consider (zero) "?q \<le> 0" "h = 0" "d' = d"
    | (held) grp where "0 < ?q" "h = ?q" "?q \<le> developer_balance dev d"
        "post_transaction now [Dr la_developer ?q (Some dev), Cr la_escrow ?q (Some dev)]
           ''inference_hold'' None None d = Inr (grp, d')"
    using assms by (auto simp: reserve_balance_def Let_def split: if_splits elim!: bindE_InrE)
  then have "h = max 0 ?q \<and> ledger_only d d'
    \<and> account_balance acc ref d' = account_balance acc ref d
           + effect acc ref [Dr la_developer h (Some dev), Cr la_escrow h (Some dev)]
    \<and> (0 \<le> developer_balance dev d \<longrightarrow> 0 \<le> developer_balance dev d')"
  proof cases
    case zero
    then show ?thesis by simp
  next
    case held
    note bal = post_transaction_balance [OF held(4)]
    show ?thesis
      using held(1-3) bal [of acc ref] bal [of la_developer "Some dev"] post_ledger_only [OF held(4)]
      by (simp add: developer_balance_def max_absorb2 del: effect.simps) simp
  qed
  then show "h = max 0 ?q" "ledger_only d d'"
    and "account_balance acc ref d' = account_balance acc ref d
           + effect acc ref [Dr la_developer h (Some dev), Cr la_escrow h (Some dev)]"
    and "0 \<le> developer_balance dev d \<Longrightarrow> 0 \<le> developer_balance dev d'"
    by blast+
qed

lemma return_hold_total: "\<exists>d'. return_hold now dev h d = Inr d'"
  by (cases "quantize_usdc h \<le> 0")
    (auto simp: return_hold_def Let_def bindE_Inr_iff intro!: post_transaction_ex)

lemma return_hold_Inr:
  assumes "return_hold now dev h d = Inr d'"
  shows "ledger_only d d'"
    and "account_balance acc ref d' = account_balance acc ref d
      + effect acc ref [Dr la_escrow (max 0 (quantize_usdc h)) (Some dev),
                        Cr la_developer (max 0 (quantize_usdc h)) (Some dev)]"
proof -
  let ?q = "quantize_usdc h"
  consider (zero) "?q \<le> 0" "d' = d"
    | (held) grp where "0 < ?q"
        "post_transaction now [Dr la_escrow ?q (Some dev), Cr la_developer ?q (Some dev)]
           ''inference_hold_release'' None None d = Inr (grp, d')"
    using assms by (auto simp: return_hold_def Let_def split: if_splits elim!: bindE_InrE)
  then have "ledger_only d d' \<and> account_balance acc ref d' = account_balance acc ref d
      + effect acc ref [Dr la_escrow (max 0 ?q) (Some dev), Cr la_developer (max 0 ?q) (Some dev)]"
  proof cases
    case zero
    then show ?thesis by (simp add: max_absorb1)
  next
    case held
    then show ?thesis
      using post_transaction_balance [OF held(2), of acc ref] post_ledger_only [OF held(2)]
      by (simp add: max_absorb2)
  qed
  then show "ledger_only d d'"
    and "account_balance acc ref d' = account_balance acc ref d
      + effect acc ref [Dr la_escrow (max 0 ?q) (Some dev), Cr la_developer (max 0 ?q) (Some dev)]"
    by blast+
qed

lemma quantize_usdc_idem [simp]: "quantize_usdc (quantize_usdc x) = quantize_usdc x"
  by (simp add: quantize_usdc_def)

lemma quantize_usdc_0 [simp]: "quantize_usdc 0 = 0"
  by (simp add: quantize_usdc_def)

lemma quantize_usdc_max [simp]: "quantize_usdc (max 0 (quantize_usdc x)) = max 0 (quantize_usdc x)"
  by (simp add: max_def)

lemma quantize_usdc_mono: "x \<le> y \<Longrightarrow> quantize_usdc x \<le> quantize_usdc y"
  by (simp add: quantize_usdc_def quantize_mono)

lemma credit_deposit_Inr:
  assumes "credit_deposit now dev x reason d = Inr (a, d')"
  shows "a = max 0 (quantize_usdc x)" "ledger_only d d'"
    "account_balance acc ref d' = account_balance acc ref d
       + effect acc ref [Dr la_protocol a None, Cr la_developer a (Some dev)]"
proof -
  let ?q = "quantize_usdc x"
  consider (zero) "?q \<le> 0" "a = 0" "d' = d"
    | (held) grp where "0 < ?q" "a = ?q"
        "post_transaction now [Dr la_protocol ?q None, Cr la_developer ?q (Some dev)] reason None None d = Inr (grp, d')"
    using assms by (auto simp: credit_deposit_def Let_def split: if_splits elim!: bindE_InrE)
  then have "a = max 0 ?q \<and> ledger_only d d' \<and> account_balance acc ref d' = account_balance acc ref d
       + effect acc ref [Dr la_protocol a None, Cr la_developer a (Some dev)]"
  proof cases
    case zero
    then show ?thesis by simp
  next
    case held
    then show ?thesis
      using post_transaction_balance [OF held(3), of acc ref] post_ledger_only [OF held(3)] by simp
  qed
  then show "a = max 0 ?q" "ledger_only d d'"
    "account_balance acc ref d' = account_balance acc ref d
       + effect acc ref [Dr la_protocol a None, Cr la_developer a (Some dev)]"
    by blast+
qed

section \<open>Reservations\<close>

text \<open>A reservation covers its settlement: the charge cannot fail on balance.\<close>

lemma settle_covered:
  assumes s: "valid_settings s" and bal: "0 \<le> developer_balance dev d"
    and le: "actual \<le> held" and h: "held < 10 ^ 15" "0 \<le> held"
  shows "\<exists>d'. settle_reservation now dev p held actual s d = Inr (max 0 (quantize_usdc actual), d')"
proof -
  obtain e where e: "return_hold now dev held d = Inr e" using return_hold_total by blast
  have q: "quantize_usdc actual \<le> quantize_usdc held" using le by (rule quantize_usdc_mono)
  have h0: "0 \<le> quantize_usdc held" using h by (simp add: quantize_usdc_def)
  have "quantize_usdc held \<le> quantize_usdc (10 ^ 15)" using h by (intro quantize_usdc_mono) simp
  also have "\<dots> = 10 ^ 15"
    unfolding quantize_usdc_def by (rule quantize_id) (rule on_gridI [of _ _ "10 ^ 21"], simp)
  finally have big: "quantize_usdc actual < 10 ^ 16" using q by simp
  have "developer_balance dev e = developer_balance dev d + quantize_usdc held"
    using h0 by (simp add: developer_balance_def return_hold_Inr(2) [OF e])
  then have "quantize_usdc actual \<le> developer_balance dev e" using bal q by simp
  from charge_usage_succeeds [OF s this big] obtain d' where
    "charge_usage now dev p actual s None ''inference_usage'' e = Inr (max 0 (quantize_usdc actual), d')"
    by blast
  with e show ?thesis by (simp add: settle_reservation_def)
qed

lemma reserve_release:
  assumes "reserve_balance now dev x d = Inr (h, e)" "release_reservation now' dev h e = Inr d'"
  shows "account_balance acc ref d' = account_balance acc ref d"
proof -
  have h: "h = max 0 (quantize_usdc x)" by (rule reserve_balance_Inr(1) [OF assms(1)])
  have "max 0 (quantize_usdc h) = h" by (simp add: h)
  then show ?thesis
    using return_hold_Inr(2) [OF assms(2) [unfolded release_reservation_def], of acc ref]
      reserve_balance_Inr(3) [OF assms(1), of acc ref]
    by auto
qed

end
