(* ===== verification/State_Machine.thy ===== *)
theory State_Machine
  imports Models
begin

text \<open>
  The job state machine of \<open>api/app/state_machine.py\<close>.  \<open>LEGAL\<close> is the adjacency map, \<open>transition\<close>
  the only writer of a job's status.  The lemmas give its behaviour on every branch, and \<open>moves\<close> is
  the reflexive-transitive path relation along which the services take a job.
\<close>

fun LEGAL :: "JobStatus \<Rightarrow> JobStatus list" where
  "LEGAL js_queued = [js_assigned]"
| "LEGAL js_assigned = [js_running, js_queued, js_failed, js_timeout]"
| "LEGAL js_running = [js_completed, js_failed, js_timeout, js_queued]"
| "LEGAL js_completed = []"
| "LEGAL js_failed = []"
| "LEGAL js_timeout = []"

definition TERMINAL_STATES :: "JobStatus list" where
  "TERMINAL_STATES = [js_completed, js_failed, js_timeout]"

definition can_transition :: "JobStatus \<Rightarrow> JobStatus \<Rightarrow> bool" where
  "can_transition current target \<longleftrightarrow> target \<in> set (LEGAL current)"

definition transition :: "instant \<Rightarrow> Job \<Rightarrow> JobStatus \<Rightarrow> err + Job" where
  "transition now job target =
     (if \<not> can_transition (j_status job) target
      then Inl (IllegalTransitionError (j_status job) target)
      else
        (let job = job\<lparr>j_status := target\<rparr> in
         if target = js_queued then
           Inr (job\<lparr>j_queued_at := Some now, j_assigned_provider_id := None, j_lease_expires_at := None\<rparr>)
         else if target = js_assigned then Inr (job\<lparr>j_assigned_at := Some now\<rparr>)
         else if target = js_running then Inr (job\<lparr>j_started_at := Some now\<rparr>)
         else if target \<in> set TERMINAL_STATES then
           Inr (job\<lparr>j_finished_at := Some now, j_lease_expires_at := None\<rparr>)
         else Inr job))"

abbreviation terminal :: "Job \<Rightarrow> bool" where
  "terminal job \<equiv> j_status job \<in> set TERMINAL_STATES"

lemma TERMINAL_iff [simp]:
  "s \<in> set TERMINAL_STATES \<longleftrightarrow> s = js_completed \<or> s = js_failed \<or> s = js_timeout"
  by (simp add: TERMINAL_STATES_def)

lemma transition_Inr:
  assumes "transition now job target = Inr job'"
  shows "can_transition (j_status job) target" "j_status job' = target"
    "j_id job' = j_id job" "j_developer_id job' = j_developer_id job" "j_kind job' = j_kind job"
    "j_redundancy job' = j_redundancy job" "j_escrow_amount job' = j_escrow_amount job"
    "j_is_high_value job' = j_is_high_value job" "j_cost_final job' = j_cost_final job"
    "j_created_at job' = j_created_at job" "j_attempt_count job' = j_attempt_count job"
    "j_resource_spec job' = j_resource_spec job" "j_timeout_seconds job' = j_timeout_seconds job"
  using assms by (auto simp: transition_def Let_def split: if_splits)

lemma transition_legal:
  "can_transition (j_status job) target \<longleftrightarrow> (\<exists>job'. transition now job target = Inr job')"
  by (auto simp: transition_def Let_def)

lemma transition_illegal:
  "\<not> can_transition (j_status job) target
   \<Longrightarrow> transition now job target = Inl (IllegalTransitionError (j_status job) target)"
  by (simp add: transition_def)

lemma can_transition_terminal [simp]: "s \<in> set TERMINAL_STATES \<Longrightarrow> \<not> can_transition s t"
  by (auto simp: can_transition_def)

text \<open>Paths of legal transitions.\<close>

definition moves :: "JobStatus \<Rightarrow> JobStatus \<Rightarrow> bool" where
  "moves = can_transition\<^sup>*\<^sup>*"

lemma moves_refl [simp, intro]: "moves s s"
  by (simp add: moves_def)

lemma moves_step [intro]: "can_transition s t \<Longrightarrow> moves s t"
  by (auto simp: moves_def)

lemma moves_trans [trans]: "moves s t \<Longrightarrow> moves t u \<Longrightarrow> moves s u"
  by (auto simp: moves_def)

lemma moves_terminal:
  assumes "moves s t" "s \<in> set TERMINAL_STATES"
  shows "t = s"
  using assms unfolding moves_def by (induction rule: converse_rtranclp_induct) auto

lemma transition_moves: "transition now job target = Inr job' \<Longrightarrow> moves (j_status job) (j_status job')"
  by (auto dest: transition_Inr)

end
