(* ===== verification/Results.thy ===== *)
theory Results
  imports Disputes Reputation Verification Presence Usage_Billing State_Machine
begin

text \<open>
  Result intake and finalization, \<open>api/app/results.py\<close>: \<open>record_result\<close> stores one provider's attempt,
  \<open>maybe_finalize\<close> decides whether every vote is in, \<open>finalize\<close> takes the quorum, moves the job to its
  terminal state, applies reputation and slashing to every attempt and settles the escrow.  A call
  reads the clock once (\<open>now\<close>).
\<close>

section \<open>Attempts\<close>

fun HONEST_REP :: "AttemptOutcome \<Rightarrow> ReputationKind" where
  "HONEST_REP ao_completed = rk_job_success"
| "HONEST_REP ao_failed = rk_job_failure"
| "HONEST_REP ao_timeout = rk_timeout"
| "HONEST_REP _ = rk_job_failure"

text \<open>\<open>ORDER BY attempt_number DESC LIMIT 1\<close>\<close>

definition latest :: "JobAttempt list \<Rightarrow> JobAttempt option" where
  "latest xs = (case rev (sort_key at_attempt_number xs) of [] \<Rightarrow> None | a # _ \<Rightarrow> Some a)"

definition attempt_for :: "uuid \<Rightarrow> uuid \<Rightarrow> db \<Rightarrow> JobAttempt option" where
  "attempt_for job_id provider_id d =
     latest (filter (\<lambda>a. at_job_id a = job_id \<and> at_provider_id a = Some provider_id \<and> at_finished_at a = None)
               (job_attempts d))"

definition attempt_outcome :: "AgentResultRequest \<Rightarrow> bool \<Rightarrow> AttemptOutcome" where
  "attempt_outcome req verdict_valid =
     (if rq_timed_out req then ao_timeout else if verdict_valid then ao_completed else ao_failed)"

section \<open>Settlement\<close>

text \<open>The run time in seconds, or the timeout budget if timing is unavailable.\<close>

definition duration_seconds :: "Job \<Rightarrow> rat" where
  "duration_seconds job =
     (case (j_started_at job, j_finished_at job) of
        (Some s, Some f) \<Rightarrow> max 0 (of_int (f - s) / 1000000)
      | _ \<Rightarrow> of_int (j_timeout_seconds job))"

definition settle_job :: "instant \<Rightarrow> Job \<Rightarrow> uuid option \<Rightarrow> Settings \<Rightarrow> db \<Rightarrow> err + db" where
  "settle_job now job winner_provider_id settings d =
     (case j_escrow_amount job of
        None \<Rightarrow> Inr d
      | Some escrow \<Rightarrow>
          if j_kind job = jk_canary then Inr d
          else
            (case (j_status job = js_completed, winner_provider_id) of
               (True, Some winner) \<Rightarrow>
                 (let cost = min (compute_cost (j_resource_spec job) (duration_seconds job) settings) escrow;
                      fee = protocol_fee cost settings
                  in bindE (FiatStub_settle now (j_id job) (j_developer_id job) winner cost fee d) (\<lambda>d.
                     let remainder = escrow - cost in
                     bindE (if remainder > 0 then FiatStub_refund now (j_id job) (j_developer_id job) remainder d
                            else Inr d) (\<lambda>d.
                     let dcost = data_cost (job_bytes (j_id job) d) settings in
                     bindE (if dcost > 0
                            then bindE (post_transaction now
                                   [Dr la_developer dcost (Some (j_developer_id job)), Cr la_protocol dcost None]
                                   ''data_cost'' (Some (j_id job)) None d) (\<lambda>(_, d). Inr d)
                            else Inr d) (\<lambda>d.
                     Inr (put_job (job\<lparr>j_cost_final := Some (cost + dcost)\<rparr>) d)))))
             | _ \<Rightarrow>
                 bindE (FiatStub_refund now (j_id job) (j_developer_id job) escrow d) (\<lambda>d.
                 Inr (put_job (job\<lparr>j_cost_final := Some 0\<rparr>) d))))"

section \<open>Reward and slash\<close>

definition pid_str :: "uuid option \<Rightarrow> string" where
  "pid_str p = (case p of None \<Rightarrow> ''None'' | Some u \<Rightarrow> uuid_str u)"

definition slash_evidence :: "Job \<Rightarrow> JobAttempt \<Rightarrow> json AttemptResult list \<Rightarrow> jdict" where
  "slash_evidence job attempt all_results =
     [(''job_id'', JStr (uuid_str (j_id job))),
      (''kind'', JStr (JobKind_str (j_kind job))),
      (''input_ref'', jopt (j_input_ref job)),
      (''expected_output_hash'', jopt (j_expected_output_hash job)),
      (''submitted_output_hash'', jget (or_empty (at_proof attempt)) ''output_sha256''),
      (''submitted_result_ref'', jopt (at_result_ref attempt)),
      (''proof'', (case at_proof attempt of None \<Rightarrow> JNull | Some p \<Rightarrow> JObj p)),
      (''attempt_number'', JInt (at_attempt_number attempt)),
      (''quorum_votes'', JList (map (\<lambda>r. JObj
         [(''provider_id'', JStr (pid_str (ar_provider_id r))),
          (''output_hash'', (case ar_output_hash r of None \<Rightarrow> JNull | Some h \<Rightarrow> h)),
          (''succeeded'', JBool (ar_succeeded r))]) all_results))]"

definition apply_outcome ::
    "instant \<Rightarrow> Job \<Rightarrow> Provider \<Rightarrow> JobAttempt \<Rightarrow> bool \<Rightarrow> bool \<Rightarrow> Settings \<Rightarrow> json AttemptResult list \<Rightarrow> db \<Rightarrow> err + db" where
  "apply_outcome now job provider attempt won canary settings all_results d =
     (if won then
        (let kind = (if canary then rk_canary_pass else rk_job_success);
             (provider, d) = record_reputation now provider kind (Some (j_id job)) None d
         in if j_redundancy job > 1
            then Inr (snd (record_reputation now provider rk_quorum_agree (Some (j_id job)) None d))
            else Inr d)
      else if canary \<or> (j_redundancy job > 1 \<and> at_outcome attempt = ao_completed) then
        (let reason = (if canary then ''canary_fail'' else ''quorum_disagree'');
             kind = (if canary then rk_canary_fail else rk_quorum_disagree);
             (provider, d) = record_reputation now provider kind (Some (j_id job)) None d;
             prior = count_prior_offenses (pr_id provider) d;
             amount = graduated_slash (of_int (slash_amount settings)) prior
         in bindE (open_dispute now (pr_id provider) amount reason settings (Some (j_id job))
                     (Some (slash_evidence job attempt all_results)) d)
              (\<lambda>(_, d). Inr d))
      else Inr (snd (record_reputation now provider (HONEST_REP (at_outcome attempt)) (Some (j_id job)) None d)))"

section \<open>Finalization\<close>

definition finished_attempts :: "uuid \<Rightarrow> db \<Rightarrow> JobAttempt list" where
  "finished_attempts job_id d =
     filter (\<lambda>a. at_job_id a = job_id \<and> at_finished_at a \<noteq> None) (job_attempts d)"

text \<open>One iteration of the reward loop: the provider row is read afresh, a deleted provider skipped.\<close>

definition apply_attempt ::
    "instant \<Rightarrow> Job \<Rightarrow> json QuorumOutcome \<Rightarrow> Settings \<Rightarrow> json AttemptResult list \<Rightarrow> JobAttempt \<Rightarrow> db \<Rightarrow> err + db" where
  "apply_attempt now job outcome settings results attempt d =
     (case at_provider_id attempt of
        None \<Rightarrow> Inr d
      | Some pid \<Rightarrow>
          (case get_provider pid d of
             None \<Rightarrow> Inr d
           | Some provider \<Rightarrow>
               (let won = (at_provider_id attempt \<in> set (qo_agreers outcome) \<and> qo_reached outcome)
                in apply_outcome now job provider attempt won (j_kind job = jk_canary) settings results d)))"

definition finalize :: "instant \<Rightarrow> Job \<Rightarrow> Settings \<Rightarrow> db \<Rightarrow> err + db" where
  "finalize now job settings d =
     (if j_status job \<in> set TERMINAL_STATES then Inr d
      else
        (let attempts = finished_attempts (j_id job) d;
             results = map attempt_result attempts
         in bindE (quorum_of results (j_redundancy job)) (\<lambda>outcome.
            bindE (if qo_reached outcome
                   then
                     (case find (\<lambda>a. at_provider_id a \<in> set (qo_agreers outcome) \<and> at_outcome a = ao_completed) attempts of
                        None \<Rightarrow> Inl StopIteration
                      | Some winner \<Rightarrow>
                          bindE (transition now (job\<lparr>j_result_ref := at_result_ref winner, j_proof := at_proof winner\<rparr>) js_completed)
                            (\<lambda>job. Inr (job, at_provider_id winner)))
                   else
                     (let all_timed_out = (attempts \<noteq> [] \<and> list_all (\<lambda>a. at_outcome a = ao_timeout) attempts)
                      in bindE (transition now job (if all_timed_out then js_timeout else js_failed))
                           (\<lambda>job. Inr (job, None))))
              (\<lambda>(job, winner).
                 bindE (foldE (apply_attempt now job outcome settings results) attempts (put_job job d))
                   (settle_job now job winner settings)))))"

definition maybe_finalize :: "instant \<Rightarrow> Job \<Rightarrow> Settings \<Rightarrow> db \<Rightarrow> err + db" where
  "maybe_finalize now job settings d =
     (if j_status job \<in> set TERMINAL_STATES then Inr d
      else if int (length (finished_attempts (j_id job) d)) \<ge> j_redundancy job
      then finalize now job settings d
      else Inr d)"

text \<open>Returns the job's status after the call.\<close>

definition record_result ::
    "instant \<Rightarrow> Job \<Rightarrow> uuid \<Rightarrow> AgentResultRequest \<Rightarrow> Settings \<Rightarrow> db \<Rightarrow> err + (JobStatus option \<times> db)" where
  "record_result now job provider_id req settings d =
     bindE (if j_status job = js_assigned then transition now job js_running else Inr job) (\<lambda>job.
       let d = put_job job d;
           verdict = verify job req;
           d = (case attempt_for (j_id job) provider_id d of
                  None \<Rightarrow> d
                | Some attempt \<Rightarrow>
                    put_attempt (attempt\<lparr>at_result_ref := rq_result_ref req, at_proof := Some (rq_proof req),
                                         at_finished_at := Some now,
                                         at_outcome := attempt_outcome req (vd_valid verdict)\<rparr>) d)
       in bindE (maybe_finalize now job settings d) (\<lambda>d.
          Inr (map_option j_status (get_job (j_id job) d), d)))"

section \<open>Rewarding and slashing touches trust only\<close>

text \<open>The reward loop moves reputations, stakes, held stakes and disputes: no job, no attempt and no other
  account changes, and the invariants survive.\<close>

definition trust_only :: "db \<Rightarrow> db \<Rightarrow> bool" where
  "trust_only d d' \<longleftrightarrow>
     jobs d' = jobs d \<and> job_attempts d' = job_attempts d \<and> developers d' = developers d
     \<and> bandwidth_events d' = bandwidth_events d \<and> map pr_id (providers d') = map pr_id (providers d)
     \<and> next_id d \<le> next_id d'
     \<and> (ledger_ok d \<longrightarrow> ledger_ok d') \<and> (held_ok d \<longrightarrow> held_ok d') \<and> (reputations_ok d \<longrightarrow> reputations_ok d')
     \<and> (\<forall>acc ref k. acc \<noteq> la_stake \<longrightarrow> acc \<noteq> la_disputed \<longrightarrow>
           account_balance acc ref d' = account_balance acc ref d \<and> job_balance acc k d' = job_balance acc k d)"

lemma trust_only_refl [simp, intro]: "trust_only d d"
  by (simp add: trust_only_def)

lemma trust_only_trans [trans]: "trust_only d e \<Longrightarrow> trust_only e f \<Longrightarrow> trust_only d f"
  unfolding trust_only_def by (simp add: order_trans [of "next_id d" "next_id e" "next_id f"])

lemma record_reputation_trust:
  assumes r: "record_reputation now p k jid dl d = (p', d')"
  shows "trust_only d d'"
proof -
  note sel = record_reputation_sel [OF r]
  have "held_ok d \<Longrightarrow> held_ok d'" by (erule held_ok_same_ledger) (simp_all add: sel)
  then show ?thesis
    using record_reputation_ledger_ok [OF r] record_reputation_ok [OF r]
    by (simp add: trust_only_def sel balance_cong [OF sel(4)] job_balance_cong [OF sel(4)])
qed

lemma open_dispute_trust:
  assumes op: "open_dispute now pid amount reason s jid ev d = Inr (x, d')" and a: "0 \<le> amount"
  shows "trust_only d d'"
proof -
  note sel = open_dispute_Inr(2-15) [OF op]
  have "reputations_ok d' = reputations_ok d" by (simp add: reputations_ok_def sel)
  moreover have "account_balance acc ref d' = account_balance acc ref d"
    if "acc \<noteq> la_stake" "acc \<noteq> la_disputed" for acc ref
    using that by (simp add: open_dispute_Inr(1) [OF op])
  moreover have "next_id d \<le> next_id d'" using sel by simp
  ultimately show ?thesis
    using open_dispute_held [OF op _ a] open_dispute_job_balance [OF op]
    by (simp add: trust_only_def sel)
qed

lemma slash_nonneg: "valid_settings s \<Longrightarrow> 0 \<le> graduated_slash (of_int (slash_amount s)) n"
  using graduated_slash_bounds(1) [of "of_int (slash_amount s)" n] valid_settings_prices(3) [of s] by simp

lemma apply_outcome_trust:
  assumes "apply_outcome now job p a won canary s rs d = Inr d'" "valid_settings s"
  shows "trust_only d d'"
proof -
  obtain p1 d1 where r1: "record_reputation now p (if won then (if canary then rk_canary_pass else rk_job_success)
      else if canary \<or> (j_redundancy job > 1 \<and> at_outcome a = ao_completed)
        then (if canary then rk_canary_fail else rk_quorum_disagree)
        else HONEST_REP (at_outcome a)) (Some (j_id job)) None d = (p1, d1)" by force
  obtain p2 d2 where r2: "record_reputation now p1 rk_quorum_agree (Some (j_id job)) None d1 = (p2, d2)" by force
  note t1 = record_reputation_trust [OF r1] and t2 = record_reputation_trust [OF r2]
  consider "won" | "\<not> won" "canary \<or> (j_redundancy job > 1 \<and> at_outcome a = ao_completed)"
    | "\<not> won" "\<not> (canary \<or> (j_redundancy job > 1 \<and> at_outcome a = ao_completed))" by blast
  then show ?thesis
  proof cases
    case 1
    then show ?thesis using assms(1) r1 r2 t1 trust_only_trans [OF t1 t2]
      by (auto simp: apply_outcome_def split: if_splits)
  next
    case 2
    then obtain x where "open_dispute now (pr_id p1)
        (graduated_slash (of_int (slash_amount s)) (count_prior_offenses (pr_id p1) d1))
        (if canary then ''canary_fail'' else ''quorum_disagree'') s (Some (j_id job))
        (Some (slash_evidence job a rs)) d1 = Inr (x, d')"
      using assms(1) r1 by (auto simp: apply_outcome_def Let_def elim!: bindE_InrE split: if_splits)
    from open_dispute_trust [OF this slash_nonneg [OF assms(2)]] show ?thesis by (rule trust_only_trans [OF t1])
  next
    case 3
    then show ?thesis using assms(1) r1 t1 by (auto simp: apply_outcome_def split: if_splits)
  qed
qed

lemma open_dispute_ex: "\<exists>d' x. open_dispute now pid amount reason s jid ev d = Inr (x, d')"
  using open_dispute_total by blast

lemma apply_outcome_total: "\<exists>d'. apply_outcome now job p a won canary s rs d = Inr d'"
  by (auto simp: apply_outcome_def Let_def bindE_Inr_iff split: prod.splits intro!: open_dispute_ex)

lemma apply_attempt_trust:
  "apply_attempt now job oc s rs a d = Inr d' \<Longrightarrow> valid_settings s \<Longrightarrow> trust_only d d'"
  by (auto simp: apply_attempt_def Let_def split: option.splits intro: apply_outcome_trust)

lemma apply_attempt_total: "\<exists>d'. apply_attempt now job oc s rs a d = Inr d'"
  by (auto simp: apply_attempt_def Let_def apply_outcome_total split: option.splits)

lemma foldE_total: "(\<And>x s. \<exists>s'. f x s = Inr s') \<Longrightarrow> \<exists>s'. foldE f xs s = Inr s'"
proof (induction xs arbitrary: s)
  case (Cons x xs)
  obtain t where t: "f x s = Inr t" using Cons.prems by blast
  obtain s' where "foldE f xs t = Inr s'" using Cons by blast
  with t show ?case by simp
qed simp

lemma reward_loop_trust:
  assumes "foldE (apply_attempt now job oc s rs) as d = Inr d'" "valid_settings s"
  shows "trust_only d d'"
proof (rule foldE_inv [OF assms(1)])
  show "trust_only d d" by simp
  show "trust_only d e \<Longrightarrow> apply_attempt now job oc s rs a e = Inr e' \<Longrightarrow> trust_only d e'" for a e e'
    using apply_attempt_trust [OF _ assms(2)] trust_only_trans by blast
qed

section \<open>Settlement releases the escrow exactly once\<close>

definition escrow_fits :: "Job \<Rightarrow> bool" where
  "escrow_fits job \<longleftrightarrow> (case j_escrow_amount job of None \<Rightarrow> True | Some x \<Rightarrow> 0 \<le> x \<and> on_grid 8 x \<and> x < 10 ^ 12)"

definition final_cost :: "Job \<Rightarrow> Settings \<Rightarrow> money \<Rightarrow> money" where
  "final_cost job s x = min (compute_cost (j_resource_spec job) (duration_seconds job) s) x"

lemma final_cost_bounds:
  assumes "valid_settings s" "0 \<le> x" "on_grid 8 x" "x < 10 ^ 12"
  shows "0 \<le> final_cost job s x" "final_cost job s x \<le> x"
    "0 \<le> protocol_fee (final_cost job s x) s" "protocol_fee (final_cost job s x) s \<le> final_cost job s x"
proof -
  show c: "0 \<le> final_cost job s x" "final_cost job s x \<le> x"
    using assms valid_settings_prices(1) by (auto simp: final_cost_def)
  have "on_grid 8 (final_cost job s x)" using assms by (simp add: final_cost_def min_def)
  moreover have "final_cost job s x < 10 ^ 16" using c(2) assms(4) by simp
  ultimately show "0 \<le> protocol_fee (final_cost job s x) s"
    "protocol_fee (final_cost job s x) s \<le> final_cost job s x"
    using protocol_fee_bounds [OF assms(1) c(1)] by auto
qed

text \<open>The two settled shapes of a billed job.\<close>

lemma settle_job_completed:
  assumes run: "settle_job now job (Some w) s d = Inr d'"
    and job: "j_escrow_amount job = Some x" "j_kind job \<noteq> jk_canary" "j_status job = js_completed"
  obtains d1 d2 d3 c f dc where
    "c = final_cost job s x" "f = protocol_fee c s" "dc = data_cost (job_bytes (j_id job) d2) s"
    "FiatStub_settle now (j_id job) (j_developer_id job) w c f d = Inr d1"
    "FiatStub_refund now (j_id job) (j_developer_id job) (x - c) d1 = Inr d2"
    "if dc > 0 then \<exists>grp. post_transaction now [Dr la_developer dc (Some (j_developer_id job)), Cr la_protocol dc None]
        ''data_cost'' (Some (j_id job)) None d2 = Inr (grp, d3) else d3 = d2"
    "d' = put_job (job\<lparr>j_cost_final := Some (c + dc)\<rparr>) d3"
proof -
  let ?c = "final_cost job s x" and ?dc = "\<lambda>d. data_cost (job_bytes (j_id job) d) s"
  let ?charge = "\<lambda>d. post_transaction now [Dr la_developer (?dc d) (Some (j_developer_id job)), Cr la_protocol (?dc d) None]
                        ''data_cost'' (Some (j_id job)) None d"
  from run job have "\<exists>d1. FiatStub_settle now (j_id job) (j_developer_id job) w ?c (protocol_fee ?c s) d = Inr d1 \<and>
      (\<exists>d2. (if x - ?c > 0 then FiatStub_refund now (j_id job) (j_developer_id job) (x - ?c) d1 else Inr d1) = Inr d2 \<and>
      (\<exists>d3. (if ?dc d2 > 0 then bindE (?charge d2) (\<lambda>(_, d). Inr d) else Inr d2) = Inr d3 \<and>
      d' = put_job (job\<lparr>j_cost_final := Some (?c + ?dc d2)\<rparr>) d3))"
    unfolding settle_job_def final_cost_def [symmetric]
    by (simp add: Let_def bindE_Inr_iff eq_commute [of _ d'] split del: if_split)
  then obtain d1 d2 d3 where
    1: "FiatStub_settle now (j_id job) (j_developer_id job) w ?c (protocol_fee ?c s) d = Inr d1"
    and 2: "(if x - ?c > 0 then FiatStub_refund now (j_id job) (j_developer_id job) (x - ?c) d1 else Inr d1) = Inr d2"
    and 3: "(if ?dc d2 > 0 then bindE (?charge d2) (\<lambda>(_, d). Inr d) else Inr d2) = Inr d3"
    and 4: "d' = put_job (job\<lparr>j_cost_final := Some (?c + ?dc d2)\<rparr>) d3" by blast
  have 5: "FiatStub_refund now (j_id job) (j_developer_id job) (x - ?c) d1 = Inr d2"
    using 2 by (auto simp: FiatStub_refund_def split: if_splits)
  have 6: "if ?dc d2 > 0 then \<exists>grp. ?charge d2 = Inr (grp, d3) else d3 = d2"
    using 3 by (auto simp: bindE_Inr_iff split: if_splits)
  show ?thesis by (rule that [OF refl refl refl 1 5 6 4])
qed

lemma settle_job_refunded:
  assumes run: "settle_job now job w s d = Inr d'"
    and job: "j_escrow_amount job = Some x" "j_kind job \<noteq> jk_canary" "j_status job \<noteq> js_completed \<or> w = None"
  obtains d1 where "FiatStub_refund now (j_id job) (j_developer_id job) x d = Inr d1"
    "d' = put_job (job\<lparr>j_cost_final := Some 0\<rparr>) d1"
  using assms by (auto simp: settle_job_def elim!: bindE_InrE split: option.splits bool.splits)

lemma settle_job_skipped:
  assumes "j_escrow_amount job = None \<or> j_kind job = jk_canary"
  shows "settle_job now job w s d = Inr d"
  using assms by (auto simp: settle_job_def split: option.splits)

lemma settle_job_total:
  assumes s: "valid_settings s" and fits: "escrow_fits job"
  shows "\<exists>d'. settle_job now job w s d = Inr d'"
proof (cases "j_escrow_amount job = None \<or> j_kind job = jk_canary")
  case True
  then show ?thesis by (simp add: settle_job_skipped)
next
  case False
  then obtain x where x: "j_escrow_amount job = Some x" "j_kind job \<noteq> jk_canary" by auto
  with fits have "0 \<le> x" "on_grid 8 x" "x < 10 ^ 12" by (auto simp: escrow_fits_def)
  note b = final_cost_bounds [OF s this, of job]
  obtain d1 where d1: "FiatStub_settle now (j_id job) (j_developer_id job) (the w) (final_cost job s x)
      (protocol_fee (final_cost job s x) s) d = Inr d1" using fiat.settle_total [OF b(3,4)] by blast
  obtain d2 where d2: "FiatStub_refund now (j_id job) (j_developer_id job) (x - final_cost job s x) d1 = Inr d2"
    using fiat.refund_total by blast
  obtain d0 where d0: "FiatStub_refund now (j_id job) (j_developer_id job) x d = Inr d0"
    using fiat.refund_total by blast
  have post: "0 < dc \<Longrightarrow> \<exists>d' grp. post_transaction now [Dr la_developer dc (Some (j_developer_id job)), Cr la_protocol dc None]
      ''data_cost'' (Some (j_id job)) None e = Inr (grp, d')" for dc e by (intro post_transaction_ex) simp
  show ?thesis
  proof (cases "j_status job = js_completed \<and> w \<noteq> None")
    case True
    then obtain v where "w = Some v" "j_status job = js_completed" by auto
    then show ?thesis
      using x d1 d2 post
      by (auto simp: settle_job_def Let_def final_cost_def [symmetric] bindE_Inr_iff)
  next
    case False
    then show ?thesis using x d0 by (auto simp: settle_job_def split: option.splits bool.splits)
  qed
qed

text \<open>What a job's escrow amounts to; canaries and unescrowed jobs are not billed.\<close>

definition escrow_of :: "Job \<Rightarrow> money" where
  "escrow_of job = (if j_kind job = jk_canary then 0 else opt_get (j_escrow_amount job) 0)"

definition billed :: "Job \<Rightarrow> bool" where
  "billed job \<longleftrightarrow> j_kind job \<noteq> jk_canary \<and> j_escrow_amount job \<noteq> None"

lemma put_job_sel [simp]:
  "jobs (put_job j d) = tput j_id j (jobs d)" "ledger_entries (put_job j d) = ledger_entries d"
  "next_id (put_job j d) = next_id d" "job_attempts (put_job j d) = job_attempts d"
  "providers (put_job j d) = providers d" "disputes (put_job j d) = disputes d"
  "reputation_events (put_job j d) = reputation_events d" "developers (put_job j d) = developers d"
  "bandwidth_events (put_job j d) = bandwidth_events d"
  by (simp_all add: put_job_def)

lemma put_job_inv [simp]:
  "ledger_ok (put_job j d) = ledger_ok d" "held_ok (put_job j d) = held_ok d"
  "reputations_ok (put_job j d) = reputations_ok d"
  "account_balance acc ref (put_job j d) = account_balance acc ref d"
  "job_balance acc k (put_job j d) = job_balance acc k d"
proof -
  show b: "account_balance acc ref (put_job j d) = account_balance acc ref d" for acc ref
    by (rule balance_cong) simp
  show "job_balance acc k (put_job j d) = job_balance acc k d" by (rule job_balance_cong) simp
  show "ledger_ok (put_job j d) = ledger_ok d" by (simp add: ledger_ok_def verify_ledger_integrity_def)
  show "held_ok (put_job j d) = held_ok d" by (simp add: held_ok_def held_sum_def provider_stake_def b)
  show "reputations_ok (put_job j d) = reputations_ok d" by (simp add: reputations_ok_def)
qed

text \<open>A ledger movement that leaves stakes and held stakes alone keeps every invariant.\<close>

lemma ledger_only_held:
  assumes "ledger_only d d'" "held_ok d"
    and "\<And>pid. account_balance la_disputed (Some pid) d' = account_balance la_disputed (Some pid) d"
    and "\<And>pid. account_balance la_stake (Some pid) d' = account_balance la_stake (Some pid) d"
  shows "held_ok d'"
  using assms(3,4) by (intro held_ok_cong [OF assms(2)]) (simp_all add: ledger_onlyD [OF assms(1)])

lemma settle_job_ledger:
  assumes run: "settle_job now job w s d = Inr d'" and s: "valid_settings s" and fits: "escrow_fits job"
    and billed: "billed job"
  obtains e c where "ledger_only d e" "d' = put_job (job\<lparr>j_cost_final := Some c\<rparr>) e"
    "\<And>k. job_balance la_escrow k e = job_balance la_escrow k d - (if k = j_id job then escrow_of job else 0)"
    "\<And>acc ref. acc = la_stake \<or> acc = la_disputed \<Longrightarrow> account_balance acc ref e = account_balance acc ref d"
proof -
  obtain x where x: "j_escrow_amount job = Some x" "j_kind job \<noteq> jk_canary"
    using billed by (auto simp: billed_def)
  with fits have x0: "0 \<le> x" "on_grid 8 x" "x < 10 ^ 12" by (auto simp: escrow_fits_def)
  have ex: "escrow_of job = x" using x by (simp add: escrow_of_def opt_get_def)
  note b = final_cost_bounds [OF s x0, of job]
  show ?thesis
  proof (cases "j_status job = js_completed \<and> w \<noteq> None")
    case True
    then obtain v where w: "w = Some v" "j_status job = js_completed" by auto
    obtain d1 d2 d3 c f dc where
      c: "c = final_cost job s x" "f = protocol_fee c s" "dc = data_cost (job_bytes (j_id job) d2) s"
      and 1: "FiatStub_settle now (j_id job) (j_developer_id job) v c f d = Inr d1"
      and 2: "FiatStub_refund now (j_id job) (j_developer_id job) (x - c) d1 = Inr d2"
      and 3: "if dc > 0 then \<exists>grp. post_transaction now [Dr la_developer dc (Some (j_developer_id job)), Cr la_protocol dc None]
        ''data_cost'' (Some (j_id job)) None d2 = Inr (grp, d3) else d3 = d2"
      and 4: "d' = put_job (job\<lparr>j_cost_final := Some (c + dc)\<rparr>) d3"
      using settle_job_completed [OF run [unfolded w(1)] x w(2)] by metis
    have o3: "ledger_only d2 d3" using 3 by (auto split: if_splits intro: post_ledger_only)
    have bal3: "acc \<noteq> la_developer \<Longrightarrow> acc \<noteq> la_protocol \<Longrightarrow> account_balance acc ref d3 = account_balance acc ref d2
        \<and> job_balance acc k d3 = job_balance acc k d2" for acc ref k
      using 3 by (auto split: if_splits simp: post_transaction_balance post_transaction_job_balance)
    show ?thesis
    proof (rule that)
      show "ledger_only d d3"
        using fiat.settle_only [OF 1] fiat.refund_only [OF 2] o3 by (blast intro: ledger_only_trans)
      show "d' = put_job (job\<lparr>j_cost_final := Some (c + dc)\<rparr>) d3" by (rule 4)
      show "job_balance la_escrow k d3 = job_balance la_escrow k d - (if k = j_id job then escrow_of job else 0)" for k
        using fiat.settle_refund_job [OF b(3,4,2)] 1 2 bal3 [of la_escrow] by (simp add: ex c(1,2))
      show "account_balance acc ref d3 = account_balance acc ref d" if "acc = la_stake \<or> acc = la_disputed" for acc ref
        using that bal3 [of acc ref] fiat.refund_balance [OF 2, of acc ref]
          fiat.settle_balance [OF b(3,4) 1 [unfolded c(1,2)], of acc ref] by auto
    qed
  next
    case False
    then have "j_status job \<noteq> js_completed \<or> w = None" by blast
    from settle_job_refunded [OF run x this] obtain d1 where
      1: "FiatStub_refund now (j_id job) (j_developer_id job) x d = Inr d1"
        "d' = put_job (job\<lparr>j_cost_final := Some 0\<rparr>) d1" by blast
    show ?thesis
      using x0 by (intro that [of d1 0] fiat.refund_only [OF 1(1)] 1(2))
        (auto simp: fiat.refund_job [OF 1(1)] fiat.refund_balance [OF 1(1)] ex)
  qed
qed

text \<open>What a settled job moves: the escrow is released, the unused part returns to the developer, the winner is paid
  the cost less the fee, and the data cost is charged on top.\<close>

definition settled_postings :: "uuid \<Rightarrow> uuid \<Rightarrow> money \<Rightarrow> money \<Rightarrow> money \<Rightarrow> money \<Rightarrow> Posting list" where
  "settled_postings dev w x c fee dc =
     [Dr la_escrow x (Some dev), Cr la_developer (x - c) (Some dev), Cr la_provider (c - fee) (Some w), Cr la_protocol fee None,
      Dr la_developer dc (Some dev), Cr la_protocol dc None]"

lemma settle_job_balances:
  assumes run: "settle_job now job (Some w) s d = Inr d'"
    and job: "j_escrow_amount job = Some x" "j_kind job \<noteq> jk_canary" "j_status job = js_completed"
    and s: "valid_settings s" and fits: "escrow_fits job"
  obtains dc where "0 \<le> dc" "get_job (j_id job) d \<noteq> None \<Longrightarrow> get_job (j_id job) d' = Some (job\<lparr>j_cost_final := Some (final_cost job s x + dc)\<rparr>)"
     "\<And>acc ref. account_balance acc ref d' = account_balance acc ref d
       + effect acc ref (settled_postings (j_developer_id job) w x (final_cost job s x) (protocol_fee (final_cost job s x) s) dc)"
proof -
  let ?c = "final_cost job s x" and ?fee = "protocol_fee (final_cost job s x) s"
  have x: "0 \<le> x" "on_grid 8 x" "x < 10 ^ 12" using fits job(1) by (auto simp: escrow_fits_def)
  note b = final_cost_bounds [OF s x, of job]
  obtain d1 d2 d3 dc where dc: "dc = data_cost (job_bytes (j_id job) d2) s"
    and 1: "FiatStub_settle now (j_id job) (j_developer_id job) w ?c ?fee d = Inr d1"
    and 2: "FiatStub_refund now (j_id job) (j_developer_id job) (x - ?c) d1 = Inr d2"
    and 3: "if dc > 0 then \<exists>grp. post_transaction now [Dr la_developer dc (Some (j_developer_id job)), Cr la_protocol dc None]
        ''data_cost'' (Some (j_id job)) None d2 = Inr (grp, d3) else d3 = d2"
    and 4: "d' = put_job (job\<lparr>j_cost_final := Some (?c + dc)\<rparr>) d3"
    by (rule settle_job_completed [OF run job]) blast
  have dc0: "0 \<le> dc" using s by (simp add: dc valid_settings_def field_bounds_def)
  have "account_balance acc ref d3 = account_balance acc ref d2
     + effect acc ref [Dr la_developer dc (Some (j_developer_id job)), Cr la_protocol dc None]" for acc ref
    using 3 dc0 by (auto split: if_splits simp: post_transaction_balance)
  then have "account_balance acc ref d' = account_balance acc ref d
       + effect acc ref (settled_postings (j_developer_id job) w x ?c ?fee dc)" for acc ref
    using fiat.settle_balance [OF b(3,4) 1, of acc ref] fiat.refund_balance [OF 2, of acc ref] b(2)
    by (cases acc) (simp_all add: 4 settled_postings_def)
  moreover have "jobs d3 = jobs d"
    using ledger_onlyD(8) [OF fiat.settle_only [OF 1]] ledger_onlyD(8) [OF fiat.refund_only [OF 2]] 3
    by (auto split: if_splits simp: post_transaction_frame)
  ultimately show ?thesis using dc0 by (intro that [of dc]) (auto simp: 4 get_job_def tget_tput)
qed

section \<open>The coordinator's invariant\<close>

text \<open>The escrow a job still holds: all of it until its final cost is fixed, nothing afterwards.\<close>

definition outstanding :: "Job \<Rightarrow> money" where
  "outstanding job = (if j_cost_final job = None then escrow_of job else 0)"

definition jobs_ok :: "db \<Rightarrow> bool" where
  "jobs_ok d \<longleftrightarrow> distinct (map j_id (jobs d))
     \<and> (\<forall>j \<in> set (jobs d). j_id j < next_id d \<and> 1 \<le> j_redundancy j \<and> escrow_fits j
                          \<and> (j_cost_final j \<noteq> None \<longrightarrow> terminal j))"

definition escrow_ok :: "db \<Rightarrow> bool" where
  "escrow_ok d \<longleftrightarrow> (\<forall>j \<in> set (jobs d). job_balance la_escrow (j_id j) d = outstanding j)
     \<and> (\<forall>k. next_id d \<le> k \<longrightarrow> job_balance la_escrow k d = 0)"

definition coord_ok :: "db \<Rightarrow> bool" where
  "coord_ok d \<longleftrightarrow> ledger_ok d \<and> held_ok d \<and> reputations_ok d \<and> jobs_ok d \<and> escrow_ok d"

lemma coord_okD:
  assumes "coord_ok d"
  shows "ledger_ok d" "held_ok d" "reputations_ok d" "jobs_ok d" "escrow_ok d"
  using assms by (simp_all add: coord_ok_def)

text \<open>How one call may change a job row: its identity and terms are fixed, its status moves along legal
  transitions.\<close>

definition job_evolves :: "Job \<Rightarrow> Job \<Rightarrow> bool" where
  "job_evolves j j' \<longleftrightarrow> j_id j' = j_id j \<and> j_developer_id j' = j_developer_id j \<and> j_kind j' = j_kind j
     \<and> j_redundancy j' = j_redundancy j \<and> j_escrow_amount j' = j_escrow_amount j
     \<and> j_resource_spec j' = j_resource_spec j \<and> j_timeout_seconds j' = j_timeout_seconds j
     \<and> moves (j_status j) (j_status j')"

lemma job_evolves_refl [simp, intro]: "job_evolves j j"
  by (simp add: job_evolves_def)

lemma job_evolves_trans [trans]: "job_evolves i j \<Longrightarrow> job_evolves j k \<Longrightarrow> job_evolves i k"
  by (auto simp: job_evolves_def intro: moves_trans)

lemma transition_evolves: "transition now j t = Inr j' \<Longrightarrow> job_evolves j j'"
  by (auto simp: job_evolves_def transition_Inr transition_moves dest: transition_Inr)

lemma job_evolves_same:
  assumes "job_evolves j j'"
  shows "escrow_of j' = escrow_of j" "billed j' = billed j" "escrow_fits j' = escrow_fits j"
  using assms by (simp_all add: job_evolves_def escrow_of_def billed_def escrow_fits_def)

lemma get_job_SomeD: "get_job k d = Some j \<Longrightarrow> j \<in> set (jobs d) \<and> j_id j = k"
  by (auto simp: get_job_def dest: tget_SomeD)

lemma coord_ok_trust: "trust_only d d' \<Longrightarrow> coord_ok d \<Longrightarrow> coord_ok d'"
  unfolding trust_only_def coord_ok_def jobs_ok_def escrow_ok_def by fastforce

text \<open>Writing back a job row, together with a movement of that job's escrow.\<close>

lemma put_job_coord:
  assumes ok: "coord_ok d" and j: "get_job (j_id j') d = Some j" "job_evolves j j'"
    and cost: "j_cost_final j' \<noteq> None \<longrightarrow> terminal j'"
    and e: "ledger_ok e" "held_ok e" "reputations_ok e" "jobs e = jobs d" "next_id d \<le> next_id e"
    and bal: "\<And>k. job_balance la_escrow k e
                = job_balance la_escrow k d - (if k = j_id j then outstanding j - outstanding j' else 0)"
  shows "coord_ok (put_job j' e)"
proof -
  have jin: "j \<in> set (jobs d)" "j_id j' = j_id j" using get_job_SomeD [OF j(1)] by auto
  have dist: "distinct (map j_id (jobs d))" using ok by (simp add: coord_ok_def jobs_ok_def)
  have "\<forall>y \<in> set (tput j_id j' (jobs d)). j_id y < next_id e \<and> 1 \<le> j_redundancy y \<and> escrow_fits y
          \<and> (j_cost_final y \<noteq> None \<longrightarrow> terminal y)"
    using ok jin cost e(5) j(2) job_evolves_same(3) [OF j(2)]
    by (intro tput_ball) (fastforce simp: coord_ok_def jobs_ok_def job_evolves_def)+
  then have "jobs_ok (put_job j' e)" using dist e(4) by (simp add: jobs_ok_def)
  moreover have "job_balance la_escrow (j_id y) e = outstanding y" if "y \<in> set (tput j_id j' (jobs d))" for y
  proof (cases "j_id y = j_id j")
    case True
    then have "y = j'" using that jin by (auto simp: tput_def split: if_splits)
    then show ?thesis using ok jin bal by (simp add: coord_ok_def escrow_ok_def)
  next
    case False
    then have "y \<in> set (jobs d)" using that jin by (auto simp: tput_def split: if_splits)
    with False show ?thesis using ok bal by (simp add: coord_ok_def escrow_ok_def)
  qed
  moreover have "job_balance la_escrow k e = 0" if "next_id e \<le> k" for k
  proof -
    have "k \<noteq> j_id j" using that e(5) ok jin(1) by (fastforce simp: coord_ok_def jobs_ok_def)
    then show ?thesis using that e(5) ok bal by (simp add: coord_ok_def escrow_ok_def)
  qed
  ultimately show ?thesis using e by (simp add: coord_ok_def escrow_ok_def)
qed

lemma put_job_coord_same:
  assumes "coord_ok d" "get_job (j_id j') d = Some j" "job_evolves j j'" "j_cost_final j' = j_cost_final j"
    and "j_cost_final j = None \<or> terminal j'"
  shows "coord_ok (put_job j' d)"
  using assms job_evolves_same(1) [OF assms(3)]
  by (intro put_job_coord [OF assms(1-3)]) (auto simp: coord_ok_def outstanding_def)

end
