(* ===== verification/Finalization.thy ===== *)
theory Finalization
  imports Results
begin

text \<open>
  Correctness of \<open>finalize\<close>, \<open>maybe_finalize\<close> and \<open>record_result\<close>: a finalized job is in the terminal
  state its quorum dictates, its escrow has left the escrow account in full, and the coordinator's
  invariant is kept.
\<close>

lemma finalize_Inr:
  assumes "finalize now job s d = Inr d'" "\<not> terminal job"
  obtains oc job1 w d1 where
    "quorum_of (map attempt_result (finished_attempts (j_id job) d)) (j_redundancy job) = Inr oc"
    "if qo_reached oc
     then (\<exists>a \<in> set (finished_attempts (j_id job) d). at_provider_id a \<in> set (qo_agreers oc) \<and> at_outcome a = ao_completed
            \<and> w = at_provider_id a
            \<and> transition now (job\<lparr>j_result_ref := at_result_ref a, j_proof := at_proof a\<rparr>) js_completed = Inr job1)
     else w = None \<and> transition now job
            (if finished_attempts (j_id job) d \<noteq> [] \<and> list_all (\<lambda>a. at_outcome a = ao_timeout) (finished_attempts (j_id job) d)
             then js_timeout else js_failed) = Inr job1"
    "foldE (apply_attempt now job1 oc s (map attempt_result (finished_attempts (j_id job) d)))
       (finished_attempts (j_id job) d) (put_job job1 d) = Inr d1"
    "settle_job now job1 w s d1 = Inr d'"
proof -
  let ?as = "finished_attempts (j_id job) d"
  let ?rs = "map attempt_result ?as"
  from assms obtain oc where oc: "quorum_of ?rs (j_redundancy job) = Inr oc"
    by (auto simp: finalize_def Let_def simp del: TERMINAL_iff elim: bindE_InrE)
  let ?final = "if qo_reached oc
                   then
                     (case find (\<lambda>a. at_provider_id a \<in> set (qo_agreers oc) \<and> at_outcome a = ao_completed) ?as of
                        None \<Rightarrow> Inl StopIteration
                      | Some winner \<Rightarrow>
                          bindE (transition now (job\<lparr>j_result_ref := at_result_ref winner, j_proof := at_proof winner\<rparr>) js_completed)
                            (\<lambda>job. Inr (job, at_provider_id winner)))
                   else bindE (transition now job (if ?as \<noteq> [] \<and> list_all (\<lambda>a. at_outcome a = ao_timeout) ?as
                                                   then js_timeout else js_failed)) (\<lambda>job. Inr (job, None))"
  from assms oc have "bindE ?final (\<lambda>(job, winner).
      bindE (foldE (apply_attempt now job oc s ?rs) ?as (put_job job d)) (settle_job now job winner s)) = Inr d'"
    unfolding finalize_def Let_def by (simp only: if_False bindE_simps)
  then obtain job1 w where jw: "?final = Inr (job1, w)"
    and rest: "bindE (foldE (apply_attempt now job1 oc s ?rs) ?as (put_job job1 d)) (settle_job now job1 w s) = Inr d'"
    by (rule bindE_InrE) (auto split: prod.splits)
  from rest obtain d1 where d1: "foldE (apply_attempt now job1 oc s ?rs) ?as (put_job job1 d) = Inr d1"
    "settle_job now job1 w s d1 = Inr d'" by (rule bindE_InrE)
  have find: "find P xs = Some a \<Longrightarrow> a \<in> set xs \<and> P a" for P :: "JobAttempt \<Rightarrow> bool" and xs a
    by (auto simp: find_Some_iff in_set_conv_nth)
  have "if qo_reached oc
     then (\<exists>a \<in> set ?as. at_provider_id a \<in> set (qo_agreers oc) \<and> at_outcome a = ao_completed \<and> w = at_provider_id a
            \<and> transition now (job\<lparr>j_result_ref := at_result_ref a, j_proof := at_proof a\<rparr>) js_completed = Inr job1)
     else w = None \<and> transition now job (if ?as \<noteq> [] \<and> list_all (\<lambda>a. at_outcome a = ao_timeout) ?as
             then js_timeout else js_failed) = Inr job1"
    using jw by (cases "qo_reached oc") (auto simp: bindE_Inr_iff split: option.splits dest!: find)
  then show ?thesis by (rule that [OF oc _ d1])
qed

lemma finalize_terminal: "terminal job \<Longrightarrow> finalize now job s d = Inr d"
  by (simp add: finalize_def)

text \<open>The job row a finalization leaves behind.\<close>

definition finalized :: "Job \<Rightarrow> Job \<Rightarrow> bool" where
  "finalized job job' \<longleftrightarrow> job_evolves job job' \<and> terminal job' \<and> (billed job \<longrightarrow> j_cost_final job' \<noteq> None)"

lemma result_fields_evolve: "job_evolves j (j\<lparr>j_result_ref := x, j_proof := y\<rparr>)"
  by (simp add: job_evolves_def)

lemma tput_tput: "key r' = key r \<Longrightarrow> tput key r' (tput key r xs) = tput key r' xs"
  by (induction xs) auto

lemma finalize_coord:
  assumes fin: "finalize now job s d = Inr d'" and live: "\<not> terminal job"
    and s: "valid_settings s" and ok: "coord_ok d" and job: "get_job (j_id job) d = Some job"
  obtains job' where "coord_ok d'" "jobs d' = tput j_id job' (jobs d)" "finalized job job'"
    "job_attempts d' = job_attempts d" "next_id d \<le> next_id d'"
proof -
  let ?as = "finished_attempts (j_id job) d"
  obtain oc job1 w d1 where
    "quorum_of (map attempt_result ?as) (j_redundancy job) = Inr oc"
    and e: "if qo_reached oc
       then (\<exists>a \<in> set ?as. at_provider_id a \<in> set (qo_agreers oc) \<and> at_outcome a = ao_completed \<and> w = at_provider_id a
              \<and> transition now (job\<lparr>j_result_ref := at_result_ref a, j_proof := at_proof a\<rparr>) js_completed = Inr job1)
       else w = None \<and> transition now job (if ?as \<noteq> [] \<and> list_all (\<lambda>a. at_outcome a = ao_timeout) ?as
               then js_timeout else js_failed) = Inr job1"
    and loop: "foldE (apply_attempt now job1 oc s (map attempt_result ?as)) ?as (put_job job1 d) = Inr d1"
    and settle: "settle_job now job1 w s d1 = Inr d'"
    by (rule finalize_Inr [OF fin live])
  have ev: "job_evolves job job1" and term1: "terminal job1" and cost1: "j_cost_final job1 = j_cost_final job"
    using e by (auto split: if_splits dest: transition_evolves transition_Inr
        intro: job_evolves_trans [OF result_fields_evolve])
  have cost: "j_cost_final job = None"
    using ok live get_job_SomeD [OF job] by (auto simp: coord_ok_def jobs_ok_def)
  have id1: "j_id job1 = j_id job" using ev by (simp add: job_evolves_def)
  have ok1: "coord_ok (put_job job1 d)"
    by (rule put_job_coord_same [OF ok _ ev cost1]) (simp_all add: id1 job cost)
  have trust: "trust_only (put_job job1 d) d1" by (rule reward_loop_trust [OF loop s])
  have ok2: "coord_ok d1" by (rule coord_ok_trust [OF trust ok1])
  have jobs1: "jobs d1 = tput j_id job1 (jobs d)" and att1: "job_attempts d1 = job_attempts d"
    and next1: "next_id d \<le> next_id d1" using trust by (simp_all add: trust_only_def)
  have get1: "get_job (j_id job1) d1 = Some job1"
    using job id1 by (simp add: get_job_def jobs1 tget_tput)
  have fits: "escrow_fits job1"
    using ok2 get_job_SomeD [OF get1] by (simp add: coord_ok_def jobs_ok_def)
  show ?thesis
  proof (cases "billed job1")
    case False
    then have "d' = d1" using settle settle_job_skipped [of job1 now w s d1] by (auto simp: billed_def)
    then show ?thesis
      using ok2 jobs1 att1 next1 ev term1 False job_evolves_same(2) [OF ev]
      by (intro that [of job1]) (auto simp: finalized_def)
  next
    case True
    obtain e c where e: "ledger_only d1 e" "d' = put_job (job1\<lparr>j_cost_final := Some c\<rparr>) e"
      and esc: "\<And>k. job_balance la_escrow k e = job_balance la_escrow k d1 - (if k = j_id job1 then escrow_of job1 else 0)"
      and st: "\<And>acc ref. acc = la_stake \<or> acc = la_disputed \<Longrightarrow> account_balance acc ref e = account_balance acc ref d1"
      by (rule settle_job_ledger [OF settle s fits True], rule that)
    let ?job2 = "job1\<lparr>j_cost_final := Some c\<rparr>"
    have "job_evolves job1 ?job2" by (simp add: job_evolves_def)
    moreover have "held_ok e" using st ok2 by (intro ledger_only_held [OF e(1)]) (auto simp: coord_ok_def)
    moreover have "ledger_ok e" "reputations_ok e" "jobs e = jobs d1" "next_id d1 \<le> next_id e" "job_attempts e = job_attempts d1"
      using ok2 by (auto simp: coord_ok_def reputations_ok_def ledger_onlyD [OF e(1)])
    moreover have "outstanding job1 - outstanding ?job2 = escrow_of job1"
      using cost cost1 by (simp add: outstanding_def)
    ultimately have "coord_ok (put_job ?job2 e)"
      using ok2 get1 term1 esc by (intro put_job_coord [of d1 ?job2 job1 e]) auto
    moreover have "finalized job ?job2"
      using ev term1 by (simp add: finalized_def job_evolves_def)
    moreover have "jobs d' = tput j_id ?job2 (jobs d)"
      using \<open>jobs e = jobs d1\<close> by (simp add: e(2) jobs1 tput_tput)
    ultimately show ?thesis
      using e(2) \<open>job_attempts e = job_attempts d1\<close> \<open>next_id d1 \<le> next_id e\<close> att1 next1
      by (intro that [of ?job2]) auto
  qed
qed

lemma finalize_balances:
  assumes fin: "finalize now job s d = Inr d'" and live: "\<not> terminal job"
    and s: "valid_settings s" and ok: "coord_ok d" and job: "get_job (j_id job) d = Some job"
    and x: "j_escrow_amount job = Some x" "j_kind job \<noteq> jk_canary"
  shows "(\<exists>w job' c dc. get_job (j_id job) d' = Some job' \<and> j_status job' = js_completed
       \<and> Some w \<in> at_provider_id ` set (finished_attempts (j_id job) d)
       \<and> c = min (compute_cost (j_resource_spec job) (duration_seconds job') s) x \<and> j_cost_final job' = Some (c + dc)
       \<and> 0 \<le> protocol_fee c s \<and> protocol_fee c s \<le> c \<and> 0 \<le> dc
       \<and> (\<forall>acc ref. acc \<noteq> la_stake \<longrightarrow> acc \<noteq> la_disputed \<longrightarrow> account_balance acc ref d' = account_balance acc ref d
            + effect acc ref (settled_postings (j_developer_id job) w x c (protocol_fee c s) dc)))
    \<or> (\<exists>job'. get_job (j_id job) d' = Some job' \<and> terminal job' \<and> j_cost_final job' = Some 0
       \<and> (\<forall>acc ref. acc \<noteq> la_stake \<longrightarrow> acc \<noteq> la_disputed \<longrightarrow> account_balance acc ref d' = account_balance acc ref d
            + effect acc ref [Dr la_escrow x (Some (j_developer_id job)), Cr la_developer x (Some (j_developer_id job))]))"
proof -
  let ?as = "finished_attempts (j_id job) d"
  obtain oc job1 w d1 where
    "quorum_of (map attempt_result ?as) (j_redundancy job) = Inr oc"
    and e: "if qo_reached oc
       then (\<exists>a \<in> set ?as. at_provider_id a \<in> set (qo_agreers oc) \<and> at_outcome a = ao_completed \<and> w = at_provider_id a
              \<and> transition now (job\<lparr>j_result_ref := at_result_ref a, j_proof := at_proof a\<rparr>) js_completed = Inr job1)
       else w = None \<and> transition now job (if ?as \<noteq> [] \<and> list_all (\<lambda>a. at_outcome a = ao_timeout) ?as
               then js_timeout else js_failed) = Inr job1"
    and loop: "foldE (apply_attempt now job1 oc s (map attempt_result ?as)) ?as (put_job job1 d) = Inr d1"
    and settle: "settle_job now job1 w s d1 = Inr d'"
    by (rule finalize_Inr [OF fin live])
  have ev: "job_evolves job job1" and term1: "terminal job1" and spec: "j_resource_spec job1 = j_resource_spec job"
    using e by (auto split: if_splits dest: transition_evolves transition_Inr
        intro: job_evolves_trans [OF result_fields_evolve])
  have same: "j_id job1 = j_id job" "j_developer_id job1 = j_developer_id job" "j_escrow_amount job1 = Some x" "j_kind job1 \<noteq> jk_canary"
    using ev x by (auto simp: job_evolves_def)
  have trust: "trust_only (put_job job1 d) d1" by (rule reward_loop_trust [OF loop s])
  have bal: "account_balance acc ref d1 = account_balance acc ref d" if "acc \<noteq> la_stake" "acc \<noteq> la_disputed" for acc ref
    using trust that by (simp add: trust_only_def)
  have get1: "get_job (j_id job1) d1 \<noteq> None"
    using trust job same(1) by (simp add: trust_only_def get_job_def tget_tput)
  have "escrow_fits job" using ok get_job_SomeD [OF job] by (auto simp: coord_ok_def jobs_ok_def)
  then have fits: "escrow_fits job1" and x0: "0 \<le> x" "on_grid 8 x" "x < 10 ^ 12"
    using x same by (auto simp: escrow_fits_def)
  show ?thesis
  proof (cases "j_status job1 = js_completed \<and> w \<noteq> None")
    case True
    then obtain v where v: "w = Some v" "j_status job1 = js_completed" by blast
    then have w: "w \<in> at_provider_id ` set ?as" using e by (auto split: if_splits)
    define c where "c = final_cost job1 s x"
    have b: "0 \<le> protocol_fee c s" "protocol_fee c s \<le> c"
      using final_cost_bounds [OF s x0, of job1] by (simp_all add: c_def)
    obtain dc where dc: "0 \<le> dc" "get_job (j_id job1) d' = Some (job1\<lparr>j_cost_final := Some (c + dc)\<rparr>)"
      "\<And>acc ref. account_balance acc ref d' = account_balance acc ref d1
       + effect acc ref (settled_postings (j_developer_id job1) v x c (protocol_fee c s) dc)"
      using settle_job_balances [OF settle [unfolded v(1)] same(3,4) v(2) s fits, folded c_def] get1 by metis
    have t: "duration_seconds (job1\<lparr>j_cost_final := y\<rparr>) = duration_seconds job1" for y
      by (simp add: duration_seconds_def split: option.split)
    have c: "c = min (compute_cost (j_resource_spec job) (duration_seconds (job1\<lparr>j_cost_final := Some (c + dc)\<rparr>)) s) x"
      unfolding t by (simp add: c_def final_cost_def spec)
    show ?thesis
      using b dc v w same bal
      by (intro disjI1 exI [of _ v] exI [of _ "job1\<lparr>j_cost_final := Some (c + dc)\<rparr>"] exI [of _ c] exI [of _ dc] conjI c) simp_all
  next
    case False
    then have "j_status job1 \<noteq> js_completed \<or> w = None" by blast
    then obtain d2 where 2: "FiatStub_refund now (j_id job1) (j_developer_id job1) x d1 = Inr d2"
      "d' = put_job (job1\<lparr>j_cost_final := Some 0\<rparr>) d2"
      using settle_job_refunded [OF settle same(3,4)] by metis
    have "get_job (j_id job) d' = Some (job1\<lparr>j_cost_final := Some 0\<rparr>)"
      using get1 same(1) ledger_onlyD(8) [OF fiat.refund_only [OF 2(1)]] by (simp add: 2(2) get_job_def tget_tput)
    then show ?thesis
      using term1 x0 same bal fiat.refund_balance [OF 2(1)] by (intro disjI2) (simp add: 2(2))
  qed
qed

section \<open>Recording a result\<close>

lemma put_attempt_sel [simp]:
  "jobs (put_attempt a d) = jobs d" "ledger_entries (put_attempt a d) = ledger_entries d"
  "next_id (put_attempt a d) = next_id d" "providers (put_attempt a d) = providers d"
  "disputes (put_attempt a d) = disputes d" "reputation_events (put_attempt a d) = reputation_events d"
  "job_attempts (put_attempt a d) = tput at_id a (job_attempts d)"
  by (simp_all add: put_attempt_def)

text \<open>The invariant reads the ledger, the disputes, the scores, the job rows and the counter, nothing else.\<close>

lemma coord_ok_cong:
  assumes "ledger_entries d' = ledger_entries d" "disputes d' = disputes d" "jobs d' = jobs d"
    "next_id d \<le> next_id d'"
    "\<And>p. p \<in> set (providers d') \<Longrightarrow> \<exists>q \<in> set (providers d). pr_reputation p = pr_reputation q"
    and ok: "coord_ok d"
  shows "coord_ok d'"
proof -
  have "ledger_ok d'" "held_ok d'"
    using ok assms(1-4) by (auto simp: coord_ok_def intro: ledger_ok_cong [of d' d] held_ok_same_ledger [of d d'])
  moreover have "reputations_ok d'" using ok assms(5) by (fastforce simp: coord_ok_def reputations_ok_def)
  moreover have "jobs_ok d'" using ok assms(3,4) by (fastforce simp: coord_ok_def jobs_ok_def)
  moreover have "escrow_ok d'"
    using ok assms(3,4) job_balance_cong [OF assms(1)] by (fastforce simp: coord_ok_def escrow_ok_def)
  ultimately show ?thesis by (simp add: coord_ok_def)
qed

lemma put_attempt_coord [simp]: "coord_ok d \<Longrightarrow> coord_ok (put_attempt a d)"
  by (rule coord_ok_cong [of _ d]) auto

text \<open>What a call does to the table of jobs: at most one row changes, and it evolves.\<close>

definition job_updated :: "Job \<Rightarrow> db \<Rightarrow> db \<Rightarrow> bool" where
  "job_updated job d d' \<longleftrightarrow> (\<exists>job'. jobs d' = tput j_id job' (jobs d) \<and> job_evolves job job'
     \<and> (terminal job' \<and> billed job \<longrightarrow> j_cost_final job' \<noteq> None))"

lemma tput_self: "distinct (map key xs) \<Longrightarrow> tget key (key r) xs = Some r \<Longrightarrow> tput key r xs = xs"
proof (induction xs)
  case (Cons x xs)
  then show ?case by (auto simp: tput_absent split: if_splits)
qed simp

lemma put_job_self: "coord_ok d \<Longrightarrow> get_job (j_id j) d = Some j \<Longrightarrow> jobs d = tput j_id j (jobs d)"
  by (simp add: tput_self coord_ok_def jobs_ok_def get_job_def)

lemma maybe_finalize_coord:
  assumes "maybe_finalize now job s d = Inr d'" "valid_settings s" "coord_ok d" "get_job (j_id job) d = Some job"
    and "\<not> terminal job"
  shows "coord_ok d' \<and> job_updated job d d' \<and> job_attempts d' = job_attempts d \<and> next_id d \<le> next_id d'"
proof (cases "int (length (finished_attempts (j_id job) d)) \<ge> j_redundancy job")
  case True
  then have "finalize now job s d = Inr d'" using assms(1,5) by (auto simp: maybe_finalize_def)
  from finalize_coord [OF this assms(5,2,3,4)] show ?thesis
    by (metis finalized_def job_updated_def)
next
  case False
  then have "d' = d" using assms(1,5) by (auto simp: maybe_finalize_def)
  with assms put_job_self [OF assms(3,4)] show ?thesis by (auto simp: job_updated_def)
qed

lemma get_put_job: "get_job (j_id j) d \<noteq> None \<Longrightarrow> get_job (j_id j) (put_job j d) = Some j"
  by (simp add: get_job_def tget_tput)

lemma get_job_put_attempt [simp]: "get_job k (put_attempt a d) = get_job k d"
  by (simp add: get_job_def)

lemma record_result_coord:
  assumes rr: "record_result now job pid req s d = Inr (st, d')" and s: "valid_settings s" and ok: "coord_ok d"
    and job: "get_job (j_id job) d = Some job" and live: "j_status job = js_assigned \<or> j_status job = js_running"
  shows "coord_ok d'" and "job_updated job d d'" and "next_id d \<le> next_id d'"
    and "map_option j_status (get_job (j_id job) d') = st"
proof -
  obtain job1 where 1: "(if j_status job = js_assigned then transition now job js_running else Inr job) = Inr job1"
    and rest: "(let d = put_job job1 d; verdict = verify job1 req;
           d = (case attempt_for (j_id job1) pid d of
                  None \<Rightarrow> d
                | Some attempt \<Rightarrow>
                    put_attempt (attempt\<lparr>at_result_ref := rq_result_ref req, at_proof := Some (rq_proof req),
                                         at_finished_at := Some now,
                                         at_outcome := attempt_outcome req (vd_valid verdict)\<rparr>) d)
       in bindE (maybe_finalize now job1 s d) (\<lambda>d. Inr (map_option j_status (get_job (j_id job1) d), d))) = Inr (st, d')"
    using rr unfolding record_result_def by (rule bindE_InrE)
  have ev: "job_evolves job job1" and run: "j_status job1 = js_running" and cost1: "j_cost_final job1 = j_cost_final job"
    using 1 live by (auto split: if_splits dest: transition_evolves transition_Inr)
  have id1: "j_id job1 = j_id job" using ev by (simp add: job_evolves_def)
  have cost: "j_cost_final job = None"
    using ok live get_job_SomeD [OF job] by (auto simp: coord_ok_def jobs_ok_def)
  have ok1: "coord_ok (put_job job1 d)"
    by (rule put_job_coord_same [OF ok _ ev cost1]) (simp_all add: id1 job cost)
  have get1: "get_job (j_id job1) (put_job job1 d) = Some job1" using job by (intro get_put_job) (simp add: id1)
  from rest obtain e where e: "e = put_job job1 d \<or> (\<exists>a. e = put_attempt a (put_job job1 d))"
    and fin: "maybe_finalize now job1 s e = Inr d'" and st: "st = map_option j_status (get_job (j_id job1) d')"
    by (auto simp: Let_def bindE_Inr_iff split: option.splits)
  have e': "coord_ok e" "get_job (j_id job1) e = Some job1" "jobs e = tput j_id job1 (jobs d)" "next_id e = next_id d"
    using e ok1 get1 by auto
  have fin': "coord_ok d' \<and> job_updated job1 e d' \<and> job_attempts d' = job_attempts e \<and> next_id e \<le> next_id d'"
    by (rule maybe_finalize_coord [OF fin s e'(1,2)]) (simp add: run)
  then obtain job2 where j2: "jobs d' = tput j_id job2 (jobs e)" "job_evolves job1 job2"
    "terminal job2 \<and> billed job1 \<longrightarrow> j_cost_final job2 \<noteq> None" by (auto simp: job_updated_def)
  have "j_id job2 = j_id job1" using j2(2) by (simp add: job_evolves_def)
  then have "jobs d' = tput j_id job2 (jobs d)" using j2(1) e'(3) by (simp add: tput_tput)
  then show "job_updated job d d'"
    using j2 job_evolves_trans [OF ev j2(2)] job_evolves_same(2) [OF ev] unfolding job_updated_def by metis
  show "coord_ok d'" "next_id d \<le> next_id d'" using fin' e'(4) by auto
  show "map_option j_status (get_job (j_id job) d') = st" by (simp add: st id1)
qed

section \<open>The decision and its totality\<close>

lemma agreers_nonempty:
  assumes "1 \<le> r" "qo_reached (evaluate_quorum (map norm_result (map attempt_result as)) r)"
  shows "\<exists>a \<in> set as. at_provider_id a \<in> set (qo_agreers (evaluate_quorum (map norm_result (map attempt_result as)) r))
           \<and> at_outcome a = ao_completed"
  using assms(1)
proof (cases rule: quorum_cases [of r "map norm_result (map attempt_result as)"])
  case (reached h)
  have "0 < r div 2 + 1" using assms(1) by simp
  with reached(3) have "0 < votes_for (map norm_result (map attempt_result as)) h" by linarith
  then obtain x where "x \<in> set (map norm_result (map attempt_result as))" "ar_succeeded x" "ar_output_hash x = Some h"
    by (auto simp: votes_for_def filter_empty_conv)
  then obtain a where "a \<in> set as" "ar_succeeded (norm_result (attempt_result a))"
      "ar_output_hash (norm_result (attempt_result a)) = Some h" by auto
  then show ?thesis using reached(5)
    by (intro bexI [of _ a]) (auto simp: norm_result_def attempt_result_def intro!: image_eqI)
next
  case undecided
  then show ?thesis using assms(2) by (simp add: not_reached_def)
qed

lemma quorum_of_Inr:
  "quorum_of rs r = Inr oc \<longleftrightarrow> list_all hashable (usable_hashes rs) \<and> oc = evaluate_quorum (map norm_result rs) r"
  by (auto simp: quorum_of_def)

text \<open>A running job whose votes can be compared is always finalized.\<close>

lemma finalize_total:
  assumes s: "valid_settings s" and run: "j_status job = js_running" "1 \<le> j_redundancy job" "escrow_fits job"
    and h: "list_all hashable (usable_hashes (map attempt_result (finished_attempts (j_id job) d)))"
  shows "\<exists>d'. finalize now job s d = Inr d'"
proof -
  let ?as = "finished_attempts (j_id job) d"
  let ?oc = "evaluate_quorum (map norm_result (map attempt_result ?as)) (j_redundancy job)"
  have q: "quorum_of (map attempt_result ?as) (j_redundancy job) = Inr ?oc" using h by (simp add: quorum_of_Inr)
  have tr: "t \<in> set TERMINAL_STATES \<Longrightarrow> \<exists>j'. transition now (job\<lparr>j_result_ref := x, j_proof := y\<rparr>) t = Inr j'"
    "t \<in> set TERMINAL_STATES \<Longrightarrow> \<exists>j'. transition now job t = Inr j'" for t x y
    using run(1) by (auto simp: transition_legal [symmetric] can_transition_def)
  have rest: "\<exists>d'. bindE (foldE (apply_attempt now job1 ?oc s (map attempt_result ?as)) ?as (put_job job1 d)) (settle_job now job1 w s) = Inr d'"
    if fit: "escrow_fits job1" for job1 w
  proof -
    obtain d1 where "foldE (apply_attempt now job1 ?oc s (map attempt_result ?as)) ?as (put_job job1 d) = Inr d1"
      using foldE_total [of "apply_attempt now job1 ?oc s (map attempt_result ?as)", OF apply_attempt_total] by blast
    moreover obtain d' where "settle_job now job1 w s d1 = Inr d'" using settle_job_total [OF s fit] by blast
    ultimately show ?thesis by simp
  qed
  have fits: "transition now (job\<lparr>j_result_ref := x, j_proof := y\<rparr>) t = Inr j' \<Longrightarrow> escrow_fits j'"
    "transition now job t = Inr j' \<Longrightarrow> escrow_fits j'" for x y t j'
    using run(3) by (auto simp: escrow_fits_def dest!: transition_Inr(7))
  show ?thesis
  proof (cases "qo_reached ?oc")
    case True
    from agreers_nonempty [OF run(2) this] obtain a where
      "find (\<lambda>a. at_provider_id a \<in> set (qo_agreers ?oc) \<and> at_outcome a = ao_completed) ?as = Some a"
      by (metis (mono_tags, lifting) find_None_iff option.exhaust)
    moreover obtain j' where j': "transition now (job\<lparr>j_result_ref := at_result_ref a, j_proof := at_proof a\<rparr>) js_completed = Inr j'"
      using tr(1) [of js_completed] by (auto simp del: TERMINAL_iff simp: TERMINAL_STATES_def)
    moreover obtain d' where "bindE (foldE (apply_attempt now j' ?oc s (map attempt_result ?as)) ?as (put_job j' d))
        (settle_job now j' (at_provider_id a) s) = Inr d'" using rest [OF fits(1) [OF j']] by blast
    ultimately show ?thesis using True q run(1) unfolding finalize_def Let_def by simp
  next
    case False
    let ?t = "if ?as \<noteq> [] \<and> list_all (\<lambda>a. at_outcome a = ao_timeout) ?as then js_timeout else js_failed"
    have "?t \<in> set TERMINAL_STATES" by simp
    then obtain j' where j': "transition now job ?t = Inr j'" using tr(2) by blast
    moreover obtain d' where "bindE (foldE (apply_attempt now j' ?oc s (map attempt_result ?as)) ?as (put_job j' d))
        (settle_job now j' None s) = Inr d'" using rest [OF fits(2) [OF j']] by blast
    ultimately show ?thesis using False q run(1) unfolding finalize_def Let_def by simp
  qed
qed

end
