(* ===== verification/Matcher.thy ===== *)
theory Matcher
  imports Ledger Pricing "HOL-Library.Product_Lexorder"
begin

text \<open>
  Provider matching, \<open>api/app/matcher.py\<close>.  The locale \<open>matcher\<close> is the protocol both policies share: the
  candidates are distinct known providers, each of them eligible for the job.  The locale
  \<open>staked_matcher\<close> extends it with what the production policy adds, the stake gate and the reputation
  floor of high-value jobs.  Both policies are interpreted.  Rows that tie in the \<open>ORDER BY\<close> keep their
  table order; the unique constraint on cached artifacts makes the warm-cache join a membership test.
\<close>

definition ACTIVE_STATES :: "JobStatus list" where
  "ACTIVE_STATES = [js_assigned, js_running]"

text \<open>Jobs that occupy a provider's slots.\<close>

definition load :: "uuid \<Rightarrow> db \<Rightarrow> nat" where
  "load pid d =
     length (filter (\<lambda>j. j_status j \<in> set ACTIVE_STATES \<and> j_assigned_provider_id j = Some pid) (jobs d))"

definition has_artifact :: "Job \<Rightarrow> uuid \<Rightarrow> db \<Rightarrow> int" where
  "has_artifact job pid d =
     (case j_input_ref job of
        None \<Rightarrow> 0
      | Some digest \<Rightarrow>
          if digest = [] then 0
          else if \<exists>a \<in> set (provider_artifacts d). pa_provider_id a = pid \<and> pa_digest a = digest then 1 else 0)"

text \<open>The \<open>WHERE\<close> clause of the capability query.\<close>

definition capable :: "instant \<Rightarrow> Settings \<Rightarrow> Job \<Rightarrow> db \<Rightarrow> Provider \<Rightarrow> bool" where
  "capable now settings job d p =
     (let spec = j_resource_spec job;
          need_cpu = opt_get (rs_cpu_cores spec) 1;
          need_mem = opt_get (rs_memory_mb spec) 0;
          need_gpu = opt_get (rs_gpu spec) False;
          need_vram = opt_get (rs_gpu_vram_mb spec) 0;
          cutoff = now - seconds (connection_timeout_seconds settings)
      in pr_enabled p \<and> \<not> pr_degraded p \<and> pr_cpu_cores p \<ge> need_cpu \<and> pr_memory_mb p \<ge> need_mem
         \<and> int (load (pr_id p) d) < pr_max_concurrent p
         \<and> (case pr_last_seen p of None \<Rightarrow> True | Some t \<Rightarrow> t \<ge> cutoff)
         \<and> (need_gpu \<longrightarrow> pr_gpu_model p \<noteq> None \<and> pr_gpu_vram_mb p \<ge> need_vram)
         \<and> (j_data_tier job = dt_confidential_tee \<longrightarrow> pr_tee_attested p))"

definition capability_query :: "instant \<Rightarrow> Settings \<Rightarrow> Job \<Rightarrow> db \<Rightarrow> Provider list" where
  "capability_query now settings job d = filter (capable now settings job d) (providers d)"

definition CapabilityMatcher_candidates :: "instant \<Rightarrow> Settings \<Rightarrow> Job \<Rightarrow> db \<Rightarrow> Provider list" where
  "CapabilityMatcher_candidates now settings job d =
     sort_key (\<lambda>p. (- has_artifact job (pr_id p) d, load (pr_id p) d, - pr_reputation p))
       (capability_query now settings job d)"

definition ReputationMatcher_candidates :: "instant \<Rightarrow> Settings \<Rightarrow> Job \<Rightarrow> db \<Rightarrow> Provider list" where
  "ReputationMatcher_candidates now settings job d =
     (let query = capability_query now settings job d;
          query = (if j_is_high_value job
                   then filter (\<lambda>p. pr_reputation p \<ge> high_value_min_reputation settings) query else query);
          rows = sort_key (\<lambda>p. (- has_artifact job (pr_id p) d, - pr_reputation p, load (pr_id p) d)) query
      in filter (\<lambda>p. provider_stake (pr_id p) d \<ge> of_int (min_provider_stake settings)) rows)"

definition select_first :: "Provider list \<Rightarrow> Provider option" where
  "select_first found = (case found of [] \<Rightarrow> None | p # _ \<Rightarrow> Some p)"

section \<open>The protocol\<close>

locale matcher =
  fixes candidates :: "instant \<Rightarrow> Settings \<Rightarrow> Job \<Rightarrow> db \<Rightarrow> Provider list"
  assumes known: "p \<in> set (candidates now s job d) \<Longrightarrow> p \<in> set (providers d)"
    and eligible: "p \<in> set (candidates now s job d) \<Longrightarrow> capable now s job d p"
    and no_repeats: "distinct (map pr_id (providers d)) \<Longrightarrow> distinct (map pr_id (candidates now s job d))"
begin

text \<open>The best \<open>n\<close> candidates are distinct machines with a free slot, reachable and in working order.\<close>

lemma take_candidates:
  assumes "p \<in> set (take n (candidates now s job d))"
  shows "p \<in> set (providers d)" "pr_enabled p" "\<not> pr_degraded p" "int (load (pr_id p) d) < pr_max_concurrent p"
    "j_data_tier job = dt_confidential_tee \<Longrightarrow> pr_tee_attested p"
  using known [of p] eligible [of p] in_set_takeD [OF assms] by (auto simp: capable_def Let_def)

lemma take_distinct: "distinct (map pr_id (providers d)) \<Longrightarrow> distinct (map pr_id (take n (candidates now s job d)))"
  using no_repeats by (metis distinct_take take_map)

lemma select_eligible: "select_first (candidates now s job d) = Some p \<Longrightarrow> capable now s job d p"
  by (rule eligible) (auto simp: select_first_def split: list.splits)

end

locale staked_matcher = matcher +
  assumes staked: "p \<in> set (candidates now s job d) \<Longrightarrow> of_int (min_provider_stake s) \<le> provider_stake (pr_id p) d"
    and trusted: "p \<in> set (candidates now s job d) \<Longrightarrow> j_is_high_value job \<Longrightarrow> high_value_min_reputation s \<le> pr_reputation p"
begin

text \<open>Every machine the work goes to has something to lose.\<close>

lemma take_staked:
  "p \<in> set (take n (candidates now s job d)) \<Longrightarrow> of_int (min_provider_stake s) \<le> provider_stake (pr_id p) d"
  by (auto dest: in_set_takeD intro: staked)

end

lemma distinct_sort_filter:
  "distinct (map f xs) \<Longrightarrow> distinct (map f (filter Q (sort_key g (filter P xs))))"
proof -
  assume "distinct (map f xs)"
  then have "distinct (map f (filter P xs))" by (rule distinct_map_filter)
  then have "distinct (map f (sort_key g (filter P xs)))"
    by (simp add: distinct_map distinct_sort)
  then show ?thesis by (rule distinct_map_filter)
qed

interpretation capability: matcher CapabilityMatcher_candidates
proof
  fix p now s job d
  assume "p \<in> set (CapabilityMatcher_candidates now s job d)"
  then show "p \<in> set (providers d)" "capable now s job d p"
    by (auto simp: CapabilityMatcher_candidates_def capability_query_def)
next
  fix d :: db and now s job
  assume "distinct (map pr_id (providers d))"
  from distinct_sort_filter [OF this, of "\<lambda>_. True"]
  show "distinct (map pr_id (CapabilityMatcher_candidates now s job d))"
    by (simp add: CapabilityMatcher_candidates_def capability_query_def)
qed

interpretation reputation: staked_matcher ReputationMatcher_candidates
proof
  fix p now s job d
  assume "p \<in> set (ReputationMatcher_candidates now s job d)"
  then show "p \<in> set (providers d)" "capable now s job d p"
    "of_int (min_provider_stake s) \<le> provider_stake (pr_id p) d"
    "j_is_high_value job \<Longrightarrow> high_value_min_reputation s \<le> pr_reputation p"
    by (auto simp: ReputationMatcher_candidates_def capability_query_def Let_def split: if_splits)
next
  fix d :: db and now s job
  assume d: "distinct (map pr_id (providers d))"
  have "ReputationMatcher_candidates now s job d =
      filter (\<lambda>p. provider_stake (pr_id p) d \<ge> of_int (min_provider_stake s))
       (sort_key (\<lambda>p. (- has_artifact job (pr_id p) d, - pr_reputation p, load (pr_id p) d))
         (filter (\<lambda>p. capable now s job d p \<and> (j_is_high_value job \<longrightarrow> pr_reputation p \<ge> high_value_min_reputation s))
           (providers d)))"
    by (simp add: ReputationMatcher_candidates_def capability_query_def Let_def conj_commute)
  with distinct_sort_filter [OF d] show "distinct (map pr_id (ReputationMatcher_candidates now s job d))" by simp
qed

text \<open>The production policy is complete: every capable, staked and trusted provider is offered.\<close>

lemma reputation_complete:
  "p \<in> set (ReputationMatcher_candidates now s job d) \<longleftrightarrow>
     p \<in> set (providers d) \<and> capable now s job d p
     \<and> of_int (min_provider_stake s) \<le> provider_stake (pr_id p) d
     \<and> (j_is_high_value job \<longrightarrow> high_value_min_reputation s \<le> pr_reputation p)"
  by (auto simp: ReputationMatcher_candidates_def capability_query_def Let_def)

text \<open>Among equally warm caches a better reputation comes first.\<close>

lemma reputation_order:
  assumes "i < j" "j < length (ReputationMatcher_candidates now s job d)"
  shows "(- has_artifact job (pr_id (ReputationMatcher_candidates now s job d ! i)) d,
          - pr_reputation (ReputationMatcher_candidates now s job d ! i))
       \<le> (- has_artifact job (pr_id (ReputationMatcher_candidates now s job d ! j)) d,
          - pr_reputation (ReputationMatcher_candidates now s job d ! j))"
proof -
  let ?k = "\<lambda>p. (- has_artifact job (pr_id p) d, - pr_reputation p, load (pr_id p) d)"
  let ?c = "ReputationMatcher_candidates now s job d"
  have "sorted (map ?k ?c)"
    unfolding ReputationMatcher_candidates_def Let_def by (intro sorted_filter) simp
  then have "?k (?c ! i) \<le> ?k (?c ! j)" using assms by (simp add: sorted_iff_nth_mono)
  then show ?thesis by (auto simp: less_eq_prod_def)
qed

end
