(* ===== verification/Assignment.thy ===== *)
theory Assignment
  imports Finalization Matcher
begin

text \<open>
  Job assignment and lease reaping, \<open>api/app/assignment.py\<close>, and one iteration of each scheduler loop,
  \<open>api/app/scheduler.py\<close>, over the Redis queue of \<open>redis_client.py\<close>.  Each function runs in its own
  session and commits at its end; an exception leaves the database as it was.  The matching policy is an
  argument: \<open>get_matcher()\<close> answers whichever policy was installed.
\<close>

section \<open>Assignment\<close>

fun max_or_0 :: "int list \<Rightarrow> int" where
  "max_or_0 [] = 0"
| "max_or_0 (x # xs) = fold max xs x"

fun new_attempts :: "instant \<Rightarrow> uuid \<Rightarrow> instant \<Rightarrow> int \<Rightarrow> uuid \<Rightarrow> Provider list \<Rightarrow> JobAttempt list" where
  "new_attempts now job_id lease number k [] = []"
| "new_attempts now job_id lease number k (p # ps) =
     \<lparr> at_id = k, at_job_id = job_id, at_provider_id = Some (pr_id p), at_attempt_number = number + 1,
       at_outcome = ao_assigned, at_lease_expires_at = Some lease, at_result_ref = None, at_proof = None,
       at_created_at = now, at_started_at = None, at_finished_at = None \<rparr>
     # new_attempts now job_id lease (number + 1) (Suc k) ps"

definition assign_providers ::
    "(instant \<Rightarrow> Settings \<Rightarrow> Job \<Rightarrow> db \<Rightarrow> Provider list) \<Rightarrow> instant \<Rightarrow> uuid \<Rightarrow> Settings \<Rightarrow> db
     \<Rightarrow> err + (Provider list \<times> db)" where
  "assign_providers candidates now job_id settings d =
     (case get_job job_id d of
        None \<Rightarrow> Inr ([], d)
      | Some job \<Rightarrow>
          if j_status job \<noteq> js_queued then Inr ([], d)
          else
            (let want = (if j_is_high_value job then j_redundancy job else 1);
                 providers = take (nat want) (candidates now settings job d)
             in if providers = [] then Inr ([], d)
                else
                  (let lease = now + seconds (lease_seconds settings) in
                   bindE (transition now job js_assigned) (\<lambda>job.
                     let job = job\<lparr>j_assigned_provider_id := Some (pr_id (hd providers)),
                                   j_lease_expires_at := Some lease,
                                   j_attempt_count := j_attempt_count job + 1\<rparr>;
                         base = max_or_0 (map at_attempt_number
                                  (filter (\<lambda>a. at_job_id a = j_id job) (job_attempts d)));
                         rows = new_attempts now (j_id job) lease base (next_id d) providers
                     in Inr (providers,
                             (put_job job d)\<lparr>job_attempts := job_attempts d @ rows,
                                             next_id := next_id d + length providers\<rparr>)))))"

definition assign_job ::
    "(instant \<Rightarrow> Settings \<Rightarrow> Job \<Rightarrow> db \<Rightarrow> Provider list) \<Rightarrow> instant \<Rightarrow> uuid \<Rightarrow> Settings \<Rightarrow> db
     \<Rightarrow> err + (Provider option \<times> db)" where
  "assign_job candidates now job_id settings d =
     bindE (assign_providers candidates now job_id settings d) (\<lambda>(providers, d).
       Inr (select_first providers, d))"

section \<open>Reclaiming\<close>

text \<open>Requeue one in-flight job, or fail it once its attempts are exhausted; the identifier of a
  requeued job is returned.\<close>

definition reclaim_job :: "instant \<Rightarrow> Settings \<Rightarrow> Job \<Rightarrow> db \<Rightarrow> err + (uuid option \<times> db)" where
  "reclaim_job now settings job d =
     (let attempt = latest (filter (\<lambda>a. at_job_id a = j_id job) (job_attempts d));
          attempt = map_option (\<lambda>a. if at_finished_at a = None then a\<lparr>at_finished_at := Some now\<rparr> else a) attempt;
          save = (\<lambda>outcome d. case attempt of None \<Rightarrow> d | Some a \<Rightarrow> put_attempt (a\<lparr>at_outcome := outcome\<rparr>) d)
      in if j_attempt_count job \<ge> max_attempts settings
         then bindE (transition now job js_failed) (\<lambda>job. Inr (None, put_job job (save ao_failed d)))
         else bindE (transition now job js_queued) (\<lambda>job.
                Inr (Some (j_id job), put_job job (save ao_reassigned d))))"

definition reclaim_all :: "instant \<Rightarrow> Settings \<Rightarrow> Job list \<Rightarrow> db \<Rightarrow> err + (uuid list \<times> db)" where
  "reclaim_all now settings stale d =
     foldE (\<lambda>job (requeued, d).
        bindE (reclaim_job now settings job d) (\<lambda>(rid, d).
          Inr (case rid of None \<Rightarrow> requeued | Some k \<Rightarrow> requeued @ [k], d))) stale ([], d)"

definition in_flight :: "Job \<Rightarrow> bool" where
  "in_flight job \<longleftrightarrow> j_status job = js_assigned \<or> j_status job = js_running"

definition reap_expired_leases :: "instant \<Rightarrow> Settings \<Rightarrow> db \<Rightarrow> err + (uuid list \<times> db)" where
  "reap_expired_leases now settings d =
     reclaim_all now settings
       (filter (\<lambda>j. in_flight j \<and> j_redundancy j = 1
                    \<and> (case j_lease_expires_at j of None \<Rightarrow> False | Some t \<Rightarrow> t < now)) (jobs d)) d"

definition stale_attempts :: "instant \<Rightarrow> db \<Rightarrow> JobAttempt list" where
  "stale_attempts now d =
     (let redundant_active = map j_id (filter (\<lambda>j. j_redundancy j > 1 \<and> in_flight j) (jobs d))
      in filter (\<lambda>a. at_finished_at a = None
                     \<and> (case at_lease_expires_at a of None \<Rightarrow> False | Some t \<Rightarrow> t < now)
                     \<and> at_job_id a \<in> set redundant_active) (job_attempts d))"

definition reap_expired_attempts :: "instant \<Rightarrow> Settings \<Rightarrow> db \<Rightarrow> err + db" where
  "reap_expired_attempts now settings d =
     (let stale = stale_attempts now d;
          d = fold (\<lambda>a. put_attempt (a\<lparr>at_outcome := ao_reassigned, at_finished_at := Some now\<rparr>)) stale d;
          job_ids = keys_in_order (map at_job_id stale)
      in foldE (\<lambda>k d. case get_job k d of None \<Rightarrow> Inr d | Some job \<Rightarrow> maybe_finalize now job settings d) job_ids d)"

definition recover_queued_jobs :: "nat \<Rightarrow> db \<Rightarrow> uuid list" where
  "recover_queued_jobs limit d = take limit (map j_id (filter (\<lambda>j. j_status j = js_queued) (jobs d)))"

definition drain_unreachable_providers :: "instant \<Rightarrow> Settings \<Rightarrow> db \<Rightarrow> err + (uuid list \<times> db)" where
  "drain_unreachable_providers now settings d =
     (let cutoff = now - seconds (connection_timeout_seconds settings);
          unreachable = map pr_id (filter (\<lambda>p. case pr_last_seen p of None \<Rightarrow> False | Some t \<Rightarrow> t < cutoff) (providers d))
      in reclaim_all now settings
           (filter (\<lambda>j. in_flight j \<and> j_redundancy j = 1
                        \<and> (case j_assigned_provider_id j of None \<Rightarrow> False | Some p \<Rightarrow> p \<in> set unreachable)) (jobs d)) d)"

section \<open>The scheduler loops\<close>

record sched =
  sc_db :: db
  sc_queue :: "uuid list"

definition enqueue_job :: "uuid \<Rightarrow> sched \<Rightarrow> sched" where
  "enqueue_job k s = s\<lparr>sc_queue := sc_queue s @ [k]\<rparr>"

definition dequeue_job :: "sched \<Rightarrow> uuid option \<times> sched" where
  "dequeue_job s = (case sc_queue s of [] \<Rightarrow> (None, s) | k # ks \<Rightarrow> (Some k, s\<lparr>sc_queue := ks\<rparr>))"

text \<open>One iteration of the assignment loop; an exception drops the dequeued identifier.\<close>

definition assignment_iteration ::
    "(instant \<Rightarrow> Settings \<Rightarrow> Job \<Rightarrow> db \<Rightarrow> Provider list) \<Rightarrow> instant \<Rightarrow> Settings \<Rightarrow> sched \<Rightarrow> sched" where
  "assignment_iteration candidates now settings s =
     (case dequeue_job s of
        (None, s) \<Rightarrow> s
      | (Some k, s) \<Rightarrow>
          (case assign_job candidates now k settings (sc_db s) of
             Inl _ \<Rightarrow> s
           | Inr (None, d) \<Rightarrow> enqueue_job k (s\<lparr>sc_db := d\<rparr>)
           | Inr (Some _, d) \<Rightarrow> s\<lparr>sc_db := d\<rparr>))"

text \<open>One iteration of the reaper loop: four sessions in turn, each committed before the next starts; an
  exception ends the iteration.\<close>

definition reaper_iteration :: "instant \<Rightarrow> Settings \<Rightarrow> sched \<Rightarrow> sched" where
  "reaper_iteration now settings s =
     (case reap_expired_attempts now settings (sc_db s) of
        Inl _ \<Rightarrow> s
      | Inr d1 \<Rightarrow>
          (case reap_expired_leases now settings d1 of
             Inl _ \<Rightarrow> s\<lparr>sc_db := d1\<rparr>
           | Inr (r1, d2) \<Rightarrow>
               (case drain_unreachable_providers now settings d2 of
                  Inl _ \<Rightarrow> s\<lparr>sc_db := d2\<rparr>
                | Inr (r2, d3) \<Rightarrow>
                    (let requeued = r1 @ r2 @ recover_queued_jobs 1000 d3
                     in fold enqueue_job requeued (s\<lparr>sc_db := d3\<rparr>)))))"

text \<open>One check of the canary loop; \<open>draw\<close> is the value of \<open>random.random()\<close>.\<close>

definition canary_iteration :: "instant \<Rightarrow> Settings \<Rightarrow> rat \<Rightarrow> sched \<Rightarrow> sched" where
  "canary_iteration now settings draw s =
     (if canary_rate settings \<le> 0 then s
      else if draw \<ge> canary_rate settings then s
      else
        (let (job, d) = create_canary_job now (sc_db s)
         in enqueue_job (j_id job) (s\<lparr>sc_db := d\<rparr>)))"

section \<open>Evolution of the table of jobs\<close>

text \<open>Across a call, every job that existed still exists and has evolved; a terminal row is frozen.\<close>

definition db_evolves :: "db \<Rightarrow> db \<Rightarrow> bool" where
  "db_evolves d d' \<longleftrightarrow> (\<forall>k j. get_job k d = Some j \<longrightarrow>
     (\<exists>j'. get_job k d' = Some j' \<and> job_evolves j j' \<and> (terminal j \<longrightarrow> j' = j)))"

lemma db_evolves_refl [simp, intro]: "db_evolves d d"
  by (auto simp: db_evolves_def)

lemma db_evolves_trans [trans]:
  assumes "db_evolves d e" "db_evolves e f"
  shows "db_evolves d f"
  unfolding db_evolves_def
proof (intro allI impI)
  fix k j
  assume "get_job k d = Some j"
  then obtain j1 where 1: "get_job k e = Some j1" "job_evolves j j1" "terminal j \<longrightarrow> j1 = j"
    using assms(1) unfolding db_evolves_def by blast
  then obtain j2 where 2: "get_job k f = Some j2" "job_evolves j1 j2" "terminal j1 \<longrightarrow> j2 = j1"
    using assms(2) unfolding db_evolves_def by blast
  with 1 show "\<exists>j'. get_job k f = Some j' \<and> job_evolves j j' \<and> (terminal j \<longrightarrow> j' = j)"
    using job_evolves_trans [OF 1(2) 2(2)] by (intro exI [of _ j2]) auto
qed

lemma db_evolves_jobs: "jobs d' = jobs d \<Longrightarrow> db_evolves d d'"
  by (simp add: db_evolves_def get_job_def)

lemma db_evolves_put:
  assumes "jobs d' = tput j_id job' (jobs d)" "get_job (j_id job) d = Some job" "job_evolves job job'" "\<not> terminal job"
  shows "db_evolves d d'"
  unfolding db_evolves_def
proof (intro allI impI)
  fix k j
  assume j: "get_job k d = Some j"
  have id: "j_id job' = j_id job" using assms(3) by (simp add: job_evolves_def)
  show "\<exists>j'. get_job k d' = Some j' \<and> job_evolves j j' \<and> (terminal j \<longrightarrow> j' = j)"
  proof (cases "k = j_id job")
    case True
    then have "get_job k d' = Some job'" "j = job"
      using j assms(1,2) id by (auto simp: get_job_def tget_tput)
    with assms show ?thesis by auto
  next
    case False
    then have "get_job k d' = Some j" using j assms(1) id by (auto simp: get_job_def tget_tput)
    then show ?thesis by auto
  qed
qed

lemma job_updated_evolves:
  "job_updated job d d' \<Longrightarrow> get_job (j_id job) d = Some job \<Longrightarrow> \<not> terminal job \<Longrightarrow> db_evolves d d'"
  unfolding job_updated_def by (auto intro: db_evolves_put)

lemma db_evolves_append:
  assumes "jobs d' = jobs d @ xs" shows "db_evolves d d'"
  using assms by (auto simp: db_evolves_def get_job_def tget_append)

lemma in_flight_live: "in_flight job \<Longrightarrow> \<not> terminal job"
  by (auto simp: in_flight_def)

section \<open>Assignment is safe\<close>

lemma new_attempts_sel:
  "map at_provider_id (new_attempts now k lease n i ps) = map (Some \<circ> pr_id) ps"
  "length (new_attempts now k lease n i ps) = length ps"
  "a \<in> set (new_attempts now k lease n i ps) \<Longrightarrow> at_job_id a = k \<and> at_outcome a = ao_assigned
     \<and> at_lease_expires_at a = Some lease \<and> at_finished_at a = None \<and> n < at_attempt_number a"
  by (induction ps arbitrary: n i) fastforce+

lemma assign_cases:
  assumes "assign_providers C now k s d = Inr (ps, d')"
  shows "(ps = [] \<and> d' = d) \<or> (\<exists>job job' base. get_job k d = Some job \<and> j_status job = js_queued \<and> ps \<noteq> []
     \<and> ps = take (nat (if j_is_high_value job then j_redundancy job else 1)) (C now s job d)
     \<and> transition now job js_assigned = Inr job'
     \<and> d' = (put_job (job'\<lparr>j_assigned_provider_id := Some (pr_id (hd ps)),
                           j_lease_expires_at := Some (now + seconds (lease_seconds s)),
                           j_attempt_count := j_attempt_count job' + 1\<rparr>) d)
              \<lparr>job_attempts := job_attempts d @ new_attempts now k (now + seconds (lease_seconds s)) base (next_id d) ps,
               next_id := next_id d + length ps\<rparr>)"
proof (cases "get_job k d")
  case None
  then show ?thesis using assms by (simp add: assign_providers_def)
next
  case (Some job)
  define P where "P = take (nat (if j_is_high_value job then j_redundancy job else 1)) (C now s job d)"
  let ?lease = "now + seconds (lease_seconds s)"
  let ?F = "\<lambda>job'. (put_job (job'\<lparr>j_assigned_provider_id := Some (pr_id (hd P)), j_lease_expires_at := Some ?lease,
                                 j_attempt_count := j_attempt_count job' + 1\<rparr>) d)
              \<lparr>job_attempts := job_attempts d @ new_attempts now (j_id job') ?lease
                  (max_or_0 (map at_attempt_number (filter (\<lambda>a. at_job_id a = j_id job') (job_attempts d)))) (next_id d) P,
               next_id := next_id d + length P\<rparr>"
  have eq: "assign_providers C now k s d =
      (if j_status job \<noteq> js_queued then Inr ([], d) else if P = [] then Inr ([], d)
       else bindE (transition now job js_assigned) (\<lambda>job'. Inr (P, ?F job')))"
    unfolding assign_providers_def Let_def Some P_def by simp
  show ?thesis
  proof (cases "j_status job \<noteq> js_queued \<or> P = []")
    case True
    then have "ps = [] \<and> d' = d" using assms unfolding eq by (auto split: if_splits)
    then show ?thesis by blast
  next
    case False
    then have "bindE (transition now job js_assigned) (\<lambda>job'. Inr (P, ?F job')) = Inr (ps, d')"
      using assms unfolding eq by (auto split: if_splits)
    then obtain job' where t: "transition now job js_assigned = Inr job'" and "ps = P" "d' = ?F job'"
      by (rule bindE_InrE) blast
    moreover have "j_id job' = k" using transition_Inr(3) [OF t] get_job_SomeD [OF Some] by simp
    ultimately show ?thesis using Some False unfolding P_def by blast
  qed
qed

lemma assign_total: "\<exists>ps d'. assign_providers C now k s d = Inr (ps, d')"
proof -
  have "j_status job = js_queued \<Longrightarrow> \<exists>job'. transition now job js_assigned = Inr job'" for job
    by (simp add: transition_legal [symmetric] can_transition_def)
  then show ?thesis
    by (auto simp: assign_providers_def Let_def bindE_Inr_iff split: option.splits)
qed

lemma assign_coord:
  assumes a: "assign_providers C now k s d = Inr (ps, d')" and ok: "coord_ok d"
  shows "coord_ok d'" "db_evolves d d'"
proof -
  have "coord_ok d' \<and> db_evolves d d'"
    using assign_cases [OF a]
  proof (elim disjE exE conjE)
    fix job job' base
    assume job: "get_job k d = Some job" "j_status job = js_queued" and t: "transition now job js_assigned = Inr job'"
      and d': "d' = (put_job (job'\<lparr>j_assigned_provider_id := Some (pr_id (hd ps)),
                           j_lease_expires_at := Some (now + seconds (lease_seconds s)),
                           j_attempt_count := j_attempt_count job' + 1\<rparr>) d)
              \<lparr>job_attempts := job_attempts d @ new_attempts now k (now + seconds (lease_seconds s)) base (next_id d) ps,
               next_id := next_id d + length ps\<rparr>"
    let ?job = "job'\<lparr>j_assigned_provider_id := Some (pr_id (hd ps)),
                           j_lease_expires_at := Some (now + seconds (lease_seconds s)),
                           j_attempt_count := j_attempt_count job' + 1\<rparr>"
    have ev: "job_evolves job ?job" using transition_evolves [OF t] by (simp add: job_evolves_def)
    have id: "j_id ?job = k" "j_id job = k" using ev get_job_SomeD [OF job(1)] by (auto simp: job_evolves_def)
    have cost: "j_cost_final job = None" "\<not> terminal job"
      using ok job get_job_SomeD [OF job(1)] by (auto simp: coord_ok_def jobs_ok_def)
    have "coord_ok (put_job ?job d)"
      using job cost transition_Inr(9) [OF t] by (intro put_job_coord_same [OF ok _ ev]) (auto simp: id)
    then have "coord_ok d'" by (rule coord_ok_cong [rotated -1]) (auto simp: d')
    moreover have "db_evolves d d'"
      using job cost ev id by (intro db_evolves_put [of d' ?job d job]) (auto simp: d')
    ultimately show ?thesis by blast
  qed (use ok in auto)
  then show "coord_ok d'" "db_evolves d d'" by blast+
qed

text \<open>A job that has just been assigned is not assigned again.\<close>

lemma assign_once:
  assumes "assign_providers C now k s d = Inr (ps, d')" "ps \<noteq> []"
  shows "assign_providers C' now' k s' d' = Inr ([], d')"
proof -
  from assign_cases [OF assms(1)] assms(2) obtain job job' base where
    job: "get_job k d = Some job" and t: "transition now job js_assigned = Inr job'"
    and d': "d' = (put_job (job'\<lparr>j_assigned_provider_id := Some (pr_id (hd ps)),
                           j_lease_expires_at := Some (now + seconds (lease_seconds s)),
                           j_attempt_count := j_attempt_count job' + 1\<rparr>) d)
              \<lparr>job_attempts := job_attempts d @ new_attempts now k (now + seconds (lease_seconds s)) base (next_id d) ps,
               next_id := next_id d + length ps\<rparr>" by blast
  have id: "j_id job' = k" using transition_Inr(3) [OF t] get_job_SomeD [OF job] by simp
  have "get_job k d' = Some (job'\<lparr>j_assigned_provider_id := Some (pr_id (hd ps)),
                           j_lease_expires_at := Some (now + seconds (lease_seconds s)),
                           j_attempt_count := j_attempt_count job' + 1\<rparr>)"
    using job id by (simp add: d' get_job_def tget_tput)
  then show ?thesis using transition_Inr(2) [OF t] by (simp add: assign_providers_def)
qed

section \<open>Reclaiming is safe\<close>

lemma reclaim_job_Inr:
  assumes fl: "in_flight job"
  obtains job' rid e where "reclaim_job now s job d = Inr (rid, put_job job' e)"
    "e = d \<or> (\<exists>a. e = put_attempt a d)"
    "transition now job (if j_attempt_count job \<ge> max_attempts s then js_failed else js_queued) = Inr job'"
    "rid = (if j_attempt_count job \<ge> max_attempts s then None else Some (j_id job))"
proof -
  let ?t = "if j_attempt_count job \<ge> max_attempts s then js_failed else js_queued"
  have "can_transition (j_status job) ?t" using fl by (auto simp: in_flight_def can_transition_def)
  then obtain job' where t: "transition now job ?t = Inr job'" unfolding transition_legal [of job ?t now] by blast
  have id: "j_id job' = j_id job" by (rule transition_Inr(3) [OF t])
  define att where "att = map_option (\<lambda>a. if at_finished_at a = None then a\<lparr>at_finished_at := Some now\<rparr> else a)
      (latest (filter (\<lambda>a. at_job_id a = j_id job) (job_attempts d)))"
  define e where "e = (case att of None \<Rightarrow> d
      | Some a \<Rightarrow> put_attempt (a\<lparr>at_outcome := (if j_attempt_count job \<ge> max_attempts s then ao_failed else ao_reassigned)\<rparr>) d)"
  have "reclaim_job now s job d
      = Inr (if j_attempt_count job \<ge> max_attempts s then None else Some (j_id job), put_job job' e)"
    using t id unfolding reclaim_job_def Let_def att_def [symmetric] e_def
    by (auto split: if_splits)
  moreover have "e = d \<or> (\<exists>a. e = put_attempt a d)" by (auto simp: e_def split: option.splits)
  ultimately show ?thesis using t by (intro that) auto
qed

lemma reclaim_job_coord:
  assumes ok: "coord_ok d" and job: "get_job (j_id job) d = Some job" "in_flight job"
  obtains rid d' where "reclaim_job now s job d = Inr (rid, d')" "coord_ok d'" "db_evolves d d'"
    "\<And>k. k \<noteq> j_id job \<Longrightarrow> get_job k d' = get_job k d"
proof -
  obtain job' rid e where r: "reclaim_job now s job d = Inr (rid, put_job job' e)"
    and e: "e = d \<or> (\<exists>a. e = put_attempt a d)"
    and t: "transition now job (if j_attempt_count job \<ge> max_attempts s then js_failed else js_queued) = Inr job'"
    "rid = (if j_attempt_count job \<ge> max_attempts s then None else Some (j_id job))"
    by (rule reclaim_job_Inr [OF job(2), of now s d])
  have ev: "job_evolves job job'" by (rule transition_evolves [OF t(1)])
  have id: "j_id job' = j_id job" using ev by (simp add: job_evolves_def)
  have cost: "j_cost_final job = None"
    using ok in_flight_live [OF job(2)] get_job_SomeD [OF job(1)] by (auto simp: coord_ok_def jobs_ok_def)
  have e': "coord_ok e" "get_job (j_id job) e = Some job" "jobs e = jobs d" using e ok job by auto
  have "coord_ok (put_job job' e)"
    using e' cost by (intro put_job_coord_same [OF e'(1) _ ev]) (auto simp: id transition_Inr(9) [OF t(1)])
  moreover have "db_evolves d (put_job job' e)"
    using e' by (intro db_evolves_put [OF _ job(1) ev in_flight_live [OF job(2)]]) simp
  moreover have "get_job k (put_job job' e) = get_job k d" if "k \<noteq> j_id job" for k
    using that e' id by (simp add: get_job_def tget_tput)
  ultimately show ?thesis by (rule that [OF r])
qed

lemma reclaim_all_coord:
  assumes "coord_ok d" "distinct (map j_id xs)" "\<forall>j \<in> set xs. get_job (j_id j) d = Some j \<and> in_flight j"
  shows "\<exists>r d'. foldE (\<lambda>job (requeued, d).
        bindE (reclaim_job now s job d) (\<lambda>(rid, d).
          Inr (case rid of None \<Rightarrow> requeued | Some k \<Rightarrow> requeued @ [k], d))) xs (acc, d) = Inr (r, d')
      \<and> coord_ok d' \<and> db_evolves d d'"
  using assms
proof (induction xs arbitrary: acc d)
  case (Cons x xs)
  have x: "get_job (j_id x) d = Some x" "in_flight x" using Cons.prems by auto
  obtain rid e where e: "reclaim_job now s x d = Inr (rid, e)" "coord_ok e" "db_evolves d e"
    "\<And>k. k \<noteq> j_id x \<Longrightarrow> get_job k e = get_job k d"
    using reclaim_job_coord [OF Cons.prems(1) x, of now s] by blast
  have "\<forall>j \<in> set xs. get_job (j_id j) e = Some j \<and> in_flight j"
    using Cons.prems(2,3) e(4) by (metis (no_types, lifting) distinct.simps(2) imageI list.set_intros(2) list.set_map list.simps(9))
  from Cons.IH [OF e(2) _ this, of "case rid of None \<Rightarrow> acc | Some k \<Rightarrow> acc @ [k]"] Cons.prems(2)
  obtain r d' where *: "foldE (\<lambda>job (requeued, d).
        bindE (reclaim_job now s job d) (\<lambda>(rid, d).
          Inr (case rid of None \<Rightarrow> requeued | Some k \<Rightarrow> requeued @ [k], d))) xs
        (case rid of None \<Rightarrow> acc | Some k \<Rightarrow> acc @ [k], e) = Inr (r, d')" "coord_ok d'" "db_evolves e d'" by auto
  show ?case using * db_evolves_trans [OF e(3) *(3)] by (simp add: e(1))
qed auto

lemma jobs_get:
  assumes "coord_ok d" "j \<in> set (jobs d)"
  shows "get_job (j_id j) d = Some j"
proof -
  have "distinct (map j_id xs) \<Longrightarrow> j \<in> set xs \<Longrightarrow> tget j_id (j_id j) xs = Some j" for xs
    by (induction xs) auto
  then show ?thesis using assms by (simp add: get_job_def coord_ok_def jobs_ok_def)
qed

lemma reclaim_filter_coord:
  assumes ok: "coord_ok d" and P: "\<And>j. P j \<Longrightarrow> in_flight j"
  shows "\<exists>r d'. reclaim_all now s (filter P (jobs d)) d = Inr (r, d') \<and> coord_ok d' \<and> db_evolves d d'"
  unfolding reclaim_all_def
proof (rule reclaim_all_coord [OF ok])
  show "distinct (map j_id (filter P (jobs d)))"
    using ok by (simp add: coord_ok_def jobs_ok_def distinct_map_filter)
  show "\<forall>j \<in> set (filter P (jobs d)). get_job (j_id j) d = Some j \<and> in_flight j"
    using jobs_get [OF ok] P by auto
qed

lemma reap_expired_leases_coord:
  assumes "coord_ok d"
  shows "\<exists>r d'. reap_expired_leases now s d = Inr (r, d') \<and> coord_ok d' \<and> db_evolves d d'"
  unfolding reap_expired_leases_def using assms by (intro reclaim_filter_coord) auto

lemma drain_coord:
  assumes "coord_ok d"
  shows "\<exists>r d'. drain_unreachable_providers now s d = Inr (r, d') \<and> coord_ok d' \<and> db_evolves d d'"
  unfolding drain_unreachable_providers_def Let_def using assms by (intro reclaim_filter_coord) auto

lemma fold_put_attempt:
  "coord_ok d \<Longrightarrow> coord_ok (fold (\<lambda>a. put_attempt (f a)) xs d) \<and> jobs (fold (\<lambda>a. put_attempt (f a)) xs d) = jobs d"
  by (induction xs arbitrary: d) auto

lemma reap_expired_attempts_coord:
  assumes r: "reap_expired_attempts now s d = Inr d'" and s: "valid_settings s" and ok: "coord_ok d"
  shows "coord_ok d'" "db_evolves d d'"
proof -
  let ?f = "\<lambda>a. a\<lparr>at_outcome := ao_reassigned, at_finished_at := Some now\<rparr>"
  define e where "e = fold (\<lambda>a. put_attempt (?f a)) (stale_attempts now d) d"
  have e: "coord_ok e" "db_evolves d e"
    using fold_put_attempt [OF ok, of ?f "stale_attempts now d"] by (auto simp: e_def intro: db_evolves_jobs)
  let ?g = "\<lambda>k d. case get_job k d of None \<Rightarrow> Inr d | Some job \<Rightarrow> maybe_finalize now job s d"
  have loop: "foldE ?g (keys_in_order (map at_job_id (stale_attempts now d))) e = Inr d'"
    using r by (simp add: reap_expired_attempts_def Let_def e_def)
  have "coord_ok d' \<and> db_evolves d d'"
  proof (rule foldE_inv [OF loop])
    show "coord_ok e \<and> db_evolves d e" using e by simp
    fix k x x'
    assume x: "coord_ok x \<and> db_evolves d x" and st: "?g k x = Inr x'"
    show "coord_ok x' \<and> db_evolves d x'"
    proof (cases "get_job k x")
      case None
      then show ?thesis using x st by simp
    next
      case (Some job)
      then have id: "j_id job = k" and fin: "maybe_finalize now job s x = Inr x'"
        using st by (auto dest: get_job_SomeD)
      show ?thesis
      proof (cases "terminal job")
        case True
        then show ?thesis using x fin by (simp add: maybe_finalize_def)
      next
        case False
        have "coord_ok x' \<and> job_updated job x x'"
          using maybe_finalize_coord [OF fin s _ _ False] x Some id by simp
        then show ?thesis
          using x job_updated_evolves [of job x x'] False Some id db_evolves_trans by blast
      qed
    qed
  qed
  then show "coord_ok d'" "db_evolves d d'" by blast+
qed

lemma reclaim_others:
  assumes "foldE (\<lambda>job (requeued, d).
        bindE (reclaim_job now s job d) (\<lambda>(rid, d).
          Inr (case rid of None \<Rightarrow> requeued | Some k \<Rightarrow> requeued @ [k], d))) xs (acc, d) = Inr (r, d')"
    and "k \<notin> j_id ` set xs" "\<forall>j \<in> set xs. in_flight j"
  shows "get_job k d' = get_job k d \<and> (k \<in> set r \<longrightarrow> k \<in> set acc)"
  using assms
proof (induction xs arbitrary: acc d)
  case (Cons j js)
  obtain job' rid e where r: "reclaim_job now s j d = Inr (rid, put_job job' e)" "e = d \<or> (\<exists>a. e = put_attempt a d)"
    "transition now j (if j_attempt_count j \<ge> max_attempts s then js_failed else js_queued) = Inr job'"
    "rid = (if j_attempt_count j \<ge> max_attempts s then None else Some (j_id j))"
    by (rule reclaim_job_Inr [of j now s d]) (use Cons.prems(3) in auto)
  have "get_job k (put_job job' e) = get_job k d"
    using r(2) Cons.prems(2) transition_Inr(3) [OF r(3)] by (auto simp: get_job_def tget_tput)
  then show ?case using Cons.IH [of _ "put_job job' e"] Cons.prems r(1,4) by (fastforce split: if_splits)
qed simp

end
