(* ===== verification/Hardware.thy ===== *)
theory Hardware
  imports Presence Stdlib Disputes
begin

text \<open>
  What the agent endpoints consult about a machine and its keys: attestation (\<open>attestation.py\<close>), key
  and secret brokering (\<open>key_broker.py\<close>, \<open>secrets_broker.py\<close>, \<open>crypto.py\<close>), health (\<open>health.py\<close>),
  benchmarks and anti-spoofing (\<open>benchmark.py\<close>, \<open>antispoof.py\<close>), path negotiation (\<open>paths.py\<close>) and
  peer distribution (\<open>peer_distribution.py\<close>).  Fernet is third-party code: \<open>fernet_key_ok\<close> says whether
  a key is well-formed and \<open>fernet_decrypt\<close> decrypts, \<open>None\<close> being \<open>InvalidToken\<close>.
\<close>

section \<open>attestation.py\<close>

definition sign_measurement :: "string \<Rightarrow> string \<Rightarrow> string" where
  "sign_measurement measurement secret = hmac_sha256 (utf8 secret) (utf8 measurement)"

definition verify_attestation :: "string \<Rightarrow> string \<Rightarrow> Settings \<Rightarrow> err + bool" where
  "verify_attestation measurement signature settings =
     (if attestation_secret settings = [] then Inr False
      else
        (let expected = sign_measurement measurement (attestation_secret settings)
         in case compare_digest signature expected of None \<Rightarrow> Inl TypeError | Some b \<Rightarrow> Inr b))"

lemma verify_attestation_iff:
  "verify_attestation m sig s = Inr True \<longleftrightarrow>
     attestation_secret s \<noteq> [] \<and> sig = sign_measurement m (attestation_secret s)"
  by (auto simp: verify_attestation_def Let_def compare_digest_def sign_measurement_def split: if_splits)

section \<open>crypto.py and key\_broker.py\<close>

type_synonym fernet = "(string \<Rightarrow> bool) \<times> (string \<Rightarrow> string \<Rightarrow> string option)"

definition first_some :: "('a \<Rightarrow> 'b option) \<Rightarrow> 'a list \<Rightarrow> 'b option" where
  "first_some f xs = foldr (\<lambda>x r. case f x of None \<Rightarrow> r | Some y \<Rightarrow> Some y) xs None"

text \<open>\<open>None\<close> is \<open>DecryptionError\<close>.  Every key is constructed before any is tried.\<close>

definition decrypt_rotating :: "fernet \<Rightarrow> string \<Rightarrow> string list \<Rightarrow> string option" where
  "decrypt_rotating F ciphertext keys =
     (if keys = [] then None
      else if \<not> list_all (fst F) keys then None
      else first_some (\<lambda>k. snd F k ciphertext) keys)"

definition all_keks :: "Settings \<Rightarrow> string list" where
  "all_keks s =
     (let retired = filter (\<lambda>k. k \<noteq> []) (map strip (split_on (CHR '','') (kek_previous s)))
      in if kek s \<noteq> [] then kek s # retired else retired)"

definition release_data_key :: "fernet \<Rightarrow> Job \<Rightarrow> Provider \<Rightarrow> Settings \<Rightarrow> string + string" where
  "release_data_key F job provider settings =
     (if kek settings = [] then Inl ''key brokering is not configured''
      else case j_wrapped_key job of
        None \<Rightarrow> Inl ''job has no brokered key''
      | Some wrapped \<Rightarrow>
          if \<not> (j_status job = js_assigned \<or> j_status job = js_running)
          then Inl ''job is not in flight; key no longer available''
          else if j_data_tier job = dt_confidential_tee \<and> \<not> pr_tee_attested provider
          then Inl ''provider has no valid TEE attestation''
          else (case decrypt_rotating F wrapped (all_keks settings) of
                  None \<Rightarrow> Inl ''could not unwrap job key'' | Some k \<Rightarrow> Inr k))"

lemma release_data_key_policy:
  assumes "release_data_key F job p s = Inr k"
  shows "j_status job = js_assigned \<or> j_status job = js_running"
    "j_data_tier job = dt_confidential_tee \<Longrightarrow> pr_tee_attested p"
  using assms by (auto simp: release_data_key_def split: if_splits option.splits)

section \<open>secrets\_broker.py\<close>

definition job_token :: "uuid \<Rightarrow> int \<Rightarrow> string \<Rightarrow> string" where
  "job_token job_id window secret =
     hmac_sha256 (utf8 secret) (''jobsecret:'' @ uuid_str job_id @ '':'' @ int_str window)"

fun DataTier_str :: "DataTier \<Rightarrow> string" where
  "DataTier_str dt_public = ''public''"
| "DataTier_str dt_encrypted_at_rest = ''encrypted_at_rest''"
| "DataTier_str dt_confidential_tee = ''confidential_tee''"

definition mint_job_secrets :: "Job \<Rightarrow> Settings \<Rightarrow> int \<Rightarrow> string + ((string \<times> string) list \<times> int)" where
  "mint_job_secrets job settings now =
     (if \<not> (j_status job = js_assigned \<or> j_status job = js_running)
      then Inl ''job is not in flight; secrets no longer available''
      else
        (let ttl = secrets_ttl_seconds settings; window = now div ttl;
             secrets = [(''GRIDIX_JOB_ID'', uuid_str (j_id job)),
                        (''GRIDIX_JOB_TOKEN'', job_token (j_id job) window (endpoint_signing_key settings))]
         in Inr (if j_data_tier job \<noteq> dt_public
                 then secrets @ [(''GRIDIX_DATA_TIER'', DataTier_str (j_data_tier job))] else secrets,
                 (window + 1) * ttl)))"

text \<open>A minted secret expires in the future, and within one lifetime.\<close>

lemma mint_job_secrets_expiry:
  assumes "mint_job_secrets job s now = Inr (secrets, expires)" "valid_settings s"
  shows "now < expires" "expires \<le> now + secrets_ttl_seconds s"
proof -
  have ttl: "0 < secrets_ttl_seconds s"
    using assms(2) unfolding valid_settings_def field_bounds_def by linarith
  have e: "expires = (now div secrets_ttl_seconds s + 1) * secrets_ttl_seconds s"
    using assms(1) by (auto simp: mint_job_secrets_def Let_def split: if_splits)
  have "now div secrets_ttl_seconds s * secrets_ttl_seconds s = now - now mod secrets_ttl_seconds s"
    by (simp add: minus_mod_eq_div_mult)
  moreover have "now mod secrets_ttl_seconds s < secrets_ttl_seconds s" "0 \<le> now mod secrets_ttl_seconds s"
    using ttl by simp_all
  ultimately show "now < expires" "expires \<le> now + secrets_ttl_seconds s"
    unfolding e distrib_right by linarith+
qed

section \<open>health.py\<close>

record HealthReport =
  hr_gpu_temp_c :: "rat option"
  hr_throttling :: bool
  hr_error_rate :: rat
  hr_latency_ms :: "rat option"

definition evaluate_degraded :: "HealthReport \<Rightarrow> Settings \<Rightarrow> bool \<times> string" where
  "evaluate_degraded sample settings =
     (if hr_throttling sample then (True, ''gpu throttling'')
      else
        (let hot = (case hr_gpu_temp_c sample of None \<Rightarrow> False | Some t \<Rightarrow> t > dbl (health_max_gpu_temp_c settings))
         in if hot then (True, ''gpu temp '' @ float_repr (the (hr_gpu_temp_c sample)) @ ''C over ''
                              @ float_repr (dbl (health_max_gpu_temp_c settings)) @ ''C'')
            else if hr_error_rate sample > dbl (health_max_error_rate settings)
            then (True, ''error rate '' @ float_repr (hr_error_rate sample) @ '' over ''
                        @ float_repr (dbl (health_max_error_rate settings)))
            else (False, ''healthy'')))"

section \<open>benchmark.py and antispoof.py\<close>

definition MIN_GPU_RATIO :: rat where
  "MIN_GPU_RATIO = dbl (6 / 10)"

definition GPU_REFERENCE_TFLOPS :: "(string \<times> rat) list" where
  "GPU_REFERENCE_TFLOPS = [(''A100'', dbl (195 / 10)), (''H100'', 67), (''V100'', 7), (''T4'', dbl (81 / 10)), (''L4'', dbl (303 / 10))]"

definition sign_report :: "jdict \<Rightarrow> string \<Rightarrow> string" where
  "sign_report metrics provider_key = hmac_sha256 (utf8 provider_key) (canonical_evidence metrics)"

definition verify_signature :: "jdict \<Rightarrow> string \<Rightarrow> string \<Rightarrow> err + bool" where
  "verify_signature metrics signature provider_key =
     (case compare_digest signature (sign_report metrics provider_key) of None \<Rightarrow> Inl TypeError | Some b \<Rightarrow> Inr b)"

text \<open>Whether the measured numbers agree with the declared hardware (the reason text is only logged).\<close>

definition validate_benchmark :: "jdict \<Rightarrow> string option \<Rightarrow> bool" where
  "validate_benchmark metrics declared_gpu_model =
     (case declared_gpu_model of
        None \<Rightarrow> True
      | Some model \<Rightarrow>
          if model = [] then True
          else if jget metrics ''gpu_model'' \<noteq> JNull \<and> jget metrics ''gpu_model'' \<noteq> JStr model then False
          else
            (case map_of GPU_REFERENCE_TFLOPS model of
               None \<Rightarrow> True
             | Some reference \<Rightarrow>
                 (case num_of (jget metrics ''gpu_tflops'') of
                    None \<Rightarrow> False
                  | Some measured \<Rightarrow> measured > 0 \<and> \<not> measured < dbl (reference * MIN_GPU_RATIO))))"

definition trust_source :: "bool \<Rightarrow> bool \<Rightarrow> string" where
  "trust_source tee_attested has_validated_benchmark =
     (if tee_attested then ''attested'' else if has_validated_benchmark then ''benchmark'' else ''self_report'')"

definition VRAM_INFLATION_RATIO :: rat where
  "VRAM_INFLATION_RATIO = 125 / 100"

definition find_hardware_collisions :: "string \<Rightarrow> uuid \<Rightarrow> db \<Rightarrow> uuid list" where
  "find_hardware_collisions fingerprint provider_id d =
     (if fingerprint = [] then []
      else remdups (map br_provider_id
             (filter (\<lambda>r. br_hardware_fingerprint r = Some fingerprint \<and> br_provider_id r \<noteq> provider_id)
                (benchmark_reports d))))"

definition detect_capacity_inflation :: "jdict \<Rightarrow> Provider \<Rightarrow> bool" where
  "detect_capacity_inflation metrics provider =
     (case num_of (jget metrics ''gpu_vram_mb'') of
        None \<Rightarrow> False
      | Some measured \<Rightarrow>
          pr_gpu_vram_mb provider > 0
          \<and> of_int (pr_gpu_vram_mb provider) > dbl (dbl measured * VRAM_INFLATION_RATIO))"

section \<open>paths.py\<close>

datatype NatType = nat_open | nat_restricted | nat_symmetric

definition direct_feasible :: "NatType \<Rightarrow> NatType \<Rightarrow> bool" where
  "direct_feasible local remote =
     (if local = nat_open \<or> remote = nat_open then True
      else nat_symmetric \<notin> {local, remote})"

definition provider_directly_reachable :: "NatType \<Rightarrow> bool" where
  "provider_directly_reachable provider_nat \<longleftrightarrow> provider_nat \<noteq> nat_symmetric"

text \<open>\<open>check\<close> is the outcome of the injected connectivity check within the timeout; \<open>None\<close> when it raised or
  ran out of time.\<close>

definition negotiate_path :: "NatType \<Rightarrow> NatType \<Rightarrow> bool option \<Rightarrow> PathType" where
  "negotiate_path local remote check =
     (if \<not> direct_feasible local remote then pt_relay
      else (case check of None \<Rightarrow> pt_relay | Some ok \<Rightarrow> if ok then pt_direct else pt_relay))"

definition record_path :: "Provider \<Rightarrow> PathType \<Rightarrow> instant \<Rightarrow> Provider" where
  "record_path provider path_type now =
     provider\<lparr>pr_path_type := Some path_type, pr_path_established_at := Some now\<rparr>"

text \<open>\<open>ProviderChannel.send\<close>: the new path and the answer; a failed direct send is retried over the relay
  and downgrades the channel.\<close>

definition channel_send ::
    "('req \<Rightarrow> 'e + 'resp) \<Rightarrow> ('req \<Rightarrow> 'e + 'resp) \<Rightarrow> PathType \<Rightarrow> 'req \<Rightarrow> PathType \<times> ('e + 'resp)" where
  "channel_send direct_send relay_send path request =
     (if path = pt_direct
      then (case direct_send request of Inr r \<Rightarrow> (pt_direct, Inr r) | Inl _ \<Rightarrow> (pt_relay, relay_send request))
      else (path, relay_send request))"

lemma direct_feasible_sym: "direct_feasible a b = direct_feasible b a"
  by (auto simp: direct_feasible_def)

lemma negotiate_direct_iff: "negotiate_path l r c = pt_direct \<longleftrightarrow> direct_feasible l r \<and> c = Some True"
  by (auto simp: negotiate_path_def split: option.splits)

section \<open>peer\_distribution.py\<close>

datatype FetchSource = Origin | Peer uuid

definition seeders_for :: "string \<Rightarrow> uuid option \<Rightarrow> db \<Rightarrow> uuid list" where
  "seeders_for digest exclude d =
     map pa_provider_id (filter (\<lambda>a. pa_digest a = digest \<and> (case exclude of None \<Rightarrow> True | Some p \<Rightarrow> pa_provider_id a \<noteq> p))
                          (provider_artifacts d))"

definition plan_fetch :: "uuid \<Rightarrow> string \<Rightarrow> Settings \<Rightarrow> db \<Rightarrow> FetchSource" where
  "plan_fetch requester_id digest settings d =
     (if \<not> peer_distribution_enabled settings then Origin
      else (case seeders_for digest (Some requester_id) d of [] \<Rightarrow> Origin | p # _ \<Rightarrow> Peer p))"

lemma plan_fetch_peer:
  "plan_fetch me digest s d = Peer p \<Longrightarrow> p \<noteq> me \<and> (\<exists>a \<in> set (provider_artifacts d). pa_provider_id a = p \<and> pa_digest a = digest)"
  by (auto simp: plan_fetch_def seeders_for_def filter_eq_Cons_iff split: if_splits list.splits)

end
