(* ===== verification/Storage.thy ===== *)
theory Storage
  imports Models Stdlib
begin

text \<open>
  Content-addressed blob storage (\<open>api/app/storage.py\<close>).  The contract of the abstract class
  \<open>Storage\<close> is the locale \<open>content_store\<close>; it is interpreted on both backends, \<open>LocalStorage\<close> over a
  directory and \<open>S3Storage\<close> over the in-memory object store.  Bytes are strings.
\<close>

definition content_digest :: "string \<Rightarrow> string" where
  "content_digest data = sha256 data"

definition content_ref :: "string \<Rightarrow> string \<Rightarrow> string" where
  "content_ref data suffix = content_digest data @ suffix"

definition verify_integrity :: "string \<Rightarrow> string \<Rightarrow> err + unit" where
  "verify_integrity ref data =
     (let expected = take 64 ref; actual = content_digest data
      in if actual \<noteq> expected then Inl (BlobIntegrityError ref actual) else Inr ())"

text \<open>\<open>Storage.get\<close>, over the backend's \<open>_read\<close>\<close>

definition storage_get :: "(string \<Rightarrow> 's \<Rightarrow> err + string) \<Rightarrow> string \<Rightarrow> 's \<Rightarrow> err + string" where
  "storage_get read ref s =
     bindE (read ref s) (\<lambda>data. bindE (verify_integrity ref data) (\<lambda>_. Inr data))"

section \<open>LocalStorage\<close>

text \<open>The directory's plain files, by name.  The names that resolve to the directory itself, and the
  staging directory kept inside it, exist without being readable.\<close>

type_synonym files = "string \<Rightarrow> string option"

definition directory_names :: "string list" where
  "directory_names = [[], ''.'', ''staging'']"

fun has_dotdot :: "string \<Rightarrow> bool" where
  "has_dotdot (a # b # cs) = ((a = CHR ''.'' \<and> b = CHR ''.'') \<or> has_dotdot (b # cs))"
| "has_dotdot _ = False"

definition LocalStorage_path :: "string \<Rightarrow> err + string" where
  "LocalStorage_path ref =
     (if CHR ''/'' \<in> set ref \<or> CHR 0x5C \<in> set ref \<or> has_dotdot ref
      then Inl (ValueError (''invalid blob ref: '' @ ref)) else Inr ref)"

definition path_exists :: "string \<Rightarrow> files \<Rightarrow> bool" where
  "path_exists path fs \<longleftrightarrow> path \<in> set directory_names \<or> fs path \<noteq> None"

definition LocalStorage_put :: "string \<Rightarrow> string \<Rightarrow> files \<Rightarrow> err + (string \<times> files)" where
  "LocalStorage_put data suffix fs =
     (let ref = content_ref data suffix in
      bindE (LocalStorage_path ref) (\<lambda>path.
        Inr (ref, if \<not> path_exists path fs then fs(path \<mapsto> data) else fs)))"

definition LocalStorage_read :: "string \<Rightarrow> files \<Rightarrow> err + string" where
  "LocalStorage_read ref fs =
     bindE (LocalStorage_path ref) (\<lambda>path.
       if path \<in> set directory_names then Inl (OSError ''Is a directory'')
       else (case fs path of None \<Rightarrow> Inl (FileNotFoundError path) | Some data \<Rightarrow> Inr data))"

definition LocalStorage_exists :: "string \<Rightarrow> files \<Rightarrow> err + bool" where
  "LocalStorage_exists ref fs = bindE (LocalStorage_path ref) (\<lambda>path. Inr (path_exists path fs))"

section \<open>S3Storage over InMemoryObjectStore\<close>

type_synonym objects = "string \<Rightarrow> string option"

definition put_object :: "string \<Rightarrow> string \<Rightarrow> objects \<Rightarrow> objects" where
  "put_object key data objs = objs(key \<mapsto> data)"

definition get_object :: "string \<Rightarrow> objects \<Rightarrow> err + string" where
  "get_object key objs = (case objs key of None \<Rightarrow> Inl (FileNotFoundError key) | Some data \<Rightarrow> Inr data)"

definition head_object :: "string \<Rightarrow> objects \<Rightarrow> bool" where
  "head_object key objs \<longleftrightarrow> objs key \<noteq> None"

definition S3Storage_key :: "string \<Rightarrow> string" where
  "S3Storage_key ref = ''blobs/'' @ ref"

definition S3Storage_put :: "string \<Rightarrow> string \<Rightarrow> objects \<Rightarrow> err + (string \<times> objects)" where
  "S3Storage_put data suffix objs =
     (let ref = content_ref data suffix
      in Inr (ref, if \<not> head_object (S3Storage_key ref) objs
                   then put_object (S3Storage_key ref) data objs else objs))"

definition S3Storage_read :: "string \<Rightarrow> objects \<Rightarrow> err + string" where
  "S3Storage_read ref objs = get_object (S3Storage_key ref) objs"

definition S3Storage_exists :: "string \<Rightarrow> objects \<Rightarrow> err + bool" where
  "S3Storage_exists ref objs = Inr (head_object (S3Storage_key ref) objs)"

section \<open>The contract\<close>

locale content_store =
  fixes put :: "string \<Rightarrow> string \<Rightarrow> 's \<Rightarrow> err + (string \<times> 's)"
    and read :: "string \<Rightarrow> 's \<Rightarrow> err + string"
    and exist :: "string \<Rightarrow> 's \<Rightarrow> err + bool"
  assumes put_ref: "put data suffix s = Inr (ref, s') \<Longrightarrow> ref = content_ref data suffix"
    and put_read: "put data suffix s = Inr (ref, s') \<Longrightarrow> read ref s' = (case read ref s of Inr x \<Rightarrow> Inr x | Inl _ \<Rightarrow> Inr data)"
    and put_other: "put data suffix s = Inr (ref, s') \<Longrightarrow> ref' \<noteq> ref \<Longrightarrow> read ref' s' = read ref' s"
    and put_total: "\<exists>s'. put data [] s = Inr (content_ref data [], s')"
    and read_exist: "read ref s = Inr x \<Longrightarrow> exist ref s = Inr True"
begin

text \<open>Whatever can be read has the digest its ref names.\<close>

definition addressed :: "'s \<Rightarrow> bool" where
  "addressed s \<longleftrightarrow> (\<forall>ref x. read ref s = Inr x \<longrightarrow> take 64 ref = content_digest x)"

lemma put_addressed:
  assumes "addressed s" "put data suffix s = Inr (ref, s')"
  shows "addressed s'"
  unfolding addressed_def
proof (intro allI impI)
  fix r x
  assume x: "read r s' = Inr x"
  show "take 64 r = content_digest x"
  proof (cases "r = ref")
    case True
    have "x = data \<or> read ref s = Inr x" using x True put_read [OF assms(2)] by (auto split: sum.splits)
    then show ?thesis
    proof
      assume "x = data"
      then show ?thesis using True put_ref [OF assms(2)] by (simp add: content_ref_def content_digest_def)
    next
      assume "read ref s = Inr x"
      then show ?thesis using True assms(1) unfolding addressed_def by blast
    qed
  next
    case False
    then show ?thesis using x assms(1) put_other [OF assms(2)] by (simp add: addressed_def)
  qed
qed

text \<open>A stored ref keeps its bytes whatever is stored later.\<close>

lemma put_keeps:
  assumes "put data suffix s = Inr (ref, s')" "read r s = Inr x"
  shows "read r s' = Inr x"
  using assms put_read [OF assms(1)] put_other [OF assms(1)] by (cases "r = ref") auto

lemma get_addressed: "addressed s \<Longrightarrow> storage_get read r s = read r s"
  by (cases "read r s") (auto simp: storage_get_def verify_integrity_def addressed_def)

text \<open>Reading back what was just stored gives bytes with the same digest: the bytes themselves unless
  a collision was stored before.\<close>

lemma put_get:
  assumes "addressed s" "put data suffix s = Inr (ref, s')"
  obtains x where "storage_get read ref s' = Inr x" "content_digest x = content_digest data"
    "x = data \<or> read ref s = Inr x"
proof -
  obtain x where x: "read ref s' = Inr x" "x = data \<or> read ref s = Inr x"
    using put_read [OF assms(2)] by (auto split: sum.splits)
  have "content_digest x = take 64 ref"
    using x(1) put_addressed [OF assms] by (simp add: addressed_def)
  also have "\<dots> = content_digest data"
    by (simp add: put_ref [OF assms(2)] content_ref_def content_digest_def)
  finally show ?thesis using x get_addressed [OF put_addressed [OF assms]] by (intro that) auto
qed

lemma put_get_fresh:
  assumes "addressed s" "put data suffix s = Inr (ref, s')"
    and inj: "\<And>x. content_digest x = content_digest data \<Longrightarrow> x = data"
  shows "storage_get read ref s' = Inr data"
  using put_get [OF assms(1,2)] inj by metis

lemma put_exist:
  assumes "put data suffix s = Inr (ref, s')"
  shows "exist ref s' = Inr True"
proof -
  obtain x where "read ref s' = Inr x" using put_read [OF assms] by (auto split: sum.splits)
  then show ?thesis by (rule read_exist)
qed

end

lemma path_Inr: "LocalStorage_path ref = Inr p \<longleftrightarrow> p = ref \<and> CHR ''/'' \<notin> set ref \<and> CHR 0x5C \<notin> set ref \<and> \<not> has_dotdot ref"
  by (auto simp: LocalStorage_path_def)

lemma content_ref_plain: "content_ref data suffix \<notin> set directory_names"
proof -
  have "64 \<le> length (content_ref data suffix)" by (simp add: content_ref_def content_digest_def)
  then show ?thesis by (auto simp: directory_names_def)
qed

lemma no_dotdot: "CHR ''.'' \<notin> set xs \<Longrightarrow> \<not> has_dotdot xs"
  by (induction xs rule: has_dotdot.induct) auto

lemma digest_path: "LocalStorage_path (content_ref data []) = Inr (content_ref data [])"
proof -
  have "CHR ''/'' \<notin> set (sha256 data)" "CHR 0x5C \<notin> set (sha256 data)" "CHR ''.'' \<notin> set (sha256 data)"
    using sha256_chars [of data] by (auto simp: hex_chars_def)
  then show ?thesis by (simp add: path_Inr content_ref_def content_digest_def no_dotdot)
qed

lemma local_put_Inr:
  "LocalStorage_put data suffix fs = Inr (ref, fs') \<longleftrightarrow>
     ref = content_ref data suffix \<and> LocalStorage_path ref = Inr ref
     \<and> fs' = (if fs ref = None then fs(ref \<mapsto> data) else fs)"
  using content_ref_plain [of data suffix]
  by (auto simp: LocalStorage_put_def Let_def bindE_Inr_iff path_Inr path_exists_def)

lemma local_read_Inr:
  "LocalStorage_read ref fs = Inr x \<longleftrightarrow> LocalStorage_path ref = Inr ref \<and> ref \<notin> set directory_names \<and> fs ref = Some x"
  by (auto simp: LocalStorage_read_def bindE_Inr_iff path_Inr split: option.splits)

lemma local_read_cong: "fs' ref = fs ref \<Longrightarrow> LocalStorage_read ref fs' = LocalStorage_read ref fs"
  by (simp add: LocalStorage_read_def LocalStorage_path_def)

interpretation local_fs: content_store LocalStorage_put LocalStorage_read LocalStorage_exists
proof
  show "LocalStorage_put data suffix s = Inr (ref, s') \<Longrightarrow> ref = content_ref data suffix" for data suffix s ref s'
    by (simp add: local_put_Inr)
  show "LocalStorage_read ref s' = (case LocalStorage_read ref s of Inr x \<Rightarrow> Inr x | Inl _ \<Rightarrow> Inr data)"
    if "LocalStorage_put data suffix s = Inr (ref, s')" for data suffix s ref s'
    using that content_ref_plain [of data suffix]
    by (auto simp: local_put_Inr LocalStorage_read_def split: option.splits)
  show "LocalStorage_read ref' s' = LocalStorage_read ref' s"
    if "LocalStorage_put data suffix s = Inr (ref, s')" "ref' \<noteq> ref" for data suffix s ref s' ref'
    using that by (intro local_read_cong) (auto simp: local_put_Inr)
  show "\<exists>s'. LocalStorage_put data [] s = Inr (content_ref data [], s')" for data s
    by (simp add: local_put_Inr digest_path)
  show "LocalStorage_read ref s = Inr x \<Longrightarrow> LocalStorage_exists ref s = Inr True" for ref s x
    by (auto simp: local_read_Inr LocalStorage_exists_def path_exists_def)
qed

interpretation s3: content_store S3Storage_put S3Storage_read S3Storage_exists
  by standard (auto simp: S3Storage_put_def S3Storage_read_def S3Storage_exists_def Let_def get_object_def
      put_object_def head_object_def S3Storage_key_def split: option.splits if_splits)

end
