(* ===== verification/Agent_Routes.thy ===== *)
theory Agent_Routes
  imports Assignment Hardware Storage
begin

text \<open>
  The agent protocol, \<open>api/app/routes/agent.py\<close>: one definition per endpoint, over the authenticated
  provider row, the request body and the database.  A handler answers \<open>Inr (response, db')\<close>, or \<open>Inl\<close> the
  exception it raises, in which case the session is rolled back.  The clock is read once per call.
\<close>

definition MAX_BLOB_BYTES :: int where
  "MAX_BLOB_BYTES = 256 * 1024 * 1024"

abbreviation not_found :: "string \<Rightarrow> err" where
  "not_found detail \<equiv> HTTPException 404 detail"

abbreviation conflict :: "string \<Rightarrow> err" where
  "conflict detail \<equiv> HTTPException 409 detail"

section \<open>Ownership\<close>

definition provider_attempt :: "Provider \<Rightarrow> uuid \<Rightarrow> db \<Rightarrow> JobAttempt option" where
  "provider_attempt provider job_id d =
     latest (filter (\<lambda>a. at_job_id a = job_id \<and> at_provider_id a = Some (pr_id provider) \<and> at_finished_at a = None)
               (job_attempts d))"

definition owned_active_job :: "Provider \<Rightarrow> uuid \<Rightarrow> db \<Rightarrow> err + Job" where
  "owned_active_job provider job_id d =
     (case get_job job_id d of
        None \<Rightarrow> Inl (not_found ''Job not found.'')
      | Some job \<Rightarrow>
          if provider_attempt provider job_id d = None then Inl (not_found ''Job not found.'') else Inr job)"

text \<open>\<open>ORDER BY assigned_at ASC\<close>, with nulls last.\<close>

definition assigned_key :: "Job \<Rightarrow> int \<times> instant" where
  "assigned_key job = (case j_assigned_at job of Some t \<Rightarrow> (0, t) | None \<Rightarrow> (1, 0))"

definition next_assigned_job :: "Provider \<Rightarrow> db \<Rightarrow> Job option" where
  "next_assigned_job provider d =
     (let rows = filter (\<lambda>job. in_flight job \<and>
                   list_ex (\<lambda>a. at_job_id a = j_id job \<and> at_provider_id a = Some (pr_id provider)
                                \<and> at_outcome a = ao_assigned \<and> at_finished_at a = None) (job_attempts d)) (jobs d)
      in case sort_key assigned_key rows of [] \<Rightarrow> None | job # _ \<Rightarrow> Some job)"

section \<open>Polling and presence\<close>

record AgentJob =
  aj_id :: uuid
  aj_image_ref :: string
  aj_input_ref :: "string option"
  aj_resource_spec :: ResourceSpec
  aj_args :: "jdict option"
  aj_allow_egress :: bool
  aj_timeout_seconds :: int
  aj_exposed_port :: "int option"
  aj_lease_expires_at :: "instant option"

definition agent_job :: "Job \<Rightarrow> AgentJob" where
  "agent_job job = \<lparr> aj_id = j_id job, aj_image_ref = j_image_ref job, aj_input_ref = j_input_ref job,
     aj_resource_spec = j_resource_spec job, aj_args = j_args job, aj_allow_egress = j_allow_egress job,
     aj_timeout_seconds = j_timeout_seconds job, aj_exposed_port = j_exposed_port job,
     aj_lease_expires_at = j_lease_expires_at job \<rparr>"

text \<open>The long-poll loop over what its iterations observe: the database each query reads and the clock
  read after it.  \<open>None\<close> is a request still being held.\<close>

fun poll_loop :: "instant \<Rightarrow> Provider \<Rightarrow> (db \<times> instant) list \<Rightarrow> AgentJob option option" where
  "poll_loop deadline provider [] = None"
| "poll_loop deadline provider ((d, now) # later) =
     (case next_assigned_job provider d of
        Some job \<Rightarrow> Some (Some (agent_job job))
      | None \<Rightarrow> if deadline - now \<le> 0 then Some None else poll_loop deadline provider later)"

definition poll_seen :: "instant \<Rightarrow> Settings \<Rightarrow> Provider \<Rightarrow> db \<Rightarrow> db" where
  "poll_seen now settings provider d =
     put_provider (mark_seen provider now (connection_timeout_seconds settings)) d"

definition poll :: "instant \<Rightarrow> Settings \<Rightarrow> Provider \<Rightarrow> (db \<times> instant) list \<Rightarrow> AgentJob option option" where
  "poll now settings provider observed =
     poll_loop (now + timedelta_seconds (poll_hold_seconds settings)) provider observed"

definition ping ::
    "instant \<Rightarrow> Settings \<Rightarrow> Provider \<Rightarrow> db \<Rightarrow> (bool \<times> instant option \<times> instant option) \<times> db" where
  "ping now settings provider d =
     (let provider = mark_seen provider now (connection_timeout_seconds settings)
      in ((is_connected provider now (connection_timeout_seconds settings), pr_connected_at provider, pr_last_seen provider),
          put_provider provider d))"

definition report_path :: "instant \<Rightarrow> Settings \<Rightarrow> NatType \<Rightarrow> Provider \<Rightarrow> db \<Rightarrow> PathType \<times> db" where
  "report_path now settings provider_nat provider d =
     (let provider = mark_seen provider now (connection_timeout_seconds settings);
          path = (if provider_directly_reachable provider_nat then pt_direct else pt_relay)
      in (path, put_provider (record_path provider path now) d))"

section \<open>The artifact cache\<close>

fun cache_rows :: "uuid \<Rightarrow> string list \<Rightarrow> string list \<Rightarrow> uuid \<Rightarrow> ProviderArtifact list" where
  "cache_rows provider_id [] seen k = []"
| "cache_rows provider_id (digest # digests) seen k =
     (if digest \<noteq> [] \<and> digest \<notin> set seen
      then \<lparr> pa_id = k, pa_provider_id = provider_id, pa_digest = digest \<rparr>
           # cache_rows provider_id digests (digest # seen) (Suc k)
      else cache_rows provider_id digests seen k)"

definition report_cache :: "instant \<Rightarrow> Settings \<Rightarrow> string list \<Rightarrow> Provider \<Rightarrow> db \<Rightarrow> db" where
  "report_cache now settings cached provider d =
     (let d = put_provider (mark_seen provider now (connection_timeout_seconds settings)) d;
          kept = filter (\<lambda>a. pa_provider_id a \<noteq> pr_id provider) (provider_artifacts d);
          rows = cache_rows (pr_id provider) cached [] (next_id d)
      in d\<lparr>provider_artifacts := kept @ rows, next_id := next_id d + length rows\<rparr>)"

record PeerFetchPlan =
  fp_enabled :: bool
  fp_source :: FetchSource
  fp_seeders :: "uuid list"

definition artifact_peers :: "Settings \<Rightarrow> string \<Rightarrow> Provider \<Rightarrow> db \<Rightarrow> PeerFetchPlan" where
  "artifact_peers settings digest provider d =
     \<lparr> fp_enabled = peer_distribution_enabled settings,
       fp_source = plan_fetch (pr_id provider) digest settings d,
       fp_seeders = (if peer_distribution_enabled settings then seeders_for digest (Some (pr_id provider)) d else []) \<rparr>"

section \<open>Leases and status\<close>

definition heartbeat :: "instant \<Rightarrow> Settings \<Rightarrow> uuid \<Rightarrow> Provider \<Rightarrow> db \<Rightarrow> err + ((uuid \<times> instant) \<times> db)" where
  "heartbeat now settings job_id provider d =
     bindE (owned_active_job provider job_id d) (\<lambda>job.
       if \<not> in_flight job then Inl (conflict ''Job is not in flight.'')
       else
         (let d = put_provider (mark_seen provider now (connection_timeout_seconds settings)) d;
              lease = now + seconds (lease_seconds settings);
              d = put_job (job\<lparr>j_lease_expires_at := Some lease\<rparr>) d;
              d = (case provider_attempt provider (j_id job) d of
                     None \<Rightarrow> d
                   | Some attempt \<Rightarrow> put_attempt (attempt\<lparr>at_lease_expires_at := Some lease\<rparr>) d)
          in Inr ((j_id job, lease), d)))"

text \<open>The \<open>str\<close> of the exception, as the 409 answer carries it.\<close>

fun JobStatus_str :: "JobStatus \<Rightarrow> string" where
  "JobStatus_str js_queued = ''queued''"
| "JobStatus_str js_assigned = ''assigned''"
| "JobStatus_str js_running = ''running''"
| "JobStatus_str js_completed = ''completed''"
| "JobStatus_str js_failed = ''failed''"
| "JobStatus_str js_timeout = ''timeout''"

definition report_status :: "instant \<Rightarrow> Settings \<Rightarrow> uuid \<Rightarrow> Provider \<Rightarrow> db \<Rightarrow> err + ((uuid \<times> JobStatus) \<times> db)" where
  "report_status now settings job_id provider d =
     bindE (owned_active_job provider job_id d) (\<lambda>job.
       if \<not> in_flight job then Inl (conflict ''Job is not in flight.'')
       else
         (let d = put_provider (mark_seen provider now (connection_timeout_seconds settings)) d in
          bindE (if j_status job = js_assigned
                 then (case transition now job js_running of
                         Inl (IllegalTransitionError a b) \<Rightarrow>
                           Inl (conflict (''illegal job transition: '' @ JobStatus_str a @ '' -> '' @ JobStatus_str b))
                       | r \<Rightarrow> r)
                 else Inr job) (\<lambda>job.
            let d = put_job job d;
                d = (case provider_attempt provider job_id d of
                       None \<Rightarrow> d
                     | Some attempt \<Rightarrow>
                         put_attempt (attempt\<lparr>at_outcome := ao_running, at_started_at := Some now\<rparr>) d)
            in Inr ((j_id job, j_status job), d))))"

section \<open>Hardware claims\<close>

definition submit_benchmark ::
    "instant \<Rightarrow> Settings \<Rightarrow> jdict \<Rightarrow> string \<Rightarrow> string \<Rightarrow> Provider \<Rightarrow> db \<Rightarrow> err + (BenchmarkReport \<times> db)" where
  "submit_benchmark now settings metrics signature provider_key provider d =
     bindE (verify_signature metrics signature provider_key) (\<lambda>genuine.
       if \<not> genuine then Inl (HTTPException 400 ''Benchmark signature is invalid.'')
       else
         (let provider = mark_seen provider now (connection_timeout_seconds settings);
              ok = validate_benchmark metrics (pr_gpu_model provider);
              fp = jget metrics ''hardware_fingerprint'';
              fingerprint = (if truthy fp \<and> py_str fp \<noteq> [] then Some (py_str fp) else None);
              collisions = (case fingerprint of None \<Rightarrow> [] | Some f \<Rightarrow> find_hardware_collisions f (pr_id provider) d);
              ok = (if collisions \<noteq> [] then False
                    else if detect_capacity_inflation metrics provider then False else ok);
              report = \<lparr> br_id = next_id d, br_provider_id = pr_id provider, br_metrics = metrics,
                         br_signature = signature, br_validated = ok, br_hardware_fingerprint = fingerprint \<rparr>;
              provider = (if \<not> ok then provider\<lparr>pr_enabled := False\<rparr> else provider);
              d = put_provider provider d
          in Inr (report, d\<lparr>benchmark_reports := benchmark_reports d @ [report], next_id := Suc (next_id d)\<rparr>)))"

definition report_health :: "instant \<Rightarrow> Settings \<Rightarrow> HealthReport \<Rightarrow> Provider \<Rightarrow> db \<Rightarrow> (bool \<times> string) \<times> db" where
  "report_health now settings body provider d =
     (let provider = mark_seen provider now (connection_timeout_seconds settings);
          sample = \<lparr> hs_id = next_id d, hs_provider_id = pr_id provider, hs_gpu_temp_c = hr_gpu_temp_c body,
                     hs_throttling = hr_throttling body, hs_error_rate = hr_error_rate body,
                     hs_latency_ms = hr_latency_ms body \<rparr>;
          (degraded, reason) = evaluate_degraded body settings;
          d = put_provider (provider\<lparr>pr_degraded := degraded\<rparr>) d
      in ((degraded, reason), d\<lparr>health_samples := health_samples d @ [sample], next_id := Suc (next_id d)\<rparr>))"

text \<open>The flag is cleared before the refusal is raised; the raise rolls the session back.\<close>

definition submit_attestation :: "instant \<Rightarrow> Settings \<Rightarrow> string \<Rightarrow> string \<Rightarrow> Provider \<Rightarrow> db \<Rightarrow> err + (bool \<times> db)" where
  "submit_attestation now settings measurement signature provider d =
     (let provider = mark_seen provider now (connection_timeout_seconds settings) in
      bindE (verify_attestation measurement signature settings) (\<lambda>attested.
        let d = put_provider (provider\<lparr>pr_tee_attested := attested\<rparr>) d
        in if \<not> attested then Inl (HTTPException 400 ''Attestation verification failed.'') else Inr (True, d)))"

section \<open>Keys and secrets\<close>

definition get_job_key :: "fernet \<Rightarrow> Settings \<Rightarrow> uuid \<Rightarrow> Provider \<Rightarrow> db \<Rightarrow> err + string" where
  "get_job_key F settings job_id provider d =
     bindE (owned_active_job provider job_id d) (\<lambda>job.
       case release_data_key F job provider settings of
         Inl reason \<Rightarrow> Inl (conflict reason) | Inr dek \<Rightarrow> Inr dek)"

definition get_job_secrets ::
    "int \<Rightarrow> Settings \<Rightarrow> uuid \<Rightarrow> Provider \<Rightarrow> db \<Rightarrow> err + ((string \<times> string) list \<times> int)" where
  "get_job_secrets epoch settings job_id provider d =
     bindE (owned_active_job provider job_id d) (\<lambda>job.
       case mint_job_secrets job settings epoch of
         Inl reason \<Rightarrow> Inl (conflict reason) | Inr r \<Rightarrow> Inr r)"

section \<open>Blobs\<close>

text \<open>\<open>blob\<close> is \<open>get_storage().get\<close>.  The body is \<open>None\<close> for the 204 answer of a job without input.\<close>

definition download_input ::
    "(string \<Rightarrow> err + string) \<Rightarrow> instant \<Rightarrow> uuid \<Rightarrow> Provider \<Rightarrow> db \<Rightarrow> err + (string option \<times> db)" where
  "download_input blob now job_id provider d =
     bindE (owned_active_job provider job_id d) (\<lambda>job.
       case j_input_ref job of
         None \<Rightarrow> Inr (None, d)
       | Some ref \<Rightarrow>
           bindE (blob ref) (\<lambda>data.
             Inr (Some data, record_bandwidth now (pr_id provider) bd_ingress (int (length data)) (Some (j_id job)) d)))"

definition upload_result_blob ::
    "(string \<Rightarrow> string \<Rightarrow> 's \<Rightarrow> err + (string \<times> 's)) \<Rightarrow> instant \<Rightarrow> string \<Rightarrow> Provider \<Rightarrow> 's \<Rightarrow> db
     \<Rightarrow> err + ((string \<times> int) \<times> 's \<times> db)" where
  "upload_result_blob put now data provider store d =
     (if int (length data) > MAX_BLOB_BYTES
      then Inl (HTTPException 413 (''Blob exceeds '' @ int_str MAX_BLOB_BYTES @ '' bytes.''))
      else bindE (put data [] store) (\<lambda>(ref, store).
        Inr ((ref, int (length data)), store,
             record_bandwidth now (pr_id provider) bd_egress (int (length data)) None d)))"

section \<open>Results\<close>

definition submit_result ::
    "instant \<Rightarrow> Settings \<Rightarrow> uuid \<Rightarrow> AgentResultRequest \<Rightarrow> Provider \<Rightarrow> db \<Rightarrow> err + ((uuid \<times> JobStatus option) \<times> db)" where
  "submit_result now settings job_id body provider d =
     bindE (owned_active_job provider job_id d) (\<lambda>job.
       if \<not> in_flight job then Inl (conflict ''Job is not in flight.'')
       else
         (let claimed = jget (rq_proof body) ''output_sha256'';
              mismatch = (case rq_result_ref body of
                            None \<Rightarrow> False
                          | Some ref \<Rightarrow> \<not> is_sha256_hex claimed \<or> JStr (take 64 ref) \<noteq> claimed)
          in if mismatch
             then Inl (HTTPException 400 ''proof.output_sha256 must be the sha256 (64 hex chars) of result_ref.'')
             else bindE (record_result now job (pr_id provider) body settings d) (\<lambda>(final, d).
                    Inr ((j_id job, final), d))))"

section \<open>Every endpoint keeps the coordinator's invariant\<close>

definition keeps :: "db \<Rightarrow> db \<Rightarrow> bool" where
  "keeps d d' \<longleftrightarrow> coord_ok d' \<and> db_evolves d d'"

lemma keeps_refl: "coord_ok d \<Longrightarrow> keeps d d"
  by (simp add: keeps_def)

lemma keeps_trans: "keeps d e \<Longrightarrow> keeps e f \<Longrightarrow> keeps d f"
  by (auto simp: keeps_def intro: db_evolves_trans)

lemma get_provider_in: "get_provider k d = Some p \<Longrightarrow> p \<in> set (providers d)"
  by (auto simp: get_provider_def dest: tget_SomeD)

lemma put_provider_sel [simp]:
  "jobs (put_provider p d) = jobs d" "ledger_entries (put_provider p d) = ledger_entries d"
  "next_id (put_provider p d) = next_id d" "disputes (put_provider p d) = disputes d"
  "job_attempts (put_provider p d) = job_attempts d" "providers (put_provider p d) = tput pr_id p (providers d)"
  "provider_artifacts (put_provider p d) = provider_artifacts d"
  "benchmark_reports (put_provider p d) = benchmark_reports d" "health_samples (put_provider p d) = health_samples d"
  by (simp_all add: put_provider_def)

text \<open>Writing the caller's own row back with the same score, together with rows of tables the invariant
  does not read.\<close>

lemma own_row_keeps:
  assumes ok: "coord_ok d" and p: "get_provider (pr_id p) d = Some p"
    and p': "pr_reputation p' = pr_reputation p" "providers e = tput pr_id p' (providers d)"
    and e: "jobs e = jobs d" "ledger_entries e = ledger_entries d" "disputes e = disputes d" "next_id d \<le> next_id e"
  shows "keeps d e"
proof -
  have "\<exists>q \<in> set (providers d). pr_reputation x = pr_reputation q" if "x \<in> set (providers e)" for x
  proof -
    have "x = p' \<or> x \<in> set (providers d)" using that unfolding p'(2) by (auto simp: tput_def split: if_splits)
    then show ?thesis using get_provider_in [OF p] p'(1) by blast
  qed
  then have "coord_ok e" by (intro coord_ok_cong [OF e(2,3,1,4) _ ok]) auto
  then show ?thesis using e(1) by (simp add: keeps_def db_evolves_jobs)
qed

lemma owned_active_job_Inr:
  "owned_active_job p k d = Inr job \<longleftrightarrow> get_job k d = Some job \<and> provider_attempt p k d \<noteq> None"
  by (auto simp: owned_active_job_def split: option.splits if_splits)

lemma poll_seen_keeps:
  "coord_ok d \<Longrightarrow> get_provider (pr_id p) d = Some p \<Longrightarrow> keeps d (poll_seen now s p d)"
  by (rule own_row_keeps [of d p "mark_seen p now (connection_timeout_seconds s)"]) (simp_all add: poll_seen_def)

lemma ping_keeps:
  "coord_ok d \<Longrightarrow> get_provider (pr_id p) d = Some p \<Longrightarrow> keeps d (snd (ping now s p d))"
  using poll_seen_keeps by (simp add: ping_def poll_seen_def Let_def)

lemma report_path_keeps:
  "coord_ok d \<Longrightarrow> get_provider (pr_id p) d = Some p \<Longrightarrow> keeps d (snd (report_path now s nat_type p d))"
  unfolding report_path_def Let_def snd_conv
  by (rule own_row_keeps [OF _ _ _ put_provider_sel(6)]) (simp_all add: record_path_def)

lemma report_cache_keeps:
  "coord_ok d \<Longrightarrow> get_provider (pr_id p) d = Some p \<Longrightarrow> keeps d (report_cache now s cached p d)"
  by (rule own_row_keeps [of d p "mark_seen p now (connection_timeout_seconds s)"]) (simp_all add: report_cache_def Let_def)

lemma report_health_keeps:
  assumes "coord_ok d" "get_provider (pr_id p) d = Some p"
  shows "keeps d (snd (report_health now s body p d))"
proof -
  obtain deg reason where "evaluate_degraded body s = (deg, reason)" by force
  then show ?thesis
    using assms by (intro own_row_keeps [of d p "(mark_seen p now (connection_timeout_seconds s))\<lparr>pr_degraded := deg\<rparr>"])
      (simp_all add: report_health_def Let_def)
qed

lemma submit_attestation_keeps:
  assumes "submit_attestation now s m sig p d = Inr (b, d')" "coord_ok d" "get_provider (pr_id p) d = Some p"
  shows "keeps d d'" "verify_attestation m sig s = Inr True"
    "d' = put_provider ((mark_seen p now (connection_timeout_seconds s))\<lparr>pr_tee_attested := True\<rparr>) d"
proof -
  show 1: "verify_attestation m sig s = Inr True"
    and 2: "d' = put_provider ((mark_seen p now (connection_timeout_seconds s))\<lparr>pr_tee_attested := True\<rparr>) d"
    using assms(1) by (auto simp: submit_attestation_def Let_def bindE_Inr_iff split: if_splits)
  show "keeps d d'" unfolding 2 by (rule own_row_keeps [OF assms(2,3) _ put_provider_sel(6)]) simp_all
qed

lemma submit_benchmark_cases:
  assumes "submit_benchmark now s m sig key p d = Inr (r, d')"
  shows "verify_signature m sig key = Inr True" "br_provider_id r = pr_id p" "br_signature r = sig" "br_metrics r = m"
    "d' = (put_provider ((mark_seen p now (connection_timeout_seconds s))\<lparr>pr_enabled := (br_validated r \<and> pr_enabled p)\<rparr>) d)
            \<lparr>benchmark_reports := benchmark_reports d @ [r], next_id := Suc (next_id d)\<rparr>"
proof -
  define q where "q = mark_seen p now (connection_timeout_seconds s)"
  have q: "q = q\<lparr>pr_enabled := pr_enabled p\<rparr>" by (simp add: q_def mark_seen_def Let_def)
  have 1: "verify_signature m sig key = Inr True"
    using assms by (auto simp: submit_benchmark_def bindE_Inr_iff split: if_splits)
  then show "verify_signature m sig key = Inr True" .
  show "br_provider_id r = pr_id p" "br_signature r = sig" "br_metrics r = m"
    using assms by (auto simp: submit_benchmark_def Let_def 1)
  have "d' = (put_provider (if \<not> br_validated r then q\<lparr>pr_enabled := False\<rparr> else q) d)
            \<lparr>benchmark_reports := benchmark_reports d @ [r], next_id := Suc (next_id d)\<rparr>"
    using assms unfolding submit_benchmark_def 1 Let_def q_def [symmetric] by auto
  then show "d' = (put_provider (q\<lparr>pr_enabled := (br_validated r \<and> pr_enabled p)\<rparr>) d)
            \<lparr>benchmark_reports := benchmark_reports d @ [r], next_id := Suc (next_id d)\<rparr>"
    using q by (cases "br_validated r") simp_all
qed

lemma submit_benchmark_keeps:
  assumes "submit_benchmark now s m sig key p d = Inr (r, d')" "coord_ok d" "get_provider (pr_id p) d = Some p"
  shows "keeps d d'"
  unfolding submit_benchmark_cases(5) [OF assms(1)]
  by (rule own_row_keeps [OF assms(2,3), where p' = "(mark_seen p now (connection_timeout_seconds s))\<lparr>pr_enabled := (br_validated r \<and> pr_enabled p)\<rparr>"])
    simp_all

lemma bandwidth_keeps:
  assumes "coord_ok d" shows "keeps d (record_bandwidth now p dir n k d)"
proof -
  have "coord_ok (record_bandwidth now p dir n k d)"
    by (rule coord_ok_cong [OF _ _ _ _ _ assms]) auto
  then show ?thesis by (simp add: keeps_def db_evolves_jobs)
qed

lemma download_input_keeps: "download_input blob now k p d = Inr (r, d') \<Longrightarrow> coord_ok d \<Longrightarrow> keeps d d'"
  by (auto simp: download_input_def bindE_Inr_iff keeps_refl bandwidth_keeps split: option.splits)

lemma upload_result_blob_keeps: "upload_result_blob put now data p st d = Inr (r, st', d') \<Longrightarrow> coord_ok d \<Longrightarrow> keeps d d'"
  by (auto simp: upload_result_blob_def bindE_Inr_iff bandwidth_keeps split: if_splits)

text \<open>The three endpoints that write a job row.\<close>

lemma live_job_keeps:
  assumes ok: "coord_ok d" and job: "get_job (j_id job) d = Some job" "in_flight job"
    and ev: "job_evolves job job'" and cost: "j_cost_final job' = j_cost_final job"
    and e: "e = put_job job' d \<or> (\<exists>a. e = put_attempt a (put_job job' d))"
  shows "keeps d e"
proof -
  have id: "j_id job' = j_id job" using ev by (simp add: job_evolves_def)
  have "j_cost_final job = None"
    using ok in_flight_live [OF job(2)] get_job_SomeD [OF job(1)] by (auto simp: coord_ok_def jobs_ok_def)
  then have "coord_ok (put_job job' d)" using job by (intro put_job_coord_same [OF ok _ ev cost]) (auto simp: id)
  moreover have "jobs e = tput j_id job' (jobs d)" using e by auto
  ultimately show ?thesis
    using e db_evolves_put [OF _ job(1) ev in_flight_live [OF job(2)], of e] by (auto simp: keeps_def)
qed

lemma heartbeat_Inr:
  assumes "heartbeat now s k p d = Inr (r, d')"
  obtains job a where "get_job k d = Some job" "in_flight job" "provider_attempt p k d = Some a"
    "r = (k, now + seconds (lease_seconds s))"
    "d' = put_attempt (a\<lparr>at_lease_expires_at := Some (now + seconds (lease_seconds s))\<rparr>)
            (put_job (job\<lparr>j_lease_expires_at := Some (now + seconds (lease_seconds s))\<rparr>) (poll_seen now s p d))"
proof -
  from assms obtain job where job: "get_job k d = Some job" "provider_attempt p k d \<noteq> None" "in_flight job"
    by (auto simp: heartbeat_def bindE_Inr_iff owned_active_job_Inr split: if_splits)
  have id: "j_id job = k" using get_job_SomeD [OF job(1)] by simp
  have att: "provider_attempt p k (put_job j (poll_seen now s p d)) = provider_attempt p k d" for j
    by (simp add: provider_attempt_def poll_seen_def)
  show ?thesis
    using assms job id att
    by (auto simp: heartbeat_def Let_def owned_active_job_Inr [THEN iffD2] poll_seen_def [symmetric] intro: that)
qed

lemma get_job_poll_seen [simp]: "get_job k (poll_seen now s p d) = get_job k d"
  by (simp add: get_job_def poll_seen_def)

lemma heartbeat_keeps:
  assumes "heartbeat now s k p d = Inr (r, d')" "coord_ok d" "get_provider (pr_id p) d = Some p"
  shows "keeps d d'"
proof -
  obtain job a where job: "get_job k d = Some job" "in_flight job"
    and d': "d' = put_attempt (a\<lparr>at_lease_expires_at := Some (now + seconds (lease_seconds s))\<rparr>)
            (put_job (job\<lparr>j_lease_expires_at := Some (now + seconds (lease_seconds s))\<rparr>) (poll_seen now s p d))"
    by (rule heartbeat_Inr [OF assms(1)])
  have 1: "keeps d (poll_seen now s p d)" by (rule poll_seen_keeps [OF assms(2,3)])
  have id: "j_id job = k" using get_job_SomeD [OF job(1)] by simp
  have "job_evolves job (job\<lparr>j_lease_expires_at := Some (now + seconds (lease_seconds s))\<rparr>)"
    by (simp add: job_evolves_def)
  then have "keeps (poll_seen now s p d) d'"
    using 1 job id d' by (intro live_job_keeps [of _ job "job\<lparr>j_lease_expires_at := Some (now + seconds (lease_seconds s))\<rparr>"])
      (auto simp: keeps_def)
  with 1 show ?thesis by (rule keeps_trans)
qed

text \<open>A provider that beats keeps its job: until its lease and its connection window run out neither reaper
  touches the row.\<close>

lemma heartbeat_protects:
  assumes hb: "heartbeat now s k p d = Inr (ack, d')" and ok: "coord_ok d" and p: "get_provider (pr_id p) d = Some p"
    and own: "\<And>job. get_job k d = Some job \<Longrightarrow> j_assigned_provider_id job = Some (pr_id p)"
    and t: "t \<le> now + seconds (lease_seconds s)" "t \<le> now + seconds (connection_timeout_seconds s)"
    and r1: "reap_expired_leases t s d' = Inr (r, d1)" and r2: "drain_unreachable_providers t s d' = Inr (q, d2)"
  shows "get_job k d1 = get_job k d' \<and> k \<notin> set r \<and> get_job k d2 = get_job k d' \<and> k \<notin> set q"
proof -
  obtain job a where job: "get_job k d = Some job" "in_flight job" "provider_attempt p k d = Some a"
    and d': "d' = put_attempt (a\<lparr>at_lease_expires_at := Some (now + seconds (lease_seconds s))\<rparr>)
            (put_job (job\<lparr>j_lease_expires_at := Some (now + seconds (lease_seconds s))\<rparr>) (poll_seen now s p d))"
    using heartbeat_Inr [OF hb] by metis
  have ok': "coord_ok d'" using heartbeat_keeps [OF hb ok p] by (simp add: keeps_def)
  have id: "j_id job = k" using get_job_SomeD [OF job(1)] by simp
  have row: "get_job k d' = Some (job\<lparr>j_lease_expires_at := Some (now + seconds (lease_seconds s))\<rparr>)"
    using job(1) id by (simp add: d' get_job_def tget_tput poll_seen_def)
  have only: "j = job\<lparr>j_lease_expires_at := Some (now + seconds (lease_seconds s))\<rparr>" if "j \<in> set (jobs d')" "j_id j = k" for j
    using jobs_get [OF ok' that(1)] that(2) row by simp
  have seen: "pr_last_seen q = Some now" if "q \<in> set (providers d')" "pr_id q = pr_id p" for q
    using that by (auto simp: d' poll_seen_def tput_def mark_seen_sel split: if_splits)
  have "j_assigned_provider_id job = Some (pr_id p)" by (rule own [OF job(1)])
  then have n2: "k \<notin> j_id ` set (filter (\<lambda>j. in_flight j \<and> j_redundancy j = 1
        \<and> (case j_assigned_provider_id j of None \<Rightarrow> False | Some x \<Rightarrow> x \<in> set (map pr_id (filter
             (\<lambda>p. case pr_last_seen p of None \<Rightarrow> False | Some u \<Rightarrow> u < t - seconds (connection_timeout_seconds s)) (providers d'))))) (jobs d'))"
    using only seen t(2) by fastforce
  have n1: "k \<notin> j_id ` set (filter (\<lambda>j. in_flight j \<and> j_redundancy j = 1
        \<and> (case j_lease_expires_at j of None \<Rightarrow> False | Some u \<Rightarrow> u < t)) (jobs d'))"
    using only t(1) by fastforce
  have "get_job k d1 = get_job k d' \<and> (k \<in> set r \<longrightarrow> k \<in> set [])"
    by (rule reclaim_others [OF r1 [unfolded reap_expired_leases_def reclaim_all_def] n1]) simp
  moreover have "get_job k d2 = get_job k d' \<and> (k \<in> set q \<longrightarrow> k \<in> set [])"
    by (rule reclaim_others [OF r2 [unfolded drain_unreachable_providers_def reclaim_all_def Let_def] n2]) simp
  ultimately show ?thesis by simp
qed

lemma report_status_Inr:
  assumes "report_status now s k p d = Inr (r, d')"
  obtains job job' a where "get_job k d = Some job" "in_flight job" "provider_attempt p k d = Some a"
    "if j_status job = js_assigned then transition now job js_running = Inr job' else job' = job"
    "r = (k, js_running)"
    "d' = put_attempt (a\<lparr>at_outcome := ao_running, at_started_at := Some now\<rparr>) (put_job job' (poll_seen now s p d))"
proof -
  from assms obtain job where job: "get_job k d = Some job" "provider_attempt p k d \<noteq> None" "in_flight job"
    by (auto simp: report_status_def bindE_Inr_iff owned_active_job_Inr split: if_splits)
  have id: "j_id job = k" using get_job_SomeD [OF job(1)] by simp
  have "\<exists>job'. transition now job js_running = Inr job'" if "j_status job = js_assigned"
    using that by (simp add: transition_legal [symmetric] can_transition_def)
  then obtain job' where job': "if j_status job = js_assigned then transition now job js_running = Inr job' else job' = job"
    by (cases "j_status job = js_assigned") auto
  have st: "j_status job' = js_running" "j_id job' = k"
    using job' job(3) id by (auto simp: in_flight_def dest: transition_Inr split: if_splits)
  have att: "provider_attempt p k (put_job j (poll_seen now s p d)) = provider_attempt p k d" for j
    by (simp add: provider_attempt_def poll_seen_def)
  obtain a where a: "provider_attempt p k d = Some a" using job(2) by auto
  have own: "owned_active_job p k d = Inr job" using job by (simp add: owned_active_job_Inr)
  have "report_status now s k p d = Inr ((k, js_running),
      put_attempt (a\<lparr>at_outcome := ao_running, at_started_at := Some now\<rparr>) (put_job job' (poll_seen now s p d)))"
    using job' st a att [of job'] unfolding report_status_def own
    by (cases "j_status job = js_assigned") (simp_all add: job(3) Let_def poll_seen_def)
  with assms job(1,3) a job' show ?thesis by (intro that) auto
qed

lemma report_status_keeps:
  assumes "report_status now s k p d = Inr (r, d')" "coord_ok d" "get_provider (pr_id p) d = Some p"
  shows "keeps d d'"
proof -
  obtain job job' a where job: "get_job k d = Some job" "in_flight job"
    and job': "if j_status job = js_assigned then transition now job js_running = Inr job' else job' = job"
    and d': "d' = put_attempt (a\<lparr>at_outcome := ao_running, at_started_at := Some now\<rparr>) (put_job job' (poll_seen now s p d))"
    by (rule report_status_Inr [OF assms(1)])
  have 1: "keeps d (poll_seen now s p d)" by (rule poll_seen_keeps [OF assms(2,3)])
  have id: "j_id job = k" using get_job_SomeD [OF job(1)] by simp
  have ev: "job_evolves job job'" "j_cost_final job' = j_cost_final job"
    using job' by (auto split: if_splits dest: transition_evolves transition_Inr)
  have "keeps (poll_seen now s p d) d'"
    using 1 job id d' ev by (intro live_job_keeps [of _ job job']) (auto simp: keeps_def)
  with 1 show ?thesis by (rule keeps_trans)
qed

lemma submit_result_Inr:
  "submit_result now s k body p d = Inr (r, d') \<longleftrightarrow>
     (\<exists>job final. owned_active_job p k d = Inr job \<and> in_flight job
        \<and> (case rq_result_ref body of None \<Rightarrow> True
             | Some ref \<Rightarrow> is_sha256_hex (jget (rq_proof body) ''output_sha256'')
                           \<and> jget (rq_proof body) ''output_sha256'' = JStr (take 64 ref))
        \<and> record_result now job (pr_id p) body s d = Inr (final, d') \<and> r = (j_id job, final))"
  by (auto simp: submit_result_def Let_def bindE_Inr_iff split: option.splits if_splits)

lemma submit_result_keeps:
  assumes "submit_result now s k body p d = Inr (r, d')" "coord_ok d" "valid_settings s"
  shows "keeps d d'"
proof -
  obtain job final where job: "get_job k d = Some job" "in_flight job"
    and rr: "record_result now job (pr_id p) body s d = Inr (final, d')"
    using assms(1) by (auto simp: submit_result_Inr owned_active_job_Inr)
  have j: "get_job (j_id job) d = Some job" using get_job_SomeD [OF job(1)] job(1) by simp
  note r = record_result_coord [OF rr assms(3,2) j job(2) [unfolded in_flight_def]]
  show ?thesis
    using r(1) job_updated_evolves [OF r(2) j in_flight_live [OF job(2)]] by (simp add: keeps_def)
qed

lemmas agent_keeps = poll_seen_keeps ping_keeps report_path_keeps report_cache_keeps report_health_keeps
  submit_attestation_keeps(1) submit_benchmark_keeps download_input_keeps upload_result_blob_keeps
  heartbeat_keeps report_status_keeps submit_result_keeps

end
