(* ===== verification/Job_Routes.thy ===== *)
theory Job_Routes
  imports Agent_Routes
begin

text \<open>
  The developer's job endpoints, \<open>api/app/routes/jobs.py\<close>.  Submission works on the database and the Redis
  queue (\<open>sched\<close>).  Its collaborators are arguments: \<open>blob_exists\<close> is \<open>get_storage().exists\<close>, \<open>usdc\<close> is the
  \<open>available_balance\<close> of the on-chain payment provider when one is installed (\<open>None\<close> in fiat mode) and
  \<open>redis_up\<close> says whether the enqueue after the commit gets through.
\<close>

record SubmitJobRequest =
  sj_image_ref :: string
  sj_input_ref :: "string option"
  sj_resource_spec :: ResourceSpec
  sj_args :: "jdict option"
  sj_allow_egress :: bool
  sj_timeout_seconds :: int
  sj_is_high_value :: bool
  sj_redundancy :: int
  sj_exposed_port :: "int option"
  sj_data_tier :: DataTier
  sj_wrapped_key :: "string option"

text \<open>The bounds of the schema; the defaults of \<open>ResourceSpec\<close> are filled in, so every key is present.\<close>

definition opt_all :: "('a \<Rightarrow> bool) \<Rightarrow> 'a option \<Rightarrow> bool" where
  "opt_all P x = (case x of None \<Rightarrow> True | Some y \<Rightarrow> P y)"

definition valid_spec :: "ResourceSpec \<Rightarrow> bool" where
  "valid_spec r \<longleftrightarrow>
     (case (rs_cpu_cores r, rs_memory_mb r, rs_gpu r, rs_gpu_vram_mb r) of
        (Some cpu, Some mem, Some gpu, Some vram) \<Rightarrow>
          1 \<le> cpu \<and> cpu \<le> 256 \<and> 64 \<le> mem \<and> mem \<le> 1048576 \<and> 0 \<le> vram \<and> vram \<le> 1048576
      | _ \<Rightarrow> False)"

definition valid_submit :: "SubmitJobRequest \<Rightarrow> bool" where
  "valid_submit b \<longleftrightarrow>
     1 \<le> length (sj_image_ref b) \<and> length (sj_image_ref b) \<le> 512
     \<and> opt_all (\<lambda>x. length x \<le> 512) (sj_input_ref b) \<and> valid_spec (sj_resource_spec b)
     \<and> 0 < sj_timeout_seconds b \<and> sj_timeout_seconds b \<le> 86400
     \<and> 1 \<le> sj_redundancy b \<and> sj_redundancy b \<le> 9
     \<and> opt_all (\<lambda>p. 1 \<le> p \<and> p \<le> 65535) (sj_exposed_port b)
     \<and> opt_all (\<lambda>x. length x \<le> 512) (sj_wrapped_key b)"

section \<open>Submission\<close>

definition get_owned_job :: "uuid \<Rightarrow> uuid \<Rightarrow> db \<Rightarrow> err + Job" where
  "get_owned_job developer_id job_id d =
     (case get_job job_id d of
        None \<Rightarrow> Inl (not_found ''Job not found.'')
      | Some job \<Rightarrow> if j_developer_id job \<noteq> developer_id then Inl (not_found ''Job not found.'') else Inr job)"

definition find_idempotent :: "uuid \<Rightarrow> string \<Rightarrow> db \<Rightarrow> Job option" where
  "find_idempotent developer_id key d =
     find (\<lambda>j. j_developer_id j = developer_id \<and> j_idempotency_key j = Some key) (jobs d)"

definition new_job :: "instant \<Rightarrow> uuid \<Rightarrow> SubmitJobRequest \<Rightarrow> string option \<Rightarrow> money \<Rightarrow> uuid \<Rightarrow> Job" where
  "new_job now developer_id body key escrow k =
     \<lparr> j_id = k, j_developer_id = developer_id, j_kind = jk_standard, j_status = js_queued,
       j_image_ref = sj_image_ref body, j_input_ref = sj_input_ref body, j_result_ref = None,
       j_resource_spec = sj_resource_spec body, j_args = sj_args body, j_allow_egress = sj_allow_egress body,
       j_timeout_seconds = sj_timeout_seconds body, j_exposed_port = sj_exposed_port body,
       j_data_tier = sj_data_tier body, j_wrapped_key = sj_wrapped_key body,
       j_is_high_value = sj_is_high_value body, j_redundancy = sj_redundancy body,
       j_expected_output_hash = None, j_proof = None, j_assigned_provider_id = None, j_attempt_count = 0,
       j_lease_expires_at = None, j_escrow_amount = Some escrow, j_cost_final = None,
       j_idempotency_key = key, j_created_at = now, j_queued_at = Some now, j_assigned_at = None,
       j_started_at = None, j_finished_at = None \<rparr>"

text \<open>The insert: \<open>escrow_amount\<close> is a \<open>Numeric(20, 8)\<close>, so the flush refuses twelve integer digits and more.\<close>

definition insert_job :: "Job \<Rightarrow> db \<Rightarrow> err + db" where
  "insert_job job d =
     (if opt_all (\<lambda>x. x < 10 ^ 12) (j_escrow_amount job)
      then Inr (d\<lparr>jobs := jobs d @ [job], next_id := Suc (next_id d)\<rparr>)
      else Inl (IntegrityError ''numeric field overflow''))"

definition submit_job ::
    "(string \<Rightarrow> err + bool) \<Rightarrow> (db \<Rightarrow> money) option \<Rightarrow> bool \<Rightarrow> instant \<Rightarrow> Settings \<Rightarrow> uuid \<Rightarrow> SubmitJobRequest
     \<Rightarrow> string option \<Rightarrow> sched \<Rightarrow> err + (Job \<times> sched)" where
  "submit_job blob_exists usdc redis_up now settings developer_id body idempotency_key s =
     (if opt_get (rs_gpu (sj_resource_spec body)) False \<and> opt_get (rs_gpu_vram_mb (sj_resource_spec body)) 0 \<le> 0
      then Inl (HTTPException 422 ''gpu=true requires gpu_vram_mb > 0.'')
      else
        bindE (case sj_input_ref body of None \<Rightarrow> Inr True | Some ref \<Rightarrow> blob_exists ref) (\<lambda>found.
        if \<not> found then Inl (HTTPException 400 ''input_ref does not resolve to a stored blob.'')
        else
          (case (case idempotency_key of None \<Rightarrow> None | Some key \<Rightarrow> find_idempotent developer_id key (sc_db s)) of
             Some existing \<Rightarrow> Inr (existing, s)
           | None \<Rightarrow>
               (let escrow = escrow_estimate (sj_resource_spec body) (sj_timeout_seconds body) settings in
                if (case usdc of None \<Rightarrow> False | Some available \<Rightarrow> available (sc_db s) < escrow)
                then Inl (HTTPException 403 ''Insufficient balance'')
                else
                  (let job = new_job now developer_id body idempotency_key escrow (next_id (sc_db s)) in
                   bindE (insert_job job (sc_db s)) (\<lambda>d.
                   bindE (FiatStub_hold_escrow now (j_id job) developer_id escrow d) (\<lambda>d.
                     let s = s\<lparr>sc_db := d\<rparr>
                     in Inr (job, if redis_up then enqueue_job (j_id job) s else s))))))))"

section \<open>Reading\<close>

definition list_jobs :: "uuid \<Rightarrow> nat \<Rightarrow> nat \<Rightarrow> db \<Rightarrow> Job list" where
  "list_jobs developer_id limit offset d =
     take limit (drop offset
       (sort_key (\<lambda>j. - j_created_at j) (filter (\<lambda>j. j_developer_id j = developer_id) (jobs d))))"

definition read_job :: "uuid \<Rightarrow> uuid \<Rightarrow> db \<Rightarrow> err + Job" where
  "read_job job_id developer_id d = get_owned_job developer_id job_id d"

definition download_result :: "(string \<Rightarrow> err + string) \<Rightarrow> uuid \<Rightarrow> uuid \<Rightarrow> db \<Rightarrow> err + string" where
  "download_result blob job_id developer_id d =
     bindE (get_owned_job developer_id job_id d) (\<lambda>job.
       case j_result_ref job of
         None \<Rightarrow> Inl (conflict ''Job has no result yet.'')
       | Some ref \<Rightarrow> blob ref)"

definition job_audit :: "uuid \<Rightarrow> uuid \<Rightarrow> db \<Rightarrow> err + (Job \<times> JobAttempt list \<times> LedgerEntry list)" where
  "job_audit job_id developer_id d =
     bindE (get_owned_job developer_id job_id d) (\<lambda>job.
       Inr (job,
            sort_key at_attempt_number (filter (\<lambda>a. at_job_id a = j_id job) (job_attempts d)),
            sort_key le_created_at (filter (\<lambda>e. le_job_id e = Some (j_id job)) (ledger_entries d))))"

section \<open>Movements that spare stakes and job escrows\<close>

text \<open>A ledger movement keeps the invariant when no job's escrow, no stake and no held stake moves.\<close>

lemma ledger_keeps:
  assumes only: "ledger_only d d'" and ok: "coord_ok d"
    and esc: "\<And>k. job_balance la_escrow k d' = job_balance la_escrow k d"
    and st: "\<And>acc ref. acc = la_stake \<or> acc = la_disputed \<Longrightarrow> account_balance acc ref d' = account_balance acc ref d"
  shows "keeps d d'"
proof -
  note D = ledger_onlyD [OF only]
  have "held_ok d'" using st ok by (intro ledger_only_held [OF only]) (auto simp: coord_ok_def)
  moreover have "ledger_ok d'" "reputations_ok d'" using ok by (auto simp: coord_ok_def reputations_ok_def D)
  moreover have "jobs_ok d'" using ok D(2) unfolding coord_ok_def jobs_ok_def D(8) by fastforce
  moreover have "escrow_ok d'" using ok D(2) by (auto simp: coord_ok_def escrow_ok_def D(8) esc)
  ultimately show ?thesis by (simp add: keeps_def coord_ok_def db_evolves_jobs D(8))
qed

definition spares_stakes :: "Posting list \<Rightarrow> bool" where
  "spares_stakes ps \<longleftrightarrow> list_all (\<lambda>p. po_account p \<noteq> la_stake \<and> po_account p \<noteq> la_disputed) ps"

lemma spares_stakes_effect:
  "spares_stakes ps \<Longrightarrow> acc = la_stake \<or> acc = la_disputed \<Longrightarrow> effect acc ref ps = 0"
  by (induction ps) (auto simp: spares_stakes_def)

lemma post_keeps:
  assumes p: "post_transaction now ps reason None tx d = Inr (grp, d')" and ps: "spares_stakes ps" and ok: "coord_ok d"
  shows "keeps d d'"
  by (rule ledger_keeps [OF post_ledger_only [OF p] ok])
    (simp_all add: post_transaction_job_balance [OF p] post_transaction_balance [OF p] spares_stakes_effect [OF ps])

lemma charge_usage_keeps:
  assumes "charge_usage now dev p cost s None reason d = Inr (c, d')" "coord_ok d"
  shows "keeps d d'"
proof -
  have "spares_stakes (charge_postings dev p c' f)" for c' f by (simp add: spares_stakes_def charge_postings_def)
  then show ?thesis
    using assms by (auto simp: charge_usage_cases Let_def bindE_Inr_iff keeps_refl intro: post_keeps split: if_splits)
qed

lemma reserve_balance_keeps: "reserve_balance now dev x d = Inr (h, d') \<Longrightarrow> coord_ok d \<Longrightarrow> keeps d d'"
  by (auto simp: reserve_balance_def Let_def bindE_Inr_iff keeps_refl spares_stakes_def intro!: post_keeps split: if_splits)

lemma return_hold_keeps: "return_hold now dev x d = Inr d' \<Longrightarrow> coord_ok d \<Longrightarrow> keeps d d'"
  by (auto simp: return_hold_def Let_def bindE_Inr_iff keeps_refl spares_stakes_def intro!: post_keeps split: if_splits)

lemma credit_deposit_keeps: "credit_deposit now dev x reason d = Inr (a, d') \<Longrightarrow> coord_ok d \<Longrightarrow> keeps d d'"
  by (auto simp: credit_deposit_def Let_def bindE_Inr_iff keeps_refl spares_stakes_def intro!: post_keeps split: if_splits)

lemma settle_reservation_keeps:
  assumes "settle_reservation now dev p held actual s d = Inr (c, d')" "coord_ok d"
  shows "keeps d d'"
proof -
  from assms(1) obtain e where e: "return_hold now dev held d = Inr e"
    "charge_usage now dev p actual s None ''inference_usage'' e = Inr (c, d')"
    by (auto simp: settle_reservation_def bindE_Inr_iff)
  have 1: "keeps d e" by (rule return_hold_keeps [OF e(1) assms(2)])
  then have "keeps e d'" by (intro charge_usage_keeps [OF e(2)]) (simp add: keeps_def)
  with 1 show ?thesis by (rule keeps_trans)
qed

section \<open>Stake and disputes\<close>

lemma put_dispute_keeps:
  assumes "coord_ok d" "held_ok (put_dispute x d)"
  shows "keeps d (put_dispute x d)"
proof -
  let ?e = "put_dispute x d"
  have "ledger_ok ?e" using assms(1) by (auto simp: coord_ok_def intro: ledger_ok_cong [of ?e d])
  moreover have "reputations_ok ?e" "jobs_ok ?e" using assms(1) by (auto simp: coord_ok_def reputations_ok_def jobs_ok_def)
  moreover have "escrow_ok ?e"
    using assms(1) by (auto simp: coord_ok_def escrow_ok_def job_balance_cong [of ?e d])
  ultimately show ?thesis using assms(2) by (simp add: keeps_def coord_ok_def db_evolves_jobs)
qed

lemma contest_keeps: "contest now pid k d = Inr d' \<Longrightarrow> coord_ok d \<Longrightarrow> keeps d d'"
  using contest_held [of now pid k d d'] by (auto elim!: contest_Inr intro: put_dispute_keeps simp: coord_ok_def)

lemma rule_on_dispute_keeps:
  assumes r: "rule_on_dispute now k up reason d = Inr d'" and ok: "coord_ok d"
  shows "keeps d d'"
proof -
  obtain x where x: "get_dispute k d = Some x" "\<not> resolved x" and res: "resolve_dispute now x up reason d = Inr d'"
    by (rule rule_on_dispute_Inr [OF r])
  from resolve_dispute_cases [OF res] x(2) obtain e x' where
    e: "if 0 < dp_amount x
       then \<exists>grp rs. post_transaction now [Dr la_disputed (dp_amount x) (Some (dp_provider_id x)),
              Cr (if up then la_protocol else la_stake) (dp_amount x) (if up then None else Some (dp_provider_id x))]
              rs (dp_job_id x) None d = Inr (grp, e)
       else e = d" and d': "d' = put_dispute x' e" by blast
  have only: "ledger_only d e" using e by (auto split: if_splits intro: post_ledger_only)
  have "job_balance la_escrow j e = job_balance la_escrow j d" for j
    using e by (auto split: if_splits simp: post_transaction_job_balance)
  then have esc: "job_balance la_escrow j d' = job_balance la_escrow j d" for j
    by (simp add: d' job_balance_cong [of "put_dispute x' e" e])
  note D = ledger_onlyD [OF only]
  have jobs': "jobs d' = jobs d" "next_id d \<le> next_id d'" using D(2,8) by (simp_all add: d')
  have "held_ok d'" using rule_on_dispute_held [OF r] ok by (simp add: coord_ok_def)
  moreover have "ledger_ok d'" using rule_on_dispute_ledger_ok [OF r] ok by (simp add: coord_ok_def)
  moreover have "reputations_ok d'" using ok by (auto simp: coord_ok_def reputations_ok_def D d')
  moreover have "jobs_ok d'" using ok D(2) unfolding coord_ok_def jobs_ok_def by (fastforce simp: d' D(8))
  moreover have "escrow_ok d'" using ok jobs' by (auto simp: coord_ok_def escrow_ok_def esc)
  ultimately show ?thesis by (simp add: keeps_def coord_ok_def db_evolves_jobs D(8) d')
qed

lemma deposit_stake_keeps:
  assumes r: "deposit_stake now pid x d = Inr (grp, d')" and ok: "coord_ok d"
  shows "keeps d d'"
proof -
  have p: "post_transaction now [Dr la_protocol x None, Cr la_stake x (Some pid)] ''stake_deposit'' None None d = Inr (grp, d')"
    using r by (simp add: deposit_stake_def)
  note D = ledger_onlyD [OF post_ledger_only [OF p]]
  have held: "held_ok d" using ok by (simp add: coord_ok_def)
  have "0 \<le> provider_stake q d'" for q
    using held deposit_stake_Inr(1,2) [OF r] by (simp add: held_ok_def)
  moreover have "account_balance la_disputed (Some q) d' = held_sum q d'" for q
    using held by (simp add: held_ok_def held_sum_def D post_transaction_balance [OF p])
  moreover have "dp_id y < next_id d'" if "y \<in> set (disputes d)" for y
    using that held D(2) by (fastforce simp: held_ok_def)
  ultimately have "held_ok d'" using held by (simp add: held_ok_def D)
  moreover have "ledger_ok d'" "reputations_ok d'" using ok by (auto simp: coord_ok_def reputations_ok_def D)
  moreover have "jobs_ok d'" using ok D(2) unfolding coord_ok_def jobs_ok_def D(8) by fastforce
  moreover have "escrow_ok d'"
    using ok D(2) by (auto simp: coord_ok_def escrow_ok_def D(8) post_transaction_job_balance [OF p])
  ultimately show ?thesis by (simp add: keeps_def coord_ok_def db_evolves_jobs D(8))
qed

section \<open>Submission is safe\<close>

lemma submit_job_cases:
  assumes "submit_job bx usdc up now s dev body key st = Inr (job, st')"
  obtains (replayed) k where "key = Some k" "find_idempotent dev k (sc_db st) = Some job" "st' = st"
  | (created) d where
      "\<And>k. key = Some k \<Longrightarrow> find_idempotent dev k (sc_db st) = None"
      "job = new_job now dev body key (escrow_estimate (sj_resource_spec body) (sj_timeout_seconds body) s) (next_id (sc_db st))"
      "escrow_estimate (sj_resource_spec body) (sj_timeout_seconds body) s < 10 ^ 12"
      "FiatStub_hold_escrow now (next_id (sc_db st)) dev (escrow_estimate (sj_resource_spec body) (sj_timeout_seconds body) s)
         ((sc_db st)\<lparr>jobs := jobs (sc_db st) @ [job], next_id := Suc (next_id (sc_db st))\<rparr>) = Inr d"
      "sc_db st' = d" "sc_queue st' = sc_queue st @ (if up then [j_id job] else [])"
      "case usdc of None \<Rightarrow> True | Some f \<Rightarrow> escrow_estimate (sj_resource_spec body) (sj_timeout_seconds body) s \<le> f (sc_db st)"
proof -
  let ?found = "case key of None \<Rightarrow> None | Some k \<Rightarrow> find_idempotent dev k (sc_db st)"
  define x where "x = escrow_estimate (sj_resource_spec body) (sj_timeout_seconds body) s"
  have jid: "j_id (new_job now dev body key x (next_id (sc_db st))) = next_id (sc_db st)" by (simp add: new_job_def)
  show ?thesis
  proof (cases ?found)
    case (Some j)
    then have "job = j" "st' = st"
      using assms by (auto simp: submit_job_def bindE_Inr_iff split: if_splits)
    then show ?thesis using Some by (auto split: option.splits intro: replayed)
  next
    case None
    have run: "(if (case usdc of None \<Rightarrow> False | Some f \<Rightarrow> f (sc_db st) < x) then Inl (HTTPException 403 ''Insufficient balance'')
      else bindE (insert_job (new_job now dev body key x (next_id (sc_db st))) (sc_db st)) (\<lambda>d.
           bindE (FiatStub_hold_escrow now (next_id (sc_db st)) dev x d) (\<lambda>d.
             Inr (new_job now dev body key x (next_id (sc_db st)),
                  if up then enqueue_job (next_id (sc_db st)) (st\<lparr>sc_db := d\<rparr>) else st\<lparr>sc_db := d\<rparr>)))) = Inr (job, st')"
      using assms None unfolding submit_job_def Let_def x_def [symmetric] jid
      by (auto simp: bindE_Inr_iff split: if_splits)
    define J where "J = new_job now dev body key x (next_id (sc_db st))"
    have J: "j_id J = next_id (sc_db st)" "j_escrow_amount J = Some x" by (simp_all add: J_def new_job_def)
    have gate: "case usdc of None \<Rightarrow> True | Some f \<Rightarrow> x \<le> f (sc_db st)"
      and "\<exists>e d. insert_job J (sc_db st) = Inr e \<and> FiatStub_hold_escrow now (next_id (sc_db st)) dev x e = Inr d
        \<and> job = J \<and> st' = (if up then enqueue_job (next_id (sc_db st)) (st\<lparr>sc_db := d\<rparr>) else st\<lparr>sc_db := d\<rparr>)"
      using run unfolding J_def [symmetric] by (auto simp: bindE_Inr_iff split: if_splits option.splits)
    then obtain e d where e: "insert_job J (sc_db st) = Inr e" "FiatStub_hold_escrow now (next_id (sc_db st)) dev x e = Inr d"
      and st': "job = J" "st' = (if up then enqueue_job (next_id (sc_db st)) (st\<lparr>sc_db := d\<rparr>) else st\<lparr>sc_db := d\<rparr>)" by blast
    have e': "x < 10 ^ 12" "e = (sc_db st)\<lparr>jobs := jobs (sc_db st) @ [J], next_id := Suc (next_id (sc_db st))\<rparr>"
      using e(1) by (auto simp: insert_job_def opt_all_def J split: if_splits)
    show ?thesis
    proof (rule created)
      show "find_idempotent dev k (sc_db st) = None" if "key = Some k" for k using None that by simp
      show "FiatStub_hold_escrow now (next_id (sc_db st)) dev (escrow_estimate (sj_resource_spec body) (sj_timeout_seconds body) s)
         ((sc_db st)\<lparr>jobs := jobs (sc_db st) @ [job], next_id := Suc (next_id (sc_db st))\<rparr>) = Inr d"
        using e(2) by (simp only: e'(2) st'(1) x_def)
      show "case usdc of None \<Rightarrow> True | Some f \<Rightarrow> escrow_estimate (sj_resource_spec body) (sj_timeout_seconds body) s \<le> f (sc_db st)"
        using gate by (simp only: x_def)
      show "escrow_estimate (sj_resource_spec body) (sj_timeout_seconds body) s < 10 ^ 12" using e'(1) by (simp only: x_def)
      show "job = new_job now dev body key (escrow_estimate (sj_resource_spec body) (sj_timeout_seconds body) s) (next_id (sc_db st))"
        by (simp only: st'(1) J_def x_def)
      show "sc_db st' = d" "sc_queue st' = sc_queue st @ (if up then [j_id job] else [])"
        by (simp_all add: st' enqueue_job_def J)
    qed
  qed
qed

lemma submit_job_keeps:
  assumes sub: "submit_job bx usdc up now s dev body key st = Inr (job, st')"
    and ok: "coord_ok (sc_db st)" and s: "valid_settings s" and b: "valid_submit body"
  shows "keeps (sc_db st) (sc_db st')"
  using sub
proof (cases rule: submit_job_cases)
  case (replayed k)
  then show ?thesis using ok by (simp add: keeps_refl)
next
  case (created d)
  let ?d = "sc_db st" and ?x = "escrow_estimate (sj_resource_spec body) (sj_timeout_seconds body) s"
  let ?k = "next_id ?d" and ?e = "(sc_db st)\<lparr>jobs := jobs (sc_db st) @ [job], next_id := Suc (next_id (sc_db st))\<rparr>"
  have x: "0 \<le> ?x" "on_grid 8 ?x" using valid_settings_prices(1) [OF s] by (simp_all add: escrow_estimate_def)
  have job: "j_id job = ?k" "escrow_of job = ?x" "j_cost_final job = None" "j_redundancy job = sj_redundancy body"
    "j_escrow_amount job = Some ?x"
    by (simp_all add: created(2) new_job_def escrow_of_def opt_get_def)
  note D = ledger_onlyD [OF fiat.hold_only [OF created(4)]]
  have bal: "account_balance acc ref d = account_balance acc ref ?d" if "acc = la_stake \<or> acc = la_disputed" for acc ref
    using that fiat.hold_balance [OF created(4), of acc ref] by (auto simp: balance_cong [of ?e ?d])
  have esc: "job_balance la_escrow k d = job_balance la_escrow k ?d + (if k = ?k then ?x else 0)" for k
    using x fiat.hold_job [OF created(4), of la_escrow k] by (simp add: job_balance_cong [of ?e ?d])
  have "held_ok ?e" using ok by (auto simp: coord_ok_def intro: held_ok_same_ledger [of ?d ?e])
  then have "held_ok d"
    using bal by (intro ledger_only_held [OF fiat.hold_only [OF created(4)]]) (auto simp: balance_cong [of ?e ?d])
  moreover have "ledger_ok d" using ok by (intro D(1)) (auto simp: coord_ok_def intro: ledger_ok_cong [of ?e ?d])
  moreover have "reputations_ok d" using ok by (auto simp: coord_ok_def reputations_ok_def D)
  moreover have "jobs_ok d"
    using ok D(2) x created(3) b by (fastforce simp: coord_ok_def jobs_ok_def D(8) job escrow_fits_def valid_submit_def)
  moreover have "escrow_ok d"
    using ok D(2) unfolding coord_ok_def escrow_ok_def D(8) esc by (auto simp: outstanding_def job jobs_ok_def)
  ultimately show ?thesis by (simp add: keeps_def coord_ok_def created(5) db_evolves_append [of _ ?d "[job]"] D(8))
qed

lemma submit_job_accepts:
  assumes gpu: "\<not> opt_get (rs_gpu (sj_resource_spec body)) False" and inp: "sj_input_ref body = None"
    and key: "\<And>k. key = Some k \<Longrightarrow> find_idempotent dev k (sc_db st) = None"
    and e: "escrow = escrow_estimate (sj_resource_spec body) (sj_timeout_seconds body) s" "escrow < 10 ^ 12"
  shows "\<exists>st'. submit_job bx None up now s dev body key st = Inr (new_job now dev body key escrow (next_id (sc_db st)), st')
      \<and> jobs (sc_db st') = jobs (sc_db st) @ [new_job now dev body key escrow (next_id (sc_db st))]
      \<and> sc_queue st' = sc_queue st @ (if up then [next_id (sc_db st)] else [])
      \<and> providers (sc_db st') = providers (sc_db st) \<and> job_attempts (sc_db st') = job_attempts (sc_db st)"
proof -
  let ?job = "new_job now dev body key escrow (next_id (sc_db st))"
  let ?d = "(sc_db st)\<lparr>jobs := jobs (sc_db st) @ [?job], next_id := Suc (next_id (sc_db st))\<rparr>"
  obtain d where d: "FiatStub_hold_escrow now (j_id ?job) dev escrow ?d = Inr d"
    using post_transaction_ex [of "[Dr la_developer escrow (Some dev), Cr la_escrow escrow (Some dev)]" now "''escrow_hold''" "Some (j_id ?job)" None ?d]
    by (cases "escrow \<le> 0") (auto simp: FiatStub_hold_cases)
  note same = ledger_onlyD [OF fiat.hold_only [OF d]]
  show ?thesis
    using assms d same by (cases key) (auto simp: submit_job_def insert_job_def opt_all_def new_job_def Let_def enqueue_job_def)
qed

lemma resubmit:
  assumes "submit_job bx usdc up now s dev body (Some k) st = Inr (job, st')"
  shows "submit_job bx usdc' up' now' s' dev body (Some k) st' = Inr (job, st')"
proof -
  have "find_idempotent dev k (sc_db st') = Some job"
    using assms
  proof (cases rule: submit_job_cases)
    case (replayed k')
    then show ?thesis by simp
  next
    case (created d)
    have "jobs d = jobs (sc_db st) @ [job]" using fiat.hold_only [OF created(4)] by (auto dest: ledger_onlyD)
    then show ?thesis using created(1) [OF refl] by (simp add: find_idempotent_def created(5) find_append) (simp add: created(2) new_job_def)
  qed
  then show ?thesis
    using assms by (auto simp: submit_job_def Let_def bindE_def split: if_splits sum.splits option.splits)
qed

end
