(* ===== verification/Calendar.thy ===== *)
theory Calendar
  imports Prelude
begin

text \<open>
  The part of \<open>datetime\<close> the coordinator prints: the proleptic Gregorian date of an instant (days are
  counted from 1970-01-01, years from the March that precedes them) and its ISO-8601 renderings.
\<close>

definition epoch_days :: "instant \<Rightarrow> int" where
  "epoch_days t = t div 86400000000"

text \<open>Year, month and day of a day number.\<close>

definition civil :: "int \<Rightarrow> int \<times> int \<times> int" where
  "civil n =
     (let z = n + 719468;
          era = z div 146097;
          doe = z mod 146097;
          yoe = (doe - doe div 1460 + doe div 36524 - doe div 146096) div 365;
          doy = doe - (365 * yoe + yoe div 4 - yoe div 100);
          mp = (5 * doy + 2) div 153;
          day = doy - (153 * mp + 2) div 5 + 1;
          month = (if mp < 10 then mp + 3 else mp - 9);
          year = yoe + era * 400 + (if month \<le> 2 then 1 else 0)
      in (year, month, day))"

fun dec_fixed :: "nat \<Rightarrow> int \<Rightarrow> string" where
  "dec_fixed 0 n = []"
| "dec_fixed (Suc k) n = dec_fixed k (n div 10) @ [char_of (48 + n mod 10)]"

text \<open>\<open>date.isoformat()\<close>\<close>

definition date_iso :: "int \<Rightarrow> string" where
  "date_iso n = (let (y, m, d) = civil n in dec_fixed 4 y @ ''-'' @ dec_fixed 2 m @ ''-'' @ dec_fixed 2 d)"

text \<open>\<open>strftime("%Y-%m-%dT%H:%M:%SZ")\<close> of an instant in UTC\<close>

definition iso_utc :: "instant \<Rightarrow> string" where
  "iso_utc t =
     (let s = t div 1000000 mod 86400
      in date_iso (epoch_days t) @ ''T'' @ dec_fixed 2 (s div 3600) @ '':'' @ dec_fixed 2 (s div 60 mod 60) @ '':''
         @ dec_fixed 2 (s mod 60) @ ''Z'')"

lemma iso_examples:
  "iso_utc 0 = ''1970-01-01T00:00:00Z''"
  "iso_utc 951782399000000 = ''2000-02-28T23:59:59Z''"
  "iso_utc 1709164800000000 = ''2024-02-29T00:00:00Z''"
  by code_simp+

end
