(* ===== verification/Auth.thy ===== *)
theory Auth
  imports Job_Routes Calendar
begin

text \<open>
  Credentials: API keys (\<open>api/app/security.py\<close>), wallet sign-in (\<open>siwe.py\<close>, \<open>routes/auth.py\<close>), the
  authentication dependencies (\<open>deps.py\<close>), programmatic keys (\<open>routes/api_keys.py\<close>) and the provider
  console (\<open>routes/providers.py\<close>).  The Ethereum libraries are the parameter \<open>eth\<close>: address syntax, the
  EIP-55 rendering, and signature recovery, \<open>None\<close> when the signature does not verify.  Random tokens and
  nonces are arguments.
\<close>

record eth =
  is_address :: "string \<Rightarrow> bool"
  to_checksum_address :: "string \<Rightarrow> string"
  recover_message :: "string \<Rightarrow> string \<Rightarrow> string option"

section \<open>security.py\<close>

definition MAX_API_KEY_BYTES :: nat where
  "MAX_API_KEY_BYTES = 512"

definition generate_api_key :: "string \<Rightarrow> string" where
  "generate_api_key token = ''grdx_'' @ token"

definition hash_api_key :: "string \<Rightarrow> string \<Rightarrow> err + string" where
  "hash_api_key plaintext secret =
     (let raw = utf8 plaintext in
      if length raw > MAX_API_KEY_BYTES then Inl (ValueError ''api key exceeds the maximum plausible length'')
      else Inr (hmac_sha256 (utf8 secret) raw))"

definition key_prefix :: "string \<Rightarrow> string" where
  "key_prefix plaintext = take 9 plaintext"

definition endpoint_token :: "string \<Rightarrow> string \<Rightarrow> string" where
  "endpoint_token job_id secret = hmac_sha256 (utf8 secret) (utf8 (''endpoint:'' @ job_id))"

definition verify_endpoint_token :: "string \<Rightarrow> string \<Rightarrow> string \<Rightarrow> err + bool" where
  "verify_endpoint_token job_id token secret =
     (case compare_digest token (endpoint_token job_id secret) of None \<Rightarrow> Inl TypeError | Some b \<Rightarrow> Inr b)"

section \<open>siwe.py\<close>

definition STATEMENT :: string where
  "STATEMENT = ''Sign in to GRIDIX. This request will not trigger a transaction or cost gas.''"

definition normalize_address :: "eth \<Rightarrow> string \<Rightarrow> string option" where
  "normalize_address E address =
     (if \<not> is_address E address then None else Some (to_lower (to_checksum_address E address)))"

definition build_message ::
    "eth \<Rightarrow> string \<Rightarrow> string \<Rightarrow> string \<Rightarrow> int \<Rightarrow> string \<Rightarrow> instant \<Rightarrow> instant \<Rightarrow> string" where
  "build_message E domain uri address chain nonce issued_at expires_at =
     (let nl = [CHR 0x0A] in
      domain @ '' wants you to sign in with your Ethereum account:'' @ nl
      @ to_checksum_address E address @ nl @ nl
      @ STATEMENT @ nl @ nl
      @ ''URI: '' @ uri @ nl
      @ ''Version: 1'' @ nl
      @ ''Chain ID: '' @ int_str chain @ nl
      @ ''Nonce: '' @ nonce @ nl
      @ ''Issued At: '' @ iso_utc issued_at @ nl
      @ ''Expiration Time: '' @ iso_utc expires_at)"

definition recover_signer :: "eth \<Rightarrow> string \<Rightarrow> string \<Rightarrow> string option" where
  "recover_signer E message signature = map_option to_lower (recover_message E message signature)"

definition challenge_expiry :: "instant \<Rightarrow> int \<Rightarrow> instant" where
  "challenge_expiry now ttl_seconds = now + seconds ttl_seconds"

section \<open>Inserts under unique constraints\<close>

definition insert_api_key :: "ApiKey \<Rightarrow> db \<Rightarrow> err + db" where
  "insert_api_key key d =
     (if ak_key_hash key \<in> ak_key_hash ` set (api_keys d) then Inl (IntegrityError ''api_keys.key_hash'')
      else Inr (d\<lparr>api_keys := api_keys d @ [key], next_id := Suc (next_id d)\<rparr>))"

definition new_key ::
    "instant \<Rightarrow> OwnerType \<Rightarrow> uuid option \<Rightarrow> uuid option \<Rightarrow> string \<Rightarrow> string \<Rightarrow> ApiKeyKind \<Rightarrow> instant option \<Rightarrow> string \<Rightarrow> uuid \<Rightarrow> ApiKey" where
  "new_key now owner dev prov digest prefix kind expires label k =
     \<lparr> ak_id = k, ak_owner_type = owner, ak_developer_id = dev, ak_provider_id = prov, ak_key_hash = digest,
       ak_prefix = prefix, ak_revoked = False, ak_kind = kind, ak_expires_at = expires, ak_label = Some label,
       ak_created_at = now, ak_last_used_at = None \<rparr>"

section \<open>deps.py\<close>

abbreviation UNAUTHORIZED :: err where
  "UNAUTHORIZED \<equiv> HTTPException 401 ''Missing or invalid API key.''"

text \<open>\<open>str.partition(" ")\<close>: what precedes the first space and what follows it.\<close>

fun partition_space :: "string \<Rightarrow> string \<times> string" where
  "partition_space [] = ([], [])"
| "partition_space (c # cs) =
     (if c = CHR '' '' then ([], cs) else (let (a, b) = partition_space cs in (c # a, b)))"

definition extract_bearer :: "string option \<Rightarrow> err + string" where
  "extract_bearer authorization =
     (case authorization of
        None \<Rightarrow> Inl UNAUTHORIZED
      | Some header \<Rightarrow>
          if header = [] then Inl UNAUTHORIZED
          else
            (let (scheme, token) = partition_space header in
             if to_lower scheme \<noteq> ''bearer'' \<or> token = [] then Inl UNAUTHORIZED else Inr (strip token)))"

definition is_expired :: "instant \<Rightarrow> ApiKey \<Rightarrow> bool" where
  "is_expired now key = (case ak_expires_at key of None \<Rightarrow> False | Some t \<Rightarrow> t \<le> now)"

definition touch :: "instant \<Rightarrow> ApiKey \<Rightarrow> ApiKey" where
  "touch now key =
     (if (case ak_last_used_at key of None \<Rightarrow> True | Some t \<Rightarrow> now - t \<ge> seconds 60)
      then key\<lparr>ak_last_used_at := Some now\<rparr> else key)"

definition put_key :: "ApiKey \<Rightarrow> db \<Rightarrow> db" where
  "put_key key d = d\<lparr>api_keys := tput ak_id key (api_keys d)\<rparr>"

definition resolve_key :: "instant \<Rightarrow> string option \<Rightarrow> Settings \<Rightarrow> db \<Rightarrow> err + (ApiKey \<times> db)" where
  "resolve_key now authorization settings d =
     bindE (extract_bearer authorization) (\<lambda>token.
       case hash_api_key token (api_hmac_key settings) of
         Inl _ \<Rightarrow> Inl UNAUTHORIZED
       | Inr digest \<Rightarrow>
           (case find (\<lambda>k. ak_key_hash k = digest) (api_keys d) of
              None \<Rightarrow> Inl UNAUTHORIZED
            | Some key \<Rightarrow>
                if ak_revoked key \<or> is_expired now key then Inl UNAUTHORIZED
                else Inr (touch now key, put_key (touch now key) d)))"

definition get_developer :: "uuid \<Rightarrow> db \<Rightarrow> Developer option" where
  "get_developer k d = tget dv_id k (developers d)"

definition require_developer :: "instant \<Rightarrow> string option \<Rightarrow> Settings \<Rightarrow> db \<Rightarrow> err + (Developer \<times> db)" where
  "require_developer now authorization settings d =
     bindE (resolve_key now authorization settings d) (\<lambda>(key, d).
       case (ak_owner_type key, ak_developer_id key) of
         (ot_developer, Some dev) \<Rightarrow>
           (case get_developer dev d of None \<Rightarrow> Inl UNAUTHORIZED | Some developer \<Rightarrow> Inr (developer, d))
       | _ \<Rightarrow> Inl (HTTPException 403 ''Developer credentials required.''))"

definition require_wallet_session :: "instant \<Rightarrow> string option \<Rightarrow> Settings \<Rightarrow> db \<Rightarrow> err + (Developer \<times> db)" where
  "require_wallet_session now authorization settings d =
     bindE (resolve_key now authorization settings d) (\<lambda>(key, d).
       case (ak_owner_type key, ak_developer_id key) of
         (ot_developer, Some dev) \<Rightarrow>
           if ak_kind key \<noteq> ak_session
           then Inl (HTTPException 403 ''Wallet sign-in required. An API key cannot manage API keys.'')
           else (case get_developer dev d of None \<Rightarrow> Inl UNAUTHORIZED | Some developer \<Rightarrow> Inr (developer, d))
       | _ \<Rightarrow> Inl (HTTPException 403 ''Developer credentials required.''))"

definition provider_for_address :: "string option \<Rightarrow> db \<Rightarrow> Provider option" where
  "provider_for_address address d =
     (case address of
        None \<Rightarrow> None
      | Some a \<Rightarrow> if a = [] then None else find (\<lambda>p. pr_wallet_address p = a) (providers d))"

definition require_provider_principal :: "instant \<Rightarrow> string option \<Rightarrow> Settings \<Rightarrow> db \<Rightarrow> err + (Provider \<times> db)" where
  "require_provider_principal now authorization settings d =
     bindE (resolve_key now authorization settings d) (\<lambda>(key, d).
       let refused = Inl (HTTPException 403 ''Provider credentials required.'') in
       case (ak_owner_type key, ak_provider_id key, ak_developer_id key) of
         (ot_provider, Some pid, _) \<Rightarrow>
           (case get_provider pid d of None \<Rightarrow> Inl UNAUTHORIZED | Some provider \<Rightarrow> Inr (provider, d))
       | (ot_developer, _, Some dev) \<Rightarrow>
           (case get_developer dev d of
              None \<Rightarrow> refused
            | Some developer \<Rightarrow>
                (case provider_for_address (dv_wallet_address developer) d of
                   None \<Rightarrow> refused | Some provider \<Rightarrow> Inr (provider, d)))
       | _ \<Rightarrow> refused)"

definition require_provider :: "instant \<Rightarrow> string option \<Rightarrow> Settings \<Rightarrow> db \<Rightarrow> err + (Provider \<times> db)" where
  "require_provider now authorization settings d =
     bindE (resolve_key now authorization settings d) (\<lambda>(key, d).
       case (ak_owner_type key, ak_provider_id key) of
         (ot_provider, Some pid) \<Rightarrow>
           (case get_provider pid d of None \<Rightarrow> Inl UNAUTHORIZED | Some provider \<Rightarrow> Inr (provider, d))
       | _ \<Rightarrow> Inl (HTTPException 403 ''Provider credentials required.''))"

definition provider_signing_key :: "string option \<Rightarrow> err + string" where
  "provider_signing_key authorization = extract_bearer authorization"

definition require_internal :: "Settings \<Rightarrow> string option \<Rightarrow> err + unit" where
  "require_internal settings authorization =
     (let (scheme, token) = partition_space (case authorization of None \<Rightarrow> [] | Some h \<Rightarrow> h);
          refused = Inl (HTTPException 401 ''Operator credentials required.'')
      in if to_lower scheme \<noteq> ''bearer'' then refused
         else (case compare_digest (strip token) (operator_key settings) of
                 None \<Rightarrow> Inl TypeError | Some True \<Rightarrow> Inr () | Some False \<Rightarrow> refused))"

section \<open>routes/auth.py\<close>

abbreviation REJECTED :: err where
  "REJECTED \<equiv> HTTPException 401 ''Signature verification failed.''"

definition issue_nonce ::
    "eth \<Rightarrow> instant \<Rightarrow> Settings \<Rightarrow> string \<Rightarrow> string \<Rightarrow> db \<Rightarrow> err + (AuthNonce \<times> db)" where
  "issue_nonce E now settings nonce address d =
     (case normalize_address E address of
        None \<Rightarrow> Inl (HTTPException 422 ''Not a wallet address.'')
      | Some normalized \<Rightarrow>
          (let expires_at = challenge_expiry now (siwe_nonce_ttl_seconds settings);
               message = build_message E (siwe_domain settings) (siwe_uri settings) normalized (chain_id settings)
                           nonce now expires_at;
               row = \<lparr> an_id = next_id d, an_nonce = nonce, an_address = normalized, an_message = message,
                       an_expires_at = expires_at, an_used_at = None \<rparr>
           in if nonce \<in> an_nonce ` set (auth_nonces d) then Inl (IntegrityError ''auth_nonces.nonce'')
              else Inr (row, d\<lparr>auth_nonces := auth_nonces d @ [row], next_id := Suc (next_id d)\<rparr>)))"

text \<open>The conditional update; \<open>True\<close> when it matched the row.\<close>

definition claim_nonce :: "instant \<Rightarrow> AuthNonce \<Rightarrow> db \<Rightarrow> bool \<times> db" where
  "claim_nonce now challenge d =
     (if an_expires_at challenge \<le> now then (False, d)
      else (case tget an_id (an_id challenge) (auth_nonces d) of
              Some row \<Rightarrow>
                if an_used_at row = None
                then (True, d\<lparr>auth_nonces := tput an_id (row\<lparr>an_used_at := Some now\<rparr>) (auth_nonces d)\<rparr>)
                else (False, d)
            | None \<Rightarrow> (False, d)))"

text \<open>The ellipsis of the display name is given by its UTF-8 bytes.\<close>

definition find_or_create_developer :: "instant \<Rightarrow> string \<Rightarrow> db \<Rightarrow> Developer \<times> db" where
  "find_or_create_developer now address d =
     (case find (\<lambda>v. dv_wallet_address v = Some address) (developers d) of
        Some developer \<Rightarrow> (developer, d)
      | None \<Rightarrow>
          (let developer = \<lparr> dv_id = next_id d,
                             dv_name = take 6 address @ [CHR 0xE2, CHR 0x80, CHR 0xA6] @ drop (length address - 4) address,
                             dv_wallet_address = Some address, dv_created_at = now \<rparr>
           in (developer, d\<lparr>developers := developers d @ [developer], next_id := Suc (next_id d)\<rparr>)))"

definition mint_session_key ::
    "instant \<Rightarrow> Settings \<Rightarrow> string \<Rightarrow> Developer \<Rightarrow> db \<Rightarrow> err + ((string \<times> instant) \<times> db)" where
  "mint_session_key now settings token developer d =
     (let plaintext = generate_api_key token;
          expires_at = challenge_expiry now (session_ttl_seconds settings)
      in bindE (hash_api_key plaintext (api_hmac_key settings)) (\<lambda>digest.
         bindE (insert_api_key (new_key now ot_developer (Some (dv_id developer)) None digest (key_prefix plaintext)
                                  ak_session (Some expires_at) ''session'' (next_id d)) d) (\<lambda>d.
           Inr ((plaintext, expires_at), d))))"

record SessionResponse =
  sr_developer_id :: uuid
  sr_name :: string
  sr_wallet_address :: string
  sr_api_key :: string
  sr_expires_at :: instant

definition verify_sign_in ::
    "eth \<Rightarrow> instant \<Rightarrow> Settings \<Rightarrow> string \<Rightarrow> string \<Rightarrow> string \<Rightarrow> string \<Rightarrow> db \<Rightarrow> err + (SessionResponse \<times> db)" where
  "verify_sign_in E now settings token body_address body_nonce body_signature d =
     (case normalize_address E body_address of
        None \<Rightarrow> Inl REJECTED
      | Some address \<Rightarrow>
          (case find (\<lambda>n. an_nonce n = body_nonce) (auth_nonces d) of
             None \<Rightarrow> Inl REJECTED
           | Some challenge \<Rightarrow>
               (let (won, d) = claim_nonce now challenge d in
                if \<not> won then Inl REJECTED
                else if an_address challenge \<noteq> address then Inl REJECTED
                else
                  (let signer = recover_signer E (an_message challenge) body_signature in
                   if signer = None \<or> signer \<noteq> Some (an_address challenge) then Inl REJECTED
                   else
                     (let (developer, d) = find_or_create_developer now address d in
                      bindE (mint_session_key now settings token developer d) (\<lambda>((plaintext, expires_at), d).
                        Inr (\<lparr> sr_developer_id = dv_id developer, sr_name = dv_name developer,
                               sr_wallet_address = address, sr_api_key = plaintext, sr_expires_at = expires_at \<rparr>, d)))))))"

section \<open>routes/api\_keys.py\<close>

definition owned_programmatic :: "uuid \<Rightarrow> ApiKey \<Rightarrow> bool" where
  "owned_programmatic developer_id key \<longleftrightarrow>
     ak_developer_id key = Some developer_id \<and> ak_owner_type key = ot_developer \<and> ak_kind key = ak_programmatic"

definition create_api_key ::
    "instant \<Rightarrow> Settings \<Rightarrow> string \<Rightarrow> string \<Rightarrow> Developer \<Rightarrow> db \<Rightarrow> err + ((uuid \<times> string \<times> string \<times> string) \<times> db)" where
  "create_api_key now settings token label developer d =
     (let plaintext = generate_api_key token in
      bindE (hash_api_key plaintext (api_hmac_key settings)) (\<lambda>digest.
      bindE (insert_api_key (new_key now ot_developer (Some (dv_id developer)) None digest (key_prefix plaintext)
                               ak_programmatic None label (next_id d)) d) (\<lambda>d'.
        Inr ((next_id d, label, key_prefix plaintext, plaintext), d'))))"

definition list_api_keys :: "Developer \<Rightarrow> db \<Rightarrow> ApiKey list" where
  "list_api_keys developer d = sort_key (\<lambda>k. - ak_created_at k) (filter (owned_programmatic (dv_id developer)) (api_keys d))"

definition revoke_api_key :: "uuid \<Rightarrow> Developer \<Rightarrow> db \<Rightarrow> err + db" where
  "revoke_api_key key_id developer d =
     (case find (\<lambda>k. owned_programmatic (dv_id developer) k \<and> ak_id k = key_id) (api_keys d) of
        None \<Rightarrow> Inl (not_found ''No such API key.'')
      | Some key \<Rightarrow> Inr (put_key (key\<lparr>ak_revoked := True\<rparr>) d))"

section \<open>routes/providers.py\<close>

definition reserved_name :: "string \<Rightarrow> bool" where
  "reserved_name name \<longleftrightarrow> take 9 (to_lower (strip name)) = ''__gridix_''"

definition onboard_provider ::
    "instant \<Rightarrow> Settings \<Rightarrow> string \<Rightarrow> string \<Rightarrow> string option \<Rightarrow> Developer \<Rightarrow> db \<Rightarrow> err + ((uuid \<times> string \<times> string) \<times> db)" where
  "onboard_provider now settings token name region developer d =
     (case dv_wallet_address developer of
        None \<Rightarrow> Inl (HTTPException 422 ''A wallet address is required to become a provider.'')
      | Some wallet \<Rightarrow>
          (case provider_for_address (Some wallet) d of
             Some _ \<Rightarrow> Inl (conflict ''This address is already registered as a provider.'')
           | None \<Rightarrow>
               if wallet \<in> pr_wallet_address ` set (providers d) then Inl (IntegrityError ''providers.wallet_address'')
               else
                 (let provider = \<lparr> pr_id = next_id d, pr_name = name, pr_region = region, pr_gpu_model = None,
                        pr_gpu_vram_mb = 0, pr_cpu_cores = 0, pr_memory_mb = 0, pr_max_concurrent = 1,
                        pr_reputation = 50, pr_enabled = True, pr_wallet_address = wallet, pr_tee_attested = False,
                        pr_degraded = False, pr_connected_at = None, pr_last_seen = None, pr_path_type = None,
                        pr_path_established_at = None, pr_created_at = now \<rparr>;
                      d = d\<lparr>providers := providers d @ [provider], next_id := Suc (next_id d)\<rparr>;
                      plaintext = generate_api_key token
                  in bindE (hash_api_key plaintext (api_hmac_key settings)) (\<lambda>digest.
                     bindE (insert_api_key (new_key now ot_provider None (Some (pr_id provider)) digest
                                              (key_prefix plaintext) ak_programmatic None ''node agent'' (next_id d)) d) (\<lambda>d.
                       Inr ((pr_id provider, pr_name provider, plaintext), d))))))"

text \<open>A field of the body is absent (\<open>None\<close>) or carries a value; the columns that are not nullable refuse
  an explicit \<open>null\<close> at the flush.\<close>

record ProviderCapabilities =
  pc_region :: "string option option"
  pc_gpu_model :: "string option option"
  pc_gpu_vram_mb :: "int option option"
  pc_cpu_cores :: "int option option"
  pc_memory_mb :: "int option option"
  pc_max_concurrent :: "int option option"

definition set_opt :: "'a option \<Rightarrow> 'a \<Rightarrow> 'a" where
  "set_opt update old = (case update of None \<Rightarrow> old | Some v \<Rightarrow> v)"

definition update_me :: "ProviderCapabilities \<Rightarrow> Provider \<Rightarrow> db \<Rightarrow> err + (Provider \<times> db)" where
  "update_me body provider d =
     (if Some None \<in> {pc_gpu_vram_mb body, pc_cpu_cores body, pc_memory_mb body, pc_max_concurrent body}
      then Inl (IntegrityError ''NOT NULL constraint failed'')
      else
        (let num = (\<lambda>update old. case update of Some (Some n) \<Rightarrow> n | _ \<Rightarrow> old);
             provider = provider\<lparr>pr_region := set_opt (pc_region body) (pr_region provider),
                                 pr_gpu_model := set_opt (pc_gpu_model body) (pr_gpu_model provider),
                                 pr_gpu_vram_mb := num (pc_gpu_vram_mb body) (pr_gpu_vram_mb provider),
                                 pr_cpu_cores := num (pc_cpu_cores body) (pr_cpu_cores provider),
                                 pr_memory_mb := num (pc_memory_mb body) (pr_memory_mb provider),
                                 pr_max_concurrent := num (pc_max_concurrent body) (pr_max_concurrent provider)\<rparr>
         in Inr (provider, put_provider provider d)))"

text \<open>Ingress, egress and total over the lifetime, then ingress and egress of the current session.\<close>

definition my_bandwidth :: "Provider \<Rightarrow> db \<Rightarrow> (int \<times> int \<times> int) \<times> (int \<times> int)" where
  "my_bandwidth provider d =
     (let (si, se, _) = provider_bandwidth (pr_id provider) (pr_connected_at provider) d
      in (provider_bandwidth (pr_id provider) None d, (si, se)))"

definition my_trust :: "Provider \<Rightarrow> db \<Rightarrow> bool \<times> bool \<times> string" where
  "my_trust provider d =
     (let has_valid = list_ex (\<lambda>r. br_provider_id r = pr_id provider \<and> br_validated r) (benchmark_reports d)
      in (pr_tee_attested provider, has_valid, trust_source (pr_tee_attested provider) has_valid))"

definition my_reputation :: "nat \<Rightarrow> nat \<Rightarrow> Provider \<Rightarrow> db \<Rightarrow> ReputationEvent list" where
  "my_reputation limit offset provider d =
     take limit (drop offset (sort_key (\<lambda>e. - re_created_at e)
       (filter (\<lambda>e. re_provider_id e = pr_id provider) (reputation_events d))))"

definition my_jobs :: "nat \<Rightarrow> nat \<Rightarrow> Provider \<Rightarrow> db \<Rightarrow> (JobAttempt \<times> Job \<times> rat option) list" where
  "my_jobs limit offset provider d =
     (let rows = concat (map (\<lambda>a. case get_job (at_job_id a) d of None \<Rightarrow> [] | Some j \<Rightarrow> [(a, j)])
                   (filter (\<lambda>a. at_provider_id a = Some (pr_id provider)) (job_attempts d)));
          page = take limit (drop offset (sort_key (\<lambda>(a, j). - at_created_at a) rows))
      in map (\<lambda>(a, j). (a, j, case (at_started_at a, at_finished_at a) of
                               (Some s, Some f) \<Rightarrow> Some (of_int (f - s) / 1000000) | _ \<Rightarrow> None)) page)"

section \<open>What a presented credential must be\<close>

definition keys_ok :: "db \<Rightarrow> bool" where
  "keys_ok d \<longleftrightarrow> distinct (map ak_id (api_keys d)) \<and> distinct (map ak_key_hash (api_keys d))
     \<and> (\<forall>k \<in> set (api_keys d). ak_id k < next_id d)"

definition nonces_ok :: "db \<Rightarrow> bool" where
  "nonces_ok d \<longleftrightarrow> distinct (map an_id (auth_nonces d)) \<and> distinct (map an_nonce (auth_nonces d))
     \<and> (\<forall>n \<in> set (auth_nonces d). an_id n < next_id d)"

text \<open>The live key a header stands for.\<close>

definition key_of :: "instant \<Rightarrow> string option \<Rightarrow> Settings \<Rightarrow> db \<Rightarrow> ApiKey \<Rightarrow> bool" where
  "key_of now authorization s d key \<longleftrightarrow>
     key \<in> set (api_keys d) \<and> \<not> ak_revoked key \<and> \<not> is_expired now key
     \<and> (\<exists>token. extract_bearer authorization = Inr token \<and> hash_api_key token (api_hmac_key s) = Inr (ak_key_hash key))"

lemma touch_sel [simp]:
  "ak_id (touch now k) = ak_id k" "ak_key_hash (touch now k) = ak_key_hash k" "ak_kind (touch now k) = ak_kind k"
  "ak_owner_type (touch now k) = ak_owner_type k" "ak_developer_id (touch now k) = ak_developer_id k"
  "ak_provider_id (touch now k) = ak_provider_id k" "ak_revoked (touch now k) = ak_revoked k"
  "ak_expires_at (touch now k) = ak_expires_at k"
  by (simp_all add: touch_def)

lemma put_key_sel [simp]:
  "api_keys (put_key k d) = tput ak_id k (api_keys d)" "developers (put_key k d) = developers d"
  "providers (put_key k d) = providers d" "jobs (put_key k d) = jobs d" "next_id (put_key k d) = next_id d"
  "ledger_entries (put_key k d) = ledger_entries d" "disputes (put_key k d) = disputes d"
  "auth_nonces (put_key k d) = auth_nonces d"
  by (simp_all add: put_key_def)

lemma find_hash:
  assumes "distinct (map ak_key_hash xs)" "k \<in> set xs"
  shows "find (\<lambda>x. ak_key_hash x = ak_key_hash k) xs = Some k"
  using assms by (induction xs) (auto simp: image_iff)

lemma resolve_key_Inr:
  assumes "keys_ok d"
  shows "resolve_key now auth s d = Inr (key', d') \<longleftrightarrow>
    (\<exists>key. key_of now auth s d key \<and> key' = touch now key \<and> d' = put_key (touch now key) d)"
proof
  assume r: "resolve_key now auth s d = Inr (key', d')"
  then obtain token where t: "extract_bearer auth = Inr token" unfolding resolve_key_def by (rule bindE_InrE)
  with r obtain digest where h: "hash_api_key token (api_hmac_key s) = Inr digest"
    by (cases "hash_api_key token (api_hmac_key s)") (auto simp: resolve_key_def)
  with r t obtain key where k: "find (\<lambda>k. ak_key_hash k = digest) (api_keys d) = Some key"
    by (cases "find (\<lambda>k. ak_key_hash k = digest) (api_keys d)") (auto simp: resolve_key_def)
  with r t h find_SomeD [OF k] show "\<exists>key. key_of now auth s d key \<and> key' = touch now key \<and> d' = put_key (touch now key) d"
    by (intro exI [of _ key]) (auto simp: resolve_key_def key_of_def split: if_splits)
next
  assume "\<exists>key. key_of now auth s d key \<and> key' = touch now key \<and> d' = put_key (touch now key) d"
  then obtain key token where k: "key \<in> set (api_keys d)" "\<not> ak_revoked key" "\<not> is_expired now key"
    "extract_bearer auth = Inr token" "hash_api_key token (api_hmac_key s) = Inr (ak_key_hash key)"
    "key' = touch now key" "d' = put_key (touch now key) d" by (auto simp: key_of_def)
  moreover have "find (\<lambda>x. ak_key_hash x = ak_key_hash key) (api_keys d) = Some key"
    using assms k(1) by (intro find_hash) (simp_all add: keys_ok_def)
  ultimately show "resolve_key now auth s d = Inr (key', d')" by (simp add: resolve_key_def)
qed

lemma resolve_key_error: "resolve_key now auth s d = Inl e \<Longrightarrow> e = UNAUTHORIZED"
  by (auto simp: resolve_key_def extract_bearer_def bindE_def Let_def split: sum.splits option.splits if_splits prod.splits)

lemma require_wallet_session_Inr:
  assumes "keys_ok d" "require_wallet_session now auth s d = Inr (dev, d')"
  obtains key where "key_of now auth s d key" "ak_kind key = ak_session" "ak_owner_type key = ot_developer"
    "ak_developer_id key = Some (dv_id dev)" "dev \<in> set (developers d)"
proof -
  from assms(2) obtain key' e where r: "resolve_key now auth s d = Inr (key', e)"
    unfolding require_wallet_session_def by (auto elim: bindE_InrE)
  have k: "ak_owner_type key' = ot_developer" "ak_kind key' = ak_session"
      "\<exists>k. ak_developer_id key' = Some k \<and> get_developer k e = Some dev"
    using assms(2) r by (cases "ak_owner_type key'"; cases "ak_developer_id key'";
        auto simp: require_wallet_session_def split: option.splits if_splits)+
  from r obtain key where "key_of now auth s d key" "key' = touch now key" "e = put_key (touch now key) d"
    unfolding resolve_key_Inr [OF assms(1)] by blast
  with k show ?thesis by (intro that [of key]) (auto simp: get_developer_def dest: tget_SomeD)
qed

text \<open>A credential that is not a wallet session never passes the session gate.\<close>

lemma programmatic_refused:
  assumes "keys_ok d" "key_of now auth s d key" "ak_kind key \<noteq> ak_session"
  shows "\<exists>detail. require_wallet_session now auth s d = Inl (HTTPException 403 detail)"
proof -
  have "resolve_key now auth s d = Inr (touch now key, put_key (touch now key) d)"
    using assms resolve_key_Inr [OF assms(1)] by blast
  then show ?thesis using assms(3)
    by (auto simp: require_wallet_session_def split: OwnerType.splits option.splits)
qed

section \<open>Minting and revoking\<close>

lemma hash_api_key_short: "hash_api_key t k = Inr h \<Longrightarrow> length (utf8 t) \<le> MAX_API_KEY_BYTES \<and> h = hmac_sha256 (utf8 k) (utf8 t)"
  by (auto simp: hash_api_key_def Let_def split: if_splits)

text \<open>The alphabet of \<open>secrets.token_urlsafe\<close> has no white space.\<close>

definition urlsafe :: "string \<Rightarrow> bool" where
  "urlsafe t \<longleftrightarrow> list_all (\<lambda>c. \<not> is_space c) t"

lemma strip_plain: "list_all (\<lambda>c. \<not> is_space c) t \<Longrightarrow> strip t = t"
proof -
  have "list_all (\<lambda>c. \<not> is_space c) xs \<Longrightarrow> dropWhile is_space xs = xs" for xs by (cases xs) auto
  then show "list_all (\<lambda>c. \<not> is_space c) t \<Longrightarrow> strip t = t" by (simp add: strip_def list_all_rev)
qed

lemma bearer_key:
  assumes "urlsafe token"
  shows "extract_bearer (Some (''Bearer '' @ generate_api_key token)) = Inr (generate_api_key token)"
proof -
  have "strip (generate_api_key token) = generate_api_key token"
    using assms by (intro strip_plain) (simp add: generate_api_key_def urlsafe_def is_space_def)
  moreover have "to_lower ''Bearer'' = ''bearer''" by (simp add: to_lower_def char_of_def)
  ultimately show ?thesis by (simp add: extract_bearer_def generate_api_key_def)
qed

lemma insert_api_key_ok:
  assumes "insert_api_key key d = Inr d'" "keys_ok d" "ak_id key = next_id d"
  shows "keys_ok d'" "key \<in> set (api_keys d')"
  using assms by (force simp: insert_api_key_def keys_ok_def split: if_splits)+

text \<open>A key that was just minted authenticates with its plaintext.\<close>

lemma create_api_key_works:
  assumes c: "create_api_key now s token label dev d = Inr ((k, lab, pre, plain), d')" and ok: "keys_ok d" and u: "urlsafe token"
  obtains key where "key_of now' (Some (''Bearer '' @ plain)) s d' key" "ak_id key = k" "owned_programmatic (dv_id dev) key"
    "keys_ok d'"
proof -
  from c obtain h where h: "hash_api_key (generate_api_key token) (api_hmac_key s) = Inr h"
    and i: "insert_api_key (new_key now ot_developer (Some (dv_id dev)) None h (key_prefix (generate_api_key token))
              ak_programmatic None label (next_id d)) d = Inr d'"
    and r: "plain = generate_api_key token" "k = next_id d"
    by (auto simp: create_api_key_def Let_def bindE_Inr_iff)
  let ?key = "new_key now ot_developer (Some (dv_id dev)) None h (key_prefix (generate_api_key token)) ak_programmatic None label (next_id d)"
  have "keys_ok d'" "?key \<in> set (api_keys d')" using insert_api_key_ok [OF i ok] by (simp_all add: new_key_def)
  then show ?thesis
    using h bearer_key [OF u]
    by (intro that [of ?key]) (auto simp: key_of_def r new_key_def is_expired_def owned_programmatic_def)
qed

text \<open>Revocation: the key stops authenticating, at any later time and with any header.\<close>

lemma revoke_stops:
  assumes r: "revoke_api_key k dev d = Inr d'" and ok: "keys_ok d" and key: "key_of now auth s d key" "ak_id key = k"
  shows "resolve_key now' auth s d' = Inl UNAUTHORIZED" "keys_ok d'"
proof -
  from r obtain x where x: "x \<in> set (api_keys d)" "ak_id x = k" and d': "d' = put_key (x\<lparr>ak_revoked := True\<rparr>) d"
    by (auto simp: revoke_api_key_def dest!: find_SomeD split: option.splits)
  have "x = key"
    using ok x key by (auto simp: keys_ok_def key_of_def distinct_map inj_on_def)
  then have d': "d' = put_key (key\<lparr>ak_revoked := True\<rparr>) d" using d' by simp
  have hashes: "map ak_key_hash (tput ak_id (key\<lparr>ak_revoked := True\<rparr>) ys) = map ak_key_hash ys"
    if "\<forall>y \<in> set ys. ak_id y = ak_id key \<longrightarrow> ak_key_hash y = ak_key_hash key" for ys
    using that by (induction ys) auto
  have same: "\<forall>y \<in> set (api_keys d). ak_id y = ak_id key \<longrightarrow> ak_key_hash y = ak_key_hash key"
    using ok key by (auto simp: keys_ok_def key_of_def distinct_map inj_on_def)
  have "\<forall>y \<in> set (tput ak_id (key\<lparr>ak_revoked := True\<rparr>) (api_keys d)). ak_id y < next_id d"
    using ok key by (intro tput_ball) (auto simp: keys_ok_def key_of_def)
  then show ok': "keys_ok d'"
    using ok hashes [OF same] by (simp add: keys_ok_def d' tput_keys)
  show "resolve_key now' auth s d' = Inl UNAUTHORIZED"
  proof (cases "resolve_key now' auth s d'")
    case (Inl e)
    then show ?thesis using resolve_key_error by simp
  next
    case (Inr p)
    obtain k' e where "p = (k', e)" by force
    with Inr have "resolve_key now' auth s d' = Inr (k', e)" by simp
    then obtain y where y: "key_of now' auth s d' y" unfolding resolve_key_Inr [OF ok'] by blast
    then have "ak_key_hash y = ak_key_hash key" "y \<in> set (api_keys d')" "\<not> ak_revoked y"
      using key(1) by (auto simp: key_of_def)
    moreover have "key\<lparr>ak_revoked := True\<rparr> \<in> set (api_keys d')"
      using key(1) by (auto simp: key_of_def d' tput_def)
    ultimately have "y = key\<lparr>ak_revoked := True\<rparr>"
      using ok' by (auto simp: keys_ok_def distinct_map inj_on_def)
    then show ?thesis using \<open>\<not> ak_revoked y\<close> by simp
  qed
qed

section \<open>Signing in\<close>

lemma claim_nonce_True:
  assumes "claim_nonce now c d = (True, d')"
  obtains row where "now < an_expires_at c" "tget an_id (an_id c) (auth_nonces d) = Some row" "an_used_at row = None"
    "d' = d\<lparr>auth_nonces := tput an_id (row\<lparr>an_used_at := Some now\<rparr>) (auth_nonces d)\<rparr>"
  using assms by (auto simp: claim_nonce_def split: if_splits option.splits)

lemma find_or_create_developer_sel:
  assumes "find_or_create_developer now a d = (dev, d')"
  shows "dv_wallet_address dev = Some a" "dev \<in> set (developers d')" "set (developers d) \<subseteq> set (developers d')"
    "auth_nonces d' = auth_nonces d" "api_keys d' = api_keys d" "next_id d \<le> next_id d'" "jobs d' = jobs d"
    "ledger_entries d' = ledger_entries d" "disputes d' = disputes d" "providers d' = providers d"
  using assms by (auto simp: find_or_create_developer_def Let_def dest!: find_SomeD split: option.splits)

text \<open>A session is only ever minted for the wallet whose key signed a live, unspent challenge, and the
  challenge is spent by it.\<close>

lemma verify_sign_in_Inr:
  assumes v: "verify_sign_in E now s token addr nonce sig d = Inr (r, d')"
  obtains c row dev e h where "find (\<lambda>n. an_nonce n = nonce) (auth_nonces d) = Some c"
    "now < an_expires_at c" "tget an_id (an_id c) (auth_nonces d) = Some row" "an_used_at row = None"
    "normalize_address E addr = Some (an_address c)" "recover_signer E (an_message c) sig = Some (an_address c)"
    "find_or_create_developer now (an_address c)
       (d\<lparr>auth_nonces := tput an_id (row\<lparr>an_used_at := Some now\<rparr>) (auth_nonces d)\<rparr>) = (dev, e)"
    "hash_api_key (generate_api_key token) (api_hmac_key s) = Inr h"
    "insert_api_key (new_key now ot_developer (Some (dv_id dev)) None h (key_prefix (generate_api_key token))
       ak_session (Some (challenge_expiry now (session_ttl_seconds s))) ''session'' (next_id e)) e = Inr d'"
    "r = \<lparr> sr_developer_id = dv_id dev, sr_name = dv_name dev, sr_wallet_address = an_address c,
           sr_api_key = generate_api_key token, sr_expires_at = challenge_expiry now (session_ttl_seconds s) \<rparr>"
proof -
  from v obtain a where a: "normalize_address E addr = Some a"
    by (cases "normalize_address E addr") (auto simp: verify_sign_in_def)
  with v obtain c where c: "find (\<lambda>n. an_nonce n = nonce) (auth_nonces d) = Some c"
    by (cases "find (\<lambda>n. an_nonce n = nonce) (auth_nonces d)") (auto simp: verify_sign_in_def)
  obtain won d1 where cl: "claim_nonce now c d = (won, d1)" by force
  obtain dev e where fd: "find_or_create_developer now a d1 = (dev, e)" by force
  from v have w: "won" "an_address c = a" "recover_signer E (an_message c) sig = Some (an_address c)"
    and m: "bindE (mint_session_key now s token dev e) (\<lambda>((plaintext, expires_at), d).
              Inr (\<lparr> sr_developer_id = dv_id dev, sr_name = dv_name dev, sr_wallet_address = a,
                     sr_api_key = plaintext, sr_expires_at = expires_at \<rparr>, d)) = Inr (r, d')"
    by (auto simp: verify_sign_in_def a c cl fd Let_def split: if_splits)
  obtain row where row: "now < an_expires_at c" "tget an_id (an_id c) (auth_nonces d) = Some row" "an_used_at row = None"
    "d1 = d\<lparr>auth_nonces := tput an_id (row\<lparr>an_used_at := Some now\<rparr>) (auth_nonces d)\<rparr>"
    using w(1) cl by (auto elim!: claim_nonce_True)
  from m obtain h where "hash_api_key (generate_api_key token) (api_hmac_key s) = Inr h"
    "insert_api_key (new_key now ot_developer (Some (dv_id dev)) None h (key_prefix (generate_api_key token))
       ak_session (Some (challenge_expiry now (session_ttl_seconds s))) ''session'' (next_id e)) e = Inr d'"
    "r = \<lparr> sr_developer_id = dv_id dev, sr_name = dv_name dev, sr_wallet_address = a,
           sr_api_key = generate_api_key token, sr_expires_at = challenge_expiry now (session_ttl_seconds s) \<rparr>"
    by (auto simp: mint_session_key_def Let_def bindE_Inr_iff)
  then show ?thesis using that c row fd w a by simp
qed

lemma challenge_row:
  assumes "nonces_ok d" "find (\<lambda>n. an_nonce n = nonce) (auth_nonces d) = Some c" "tget an_id (an_id c) (auth_nonces d) = Some row"
  shows "row = c"
  using assms find_SomeD [OF assms(2)] tget_SomeD [OF assms(3)]
  by (auto simp: nonces_ok_def distinct_map inj_on_def)

text \<open>Replay: a spent challenge buys nothing, whoever presents it.\<close>

lemma sign_in_once:
  assumes v: "verify_sign_in E now s token addr nonce sig d = Inr (r, d')" and ok: "nonces_ok d"
  shows "verify_sign_in E' now' s' token' addr' nonce sig' d' = Inl REJECTED"
proof -
  obtain c row dev e h where c: "find (\<lambda>n. an_nonce n = nonce) (auth_nonces d) = Some c"
    and row: "tget an_id (an_id c) (auth_nonces d) = Some row"
    and fd: "find_or_create_developer now (an_address c)
       (d\<lparr>auth_nonces := tput an_id (row\<lparr>an_used_at := Some now\<rparr>) (auth_nonces d)\<rparr>) = (dev, e)"
    and ins: "insert_api_key (new_key now ot_developer (Some (dv_id dev)) None h (key_prefix (generate_api_key token))
       ak_session (Some (challenge_expiry now (session_ttl_seconds s))) ''session'' (next_id e)) e = Inr d'"
    by (rule verify_sign_in_Inr [OF v])
  have [simp]: "row = c" by (rule challenge_row [OF ok c row])
  have an: "auth_nonces d' = tput an_id (c\<lparr>an_used_at := Some now\<rparr>) (auth_nonces d)"
    using ins find_or_create_developer_sel(4) [OF fd] by (auto simp: insert_api_key_def split: if_splits)
  have "find (\<lambda>n. an_nonce n = nonce) (tput an_id (c\<lparr>an_used_at := Some now\<rparr>) xs) = Some (c\<lparr>an_used_at := Some now\<rparr>)"
    if "find (\<lambda>n. an_nonce n = nonce) xs = Some c" "distinct (map an_id xs)" for xs
    using that find_SomeD [OF that(1)] by (induction xs) (auto split: if_splits)
  then have c': "find (\<lambda>n. an_nonce n = nonce) (auth_nonces d') = Some (c\<lparr>an_used_at := Some now\<rparr>)"
    using c ok by (simp add: an nonces_ok_def)
  have "tget an_id (an_id c) (auth_nonces d') = Some (c\<lparr>an_used_at := Some now\<rparr>)"
    using row by (simp add: an tget_tput)
  then have "fst (claim_nonce now' (c\<lparr>an_used_at := Some now\<rparr>) d') = False" by (simp add: claim_nonce_def)
  then show ?thesis
    using c' by (cases "claim_nonce now' (c\<lparr>an_used_at := Some now\<rparr>) d'") (auto simp: verify_sign_in_def split: option.splits)
qed

section \<open>Credentials leave the coordinator's invariant alone\<close>

text \<open>The wallet's holder gets in: a challenge answered in time with the wallet's signature is accepted.\<close>

lemma sign_in_succeeds:
  assumes i: "issue_nonce E now s nonce addr d = Inr (c, d1)" and ok: "nonces_ok d"
    and sig: "recover_signer E (an_message c) sig = Some (an_address c)" and t: "t < an_expires_at c"
    and key: "hash_api_key (generate_api_key token) (api_hmac_key s) = Inr h" "h \<notin> ak_key_hash ` set (api_keys d)"
  shows "\<exists>session d'. verify_sign_in E t s token addr nonce sig d1 = Inr (session, d')"
proof -
  from i have c: "normalize_address E addr = Some (an_address c)" "an_nonce c = nonce" "an_id c = next_id d" "an_used_at c = None"
    "nonce \<notin> an_nonce ` set (auth_nonces d)" "d1 = d\<lparr>auth_nonces := auth_nonces d @ [c], next_id := Suc (next_id d)\<rparr>"
    by (auto simp: issue_nonce_def Let_def split: option.splits if_splits)
  have "find (\<lambda>n. an_nonce n = nonce) (auth_nonces d) = None" using c(5) by (auto simp: find_None_iff)
  then have f: "find (\<lambda>n. an_nonce n = nonce) (auth_nonces d1) = Some c" using c(2) by (simp add: c(6) find_append)
  have "tget an_id (an_id c) (auth_nonces d) = None" using ok c(3) by (fastforce simp: tget_None_iff nonces_ok_def)
  then have g: "tget an_id (an_id c) (auth_nonces d1) = Some c" by (simp add: c(6) tget_append)
  let ?e = "d1\<lparr>auth_nonces := tput an_id (c\<lparr>an_used_at := Some t\<rparr>) (auth_nonces d1)\<rparr>"
  obtain dev e where e: "find_or_create_developer t (an_address c) ?e = (dev, e)" by force
  have "api_keys e = api_keys d" using find_or_create_developer_sel(5) [OF e] by (simp add: c(6))
  then show ?thesis
    using c(1,4) f g sig t key e
    by (simp add: verify_sign_in_def claim_nonce_def mint_session_key_def insert_api_key_def new_key_def Let_def)
qed

lemma account_keeps:
  assumes "coord_ok d" "jobs e = jobs d" "ledger_entries e = ledger_entries d" "disputes e = disputes d"
    "next_id d \<le> next_id e" "\<And>p. p \<in> set (providers e) \<Longrightarrow> p \<in> set (providers d) \<or> pr_reputation p = 50"
  shows "keeps d e"
proof -
  have ok: "ledger_ok e" "held_ok e"
    using assms by (auto simp: coord_ok_def intro: ledger_ok_cong [of e d] held_ok_same_ledger [of d e])
  moreover have "reputations_ok e"
    using assms(1,6) by (fastforce simp: coord_ok_def reputations_ok_def REP_MIN_def REP_MAX_def)
  moreover have "jobs_ok e" using assms(1,2,5) by (fastforce simp: coord_ok_def jobs_ok_def)
  moreover have "escrow_ok e"
    using assms(1,2,5) job_balance_cong [OF assms(3)] by (fastforce simp: coord_ok_def escrow_ok_def)
  ultimately show ?thesis using assms(2) by (simp add: keeps_def coord_ok_def db_evolves_jobs)
qed

lemma insert_api_key_keeps: "insert_api_key k d = Inr d' \<Longrightarrow> coord_ok d \<Longrightarrow> keeps d d'"
  by (rule account_keeps) (auto simp: insert_api_key_def split: if_splits)

lemma issue_nonce_keeps: "issue_nonce E now s n a d = Inr (row, d') \<Longrightarrow> coord_ok d \<Longrightarrow> keeps d d'"
  by (rule account_keeps) (auto simp: issue_nonce_def Let_def split: if_splits option.splits)

lemma verify_sign_in_keeps:
  assumes "verify_sign_in E now s token addr nonce sig d = Inr (r, d')" "coord_ok d"
  shows "keeps d d'"
proof -
  obtain c :: AuthNonce and row dev e h where
    fd: "find_or_create_developer now (an_address c)
       (d\<lparr>auth_nonces := tput an_id (row\<lparr>an_used_at := Some now\<rparr>) (auth_nonces d)\<rparr>) = (dev, e)"
    and ins: "insert_api_key (new_key now ot_developer (Some (dv_id dev)) None h (key_prefix (generate_api_key token))
       ak_session (Some (challenge_expiry now (session_ttl_seconds s))) ''session'' (next_id e)) e = Inr d'"
    by (rule verify_sign_in_Inr [OF assms(1)])
  have 1: "keeps d e" using find_or_create_developer_sel(6-10) [OF fd] by (intro account_keeps [OF assms(2)]) auto
  moreover have "keeps e d'" using 1 by (intro insert_api_key_keeps [OF ins]) (simp add: keeps_def)
  ultimately show ?thesis by (rule keeps_trans)
qed

lemma create_api_key_keeps: "create_api_key now s t l dev d = Inr (r, d') \<Longrightarrow> coord_ok d \<Longrightarrow> keeps d d'"
  by (auto simp: create_api_key_def Let_def bindE_Inr_iff intro: insert_api_key_keeps)

lemma revoke_api_key_keeps: "revoke_api_key k dev d = Inr d' \<Longrightarrow> coord_ok d \<Longrightarrow> keeps d d'"
  by (rule account_keeps) (auto simp: revoke_api_key_def split: option.splits)

lemma onboard_provider_keeps:
  assumes "onboard_provider now s t n reg dev d = Inr (r, d')" "coord_ok d"
  shows "keeps d d'"
  using assms(1)
  by (intro account_keeps [OF assms(2)])
    (auto simp: onboard_provider_def Let_def bindE_Inr_iff insert_api_key_def split: option.splits if_splits)

lemma update_me_keeps:
  assumes "update_me body p d = Inr (p', d')" "coord_ok d" "get_provider (pr_id p) d = Some p"
  shows "keeps d d'"
proof -
  have "d' = put_provider p' d" "pr_reputation p' = pr_reputation p"
    using assms(1) by (auto simp: update_me_def Let_def split: if_splits)
  then show ?thesis by (intro own_row_keeps [OF assms(2,3)]) auto
qed

end
