(* ===== verification/Uploads.thy ===== *)
theory Uploads
  imports Job_Routes
begin

text \<open>
  Resumable uploads: the staging area of \<open>api/app/chunked.py\<close> and the endpoints of
  \<open>api/app/routes/uploads.py\<close> and \<open>routes/blobs.py\<close>.  Staging files and stored blobs outlive a request that
  raises, while its database session is rolled back, so a handler answers the outcome together with the
  state it leaves.  \<open>put\<close> and \<open>read\<close> are the storage backend's.
\<close>

section \<open>chunked.py\<close>

type_synonym staging = "uuid \<Rightarrow> string option"

definition staging_create :: "uuid \<Rightarrow> staging \<Rightarrow> staging" where
  "staging_create upload_id st = st(upload_id \<mapsto> [])"

definition staging_received :: "uuid \<Rightarrow> staging \<Rightarrow> int" where
  "staging_received upload_id st = (case st upload_id of None \<Rightarrow> 0 | Some data \<Rightarrow> int (length data))"

text \<open>Opening with mode \<open>ab\<close> creates a missing file.\<close>

definition staging_append :: "uuid \<Rightarrow> int \<Rightarrow> string \<Rightarrow> staging \<Rightarrow> err + (int \<times> staging)" where
  "staging_append upload_id offset chunk st =
     (let current = staging_received upload_id st in
      if offset \<noteq> current then Inl (OffsetMismatchError current offset)
      else Inr (current + int (length chunk),
                st(upload_id \<mapsto> (case st upload_id of None \<Rightarrow> [] | Some data \<Rightarrow> data) @ chunk)))"

definition staging_assemble :: "uuid \<Rightarrow> staging \<Rightarrow> err + string" where
  "staging_assemble upload_id st =
     (case st upload_id of None \<Rightarrow> Inl (FileNotFoundError (uuid_str upload_id)) | Some data \<Rightarrow> Inr data)"

definition staging_cleanup :: "uuid \<Rightarrow> staging \<Rightarrow> staging" where
  "staging_cleanup upload_id st = st(upload_id := None)"

section \<open>routes/uploads.py and routes/blobs.py\<close>

definition MAX_CHUNK_BYTES :: int where
  "MAX_CHUNK_BYTES = 64 * 1024 * 1024"

record 's upl =
  ul_db :: db
  ul_staging :: staging
  ul_store :: 's

definition get_upload_session :: "uuid \<Rightarrow> db \<Rightarrow> UploadSession option" where
  "get_upload_session k d = tget us_id k (upload_sessions d)"

definition owned_session :: "uuid \<Rightarrow> uuid \<Rightarrow> db \<Rightarrow> err + UploadSession" where
  "owned_session developer_id upload_id d =
     (case get_upload_session upload_id d of
        None \<Rightarrow> Inl (not_found ''Upload not found.'')
      | Some upload \<Rightarrow> if us_developer_id upload \<noteq> developer_id then Inl (not_found ''Upload not found.'') else Inr upload)"

definition create_upload :: "uuid \<Rightarrow> string option \<Rightarrow> 's upl \<Rightarrow> uuid \<times> 's upl" where
  "create_upload developer_id digest u =
     (let k = next_id (ul_db u);
          row = \<lparr> us_id = k, us_developer_id = developer_id, us_declared_digest = digest, us_blob_ref = None \<rparr>
      in (k, u\<lparr>ul_db := (ul_db u)\<lparr>upload_sessions := upload_sessions (ul_db u) @ [row], next_id := Suc k\<rparr>,
               ul_staging := staging_create k (ul_staging u)\<rparr>))"

definition get_upload :: "uuid \<Rightarrow> uuid \<Rightarrow> 's upl \<Rightarrow> err + (int \<times> string option)" where
  "get_upload upload_id developer_id u =
     bindE (owned_session developer_id upload_id (ul_db u)) (\<lambda>upload.
       Inr (staging_received (us_id upload) (ul_staging u), us_blob_ref upload))"

definition append_chunk :: "uuid \<Rightarrow> int \<Rightarrow> string \<Rightarrow> uuid \<Rightarrow> 's upl \<Rightarrow> (err + int) \<times> 's upl" where
  "append_chunk upload_id upload_offset chunk developer_id u =
     (case owned_session developer_id upload_id (ul_db u) of
        Inl e \<Rightarrow> (Inl e, u)
      | Inr upload \<Rightarrow>
          if us_blob_ref upload \<noteq> None then (Inl (conflict ''Upload already completed.''), u)
          else if int (length chunk) > MAX_CHUNK_BYTES
          then (Inl (HTTPException 413 (''Chunk exceeds '' @ int_str MAX_CHUNK_BYTES @ '' bytes.'')), u)
          else (case staging_append (us_id upload) upload_offset chunk (ul_staging u) of
                  Inl (OffsetMismatchError expected got) \<Rightarrow>
                    (Inl (conflict (''Offset mismatch: resume from '' @ int_str expected @ ''.'')), u)
                | Inl e \<Rightarrow> (Inl e, u)
                | Inr (received, st) \<Rightarrow> (Inr received, u\<lparr>ul_staging := st\<rparr>)))"

definition complete_upload ::
    "(string \<Rightarrow> string \<Rightarrow> 's \<Rightarrow> err + (string \<times> 's)) \<Rightarrow> (string \<Rightarrow> 's \<Rightarrow> err + string) \<Rightarrow> uuid \<Rightarrow> uuid \<Rightarrow> 's upl
     \<Rightarrow> (err + (string \<times> int)) \<times> 's upl" where
  "complete_upload put read upload_id developer_id u =
     (case owned_session developer_id upload_id (ul_db u) of
        Inl e \<Rightarrow> (Inl e, u)
      | Inr upload \<Rightarrow>
          (case us_blob_ref upload of
             Some ref \<Rightarrow>
               (case storage_get read ref (ul_store u) of
                  Inl e \<Rightarrow> (Inl e, u) | Inr data \<Rightarrow> (Inr (ref, int (length data)), u))
           | None \<Rightarrow>
               (case staging_assemble (us_id upload) (ul_staging u) of
                  Inl e \<Rightarrow> (Inl e, u)
                | Inr data \<Rightarrow>
                    (case put data [] (ul_store u) of
                       Inl e \<Rightarrow> (Inl e, u)
                     | Inr (ref, store) \<Rightarrow>
                         (let u = u\<lparr>ul_store := store\<rparr> in
                          case (case us_declared_digest upload of
                                  None \<Rightarrow> Inr () | Some digest \<Rightarrow> verify_integrity digest data) of
                            Inl _ \<Rightarrow> (Inl (HTTPException 400 ''Assembled bytes do not match digest.''), u)
                          | Inr _ \<Rightarrow>
                              (Inr (ref, int (length data)),
                               u\<lparr>ul_db := (ul_db u)\<lparr>upload_sessions :=
                                   tput us_id (upload\<lparr>us_blob_ref := Some ref\<rparr>) (upload_sessions (ul_db u))\<rparr>,
                                 ul_staging := staging_cleanup (us_id upload) (ul_staging u)\<rparr>))))))"

definition upload_blob ::
    "(string \<Rightarrow> string \<Rightarrow> 's \<Rightarrow> err + (string \<times> 's)) \<Rightarrow> string \<Rightarrow> 's \<Rightarrow> err + ((string \<times> int) \<times> 's)" where
  "upload_blob put data store =
     (if int (length data) > MAX_BLOB_BYTES
      then Inl (HTTPException 413 (''Blob exceeds '' @ int_str MAX_BLOB_BYTES @ '' bytes.''))
      else bindE (put data [] store) (\<lambda>(ref, store). Inr ((ref, int (length data)), store)))"

section \<open>A run of appends\<close>

text \<open>A client that sends its chunks in turn, each at the offset the previous answer gave.\<close>

fun send_chunks :: "uuid \<Rightarrow> uuid \<Rightarrow> int \<Rightarrow> string list \<Rightarrow> 's upl \<Rightarrow> (err + int) \<times> 's upl" where
  "send_chunks upload_id dev offset [] u = (Inr offset, u)"
| "send_chunks upload_id dev offset (c # cs) u =
     (case append_chunk upload_id offset c dev u of
        (Inl e, u) \<Rightarrow> (Inl e, u)
      | (Inr received, u) \<Rightarrow> send_chunks upload_id dev received cs u)"

text \<open>An upload of \<open>dev\<close> in progress, holding \<open>data\<close> so far.\<close>

definition uploading :: "uuid \<Rightarrow> uuid \<Rightarrow> string option \<Rightarrow> string \<Rightarrow> 's upl \<Rightarrow> bool" where
  "uploading k dev digest data u \<longleftrightarrow>
     get_upload_session k (ul_db u) = Some \<lparr> us_id = k, us_developer_id = dev, us_declared_digest = digest, us_blob_ref = None \<rparr>
     \<and> ul_staging u k = Some data"

lemma create_uploading:
  assumes "\<forall>x \<in> set (upload_sessions (ul_db u)). us_id x < next_id (ul_db u)" "create_upload dev digest u = (k, u')"
  shows "uploading k dev digest [] u'"
proof -
  have "tget us_id (next_id (ul_db u)) (upload_sessions (ul_db u)) = None"
    using assms(1) by (fastforce simp: tget_None_iff)
  then show ?thesis
    using assms(2) by (auto simp: create_upload_def Let_def uploading_def get_upload_session_def tget_append staging_create_def)
qed

lemma uploading_owned: "uploading k dev digest data u \<Longrightarrow>
    owned_session dev k (ul_db u) = Inr \<lparr> us_id = k, us_developer_id = dev, us_declared_digest = digest, us_blob_ref = None \<rparr>"
  by (simp add: owned_session_def uploading_def)

lemma append_uploading:
  assumes "uploading k dev digest data u" "int (length c) \<le> MAX_CHUNK_BYTES"
  shows "append_chunk k off c dev u =
     (if off = int (length data)
      then (Inr (int (length (data @ c))), u\<lparr>ul_staging := (ul_staging u)(k \<mapsto> data @ c)\<rparr>)
      else (Inl (conflict (''Offset mismatch: resume from '' @ int_str (int (length data)) @ ''.'')), u))"
  using assms uploading_owned [OF assms(1)]
  by (simp add: append_chunk_def staging_append_def staging_received_def uploading_def Let_def)

lemma send_chunks_uploading:
  assumes "uploading k dev digest data u" "\<forall>c \<in> set cs. int (length c) \<le> MAX_CHUNK_BYTES"
  shows "\<exists>u'. send_chunks k dev (int (length data)) cs u = (Inr (int (length (data @ concat cs))), u')
     \<and> uploading k dev digest (data @ concat cs) u' \<and> ul_store u' = ul_store u"
  using assms
proof (induction cs arbitrary: data u)
  case (Cons c cs)
  let ?u = "u\<lparr>ul_staging := (ul_staging u)(k \<mapsto> data @ c)\<rparr>"
  have "uploading k dev digest (data @ c) ?u" using Cons.prems(1) by (simp add: uploading_def)
  from Cons.IH [OF this] Cons.prems(2) show ?case
    using append_uploading [OF Cons.prems(1), of c "int (length data)"] Cons.prems(2) by simp
qed simp

text \<open>Completion of an upload whose declared digest, if any, is that of the staged bytes.\<close>

lemma complete_uploading:
  assumes u: "uploading k dev digest data u" and p: "put data [] (ul_store u) = Inr (ref, store)"
    and dig: "\<And>g. digest = Some g \<Longrightarrow> take 64 g = content_digest data"
  obtains u' where "complete_upload put read k dev u = (Inr (ref, int (length data)), u')" "ul_store u' = store"
    "ul_staging u' k = None"
    "get_upload_session k (ul_db u') = Some \<lparr> us_id = k, us_developer_id = dev, us_declared_digest = digest, us_blob_ref = Some ref \<rparr>"
proof -
  have asm: "staging_assemble k (ul_staging u) = Inr data" using u by (simp add: staging_assemble_def uploading_def)
  have "(case digest of None \<Rightarrow> Inr () | Some g \<Rightarrow> verify_integrity g data) = Inr ()"
    using dig by (auto simp: verify_integrity_def split: option.splits)
  then show ?thesis
    using u asm p uploading_owned [OF u]
    by (intro that) (auto simp: complete_upload_def uploading_def get_upload_session_def Let_def staging_cleanup_def tget_tput)
qed

text \<open>A declared digest the bytes do not have: nothing is recorded, the staged bytes stay, and the refused
  bytes are in the store.\<close>

lemma complete_mismatch:
  assumes u: "uploading k dev (Some g) data u" and p: "put data [] (ul_store u) = Inr (ref, store)"
    and bad: "take 64 g \<noteq> content_digest data"
  shows "complete_upload put read k dev u =
     (Inl (HTTPException 400 ''Assembled bytes do not match digest.''), u\<lparr>ul_store := store\<rparr>)"
  using u p bad uploading_owned [OF u]
  by (auto simp: complete_upload_def staging_assemble_def uploading_def verify_integrity_def Let_def)

end
