(* ===== verification/Systems.thy ===== *)
theory Systems
  imports Main
begin

text \<open>
  Transition systems and their invariants: the contract a step relation offers to the properties of its
  runs.  \<open>evolving\<close> adds a preorder that relates the states of a run.
\<close>

locale system =
  fixes init :: "'s \<Rightarrow> bool" and step :: "'s \<Rightarrow> 's \<Rightarrow> bool" and inv :: "'s \<Rightarrow> bool"
  assumes start: "init s \<Longrightarrow> inv s"
    and preserved: "inv s \<Longrightarrow> step s t \<Longrightarrow> inv t"
begin

lemma run_inv: "step\<^sup>*\<^sup>* s t \<Longrightarrow> inv s \<Longrightarrow> inv t"
  by (induction rule: rtranclp_induct) (auto intro: preserved)

lemma reachable_inv: "init s \<Longrightarrow> step\<^sup>*\<^sup>* s t \<Longrightarrow> inv t"
  by (rule run_inv) (auto intro: start)

end

locale evolving = system +
  fixes rel :: "'s \<Rightarrow> 's \<Rightarrow> bool"
  assumes rel_refl: "rel s s"
    and rel_trans: "rel s t \<Longrightarrow> rel t u \<Longrightarrow> rel s u"
    and rel_step: "inv s \<Longrightarrow> step s t \<Longrightarrow> rel s t"
begin

lemma run_rel:
  assumes "step\<^sup>*\<^sup>* s t" "inv s"
  shows "rel s t"
  using assms(1)
proof (induction rule: rtranclp_induct)
  case base
  show ?case by (rule rel_refl)
next
  case (step t u)
  then show ?case using run_inv [OF step.hyps(1) assms(2)] by (blast intro: rel_trans rel_step)
qed

lemma reachable_rel: "init r \<Longrightarrow> step\<^sup>*\<^sup>* r s \<Longrightarrow> step\<^sup>*\<^sup>* s t \<Longrightarrow> rel s t"
  by (rule run_rel) (auto intro: reachable_inv)

end

end
