(* ===== verification/Chain_Client.thy ===== *)
theory Chain_Client
  imports Models Stdlib Numerics
begin

text \<open>
  The chain seam: \<open>api/app/chain/units.py\<close>, the value objects and the client interface of
  \<open>chain/client.py\<close>, and the in-memory implementation \<open>chain/fake.py\<close>.  A client is a record of functions
  over its own state; a write answers a hash or an error and the new state, because what was broadcast stays
  broadcast when the caller's database session rolls back.  A queued transaction is the data its closure
  captures.  Two fields of \<open>FakeChain\<close> record history for the proofs and are read by no operation:
  \<open>fk_sent\<close>, every broadcast, and \<open>fk_executed\<close>, the coordinator's transactions in the order they were mined.
\<close>

section \<open>Units\<close>

definition units_of :: "money \<Rightarrow> nat \<Rightarrow> int" where
  "units_of amount decimals = round_down (ctx (amount * 10 ^ decimals))"

definition to_units :: "money \<Rightarrow> nat \<Rightarrow> err + int" where
  "to_units amount decimals =
     (if amount < 0 then Inl (ValueError ''amount must be non-negative'') else Inr (units_of amount decimals))"

definition from_units :: "int \<Rightarrow> nat \<Rightarrow> money" where
  "from_units units decimals = ctx (of_int units / 10 ^ decimals)"

section \<open>Value objects\<close>

record BlockRef =
  bk_number :: int
  bk_hash :: string
  bk_parent_hash :: string

record Receipt =
  rc_tx_hash :: string
  rc_status :: int
  rc_block_number :: int
  rc_block_hash :: string

record ChainLog =
  lg_event_name :: string
  lg_address :: string
  lg_tx_hash :: string
  lg_log_index :: int
  lg_block_number :: int
  lg_block_hash :: string
  lg_args :: jdict

text \<open>The calls a coordinator may broadcast.\<close>

datatype Call =
    SettleBatch "string list" "int list"
  | DepositSettlement int
  | Debit string int

record 'c client =
  cl_latest_block :: "'c \<Rightarrow> err + int"
  cl_get_block :: "int \<Rightarrow> 'c \<Rightarrow> err + BlockRef"
  cl_get_logs :: "int \<Rightarrow> int \<Rightarrow> 'c \<Rightarrow> err + ChainLog list"
  cl_get_receipt :: "string \<Rightarrow> 'c \<Rightarrow> err + Receipt option"
  cl_get_nonce :: "'c \<Rightarrow> err + int"
  cl_settlement_pool :: "'c \<Rightarrow> err + int"
  cl_escrow_balance_of :: "string \<Rightarrow> 'c \<Rightarrow> err + int"
  cl_staking_earnings_of :: "string \<Rightarrow> 'c \<Rightarrow> err + int"
  cl_send :: "Call \<Rightarrow> int \<Rightarrow> 'c \<Rightarrow> (err + string) \<times> 'c"

section \<open>Hexadecimal formats\<close>

text \<open>\<open>f"{n:x}"\<close> and \<open>f"{n:0wx}"\<close>\<close>

function hex_str :: "int \<Rightarrow> string" where
  "hex_str n = (if n < 16 then [hex_digit n] else hex_str (n div 16) @ [hex_digit (n mod 16)])"
  by pat_completeness auto
termination
  by (relation "measure nat") auto

declare hex_str.simps [simp del]

definition hex_pad :: "nat \<Rightarrow> int \<Rightarrow> string" where
  "hex_pad w n = replicate (w - length (hex_str n)) (CHR ''0'') @ hex_str n"

definition hex_val :: "char \<Rightarrow> int" where
  "hex_val c = (let n = of_char c in if n < 58 then n - 48 else n - 87)"

definition hex_dec :: "string \<Rightarrow> int" where
  "hex_dec s = foldl (\<lambda>a c. 16 * a + hex_val c) 0 s"

lemma hex_val_digit: "0 \<le> n \<Longrightarrow> n < 16 \<Longrightarrow> hex_val (hex_digit n) = n"
  by (auto simp: hex_val_def hex_digit_def Let_def)

lemma hex_dec_str: "0 \<le> n \<Longrightarrow> hex_dec (hex_str n) = n"
proof (induction n rule: hex_str.induct)
  case (1 n)
  show ?case
  proof (cases "n < 16")
    case True
    then show ?thesis using 1 by (simp add: hex_str.simps [of n] hex_dec_def hex_val_digit)
  next
    case False
    then have "hex_dec (hex_str (n div 16)) = n div 16" using 1 by simp
    then show ?thesis using False 1(2) by (simp add: hex_str.simps [of n] hex_dec_def hex_val_digit)
  qed
qed

lemma hex_dec_zeros: "hex_dec (replicate k (CHR ''0'') @ s) = hex_dec s"
proof -
  have "foldl (\<lambda>a c. 16 * a + hex_val c) 0 (replicate k (CHR ''0'')) = 0"
    by (induction k) (auto simp: hex_val_def Let_def)
  then show ?thesis by (simp add: hex_dec_def)
qed

lemma hex_pad_inj: "0 \<le> m \<Longrightarrow> 0 \<le> n \<Longrightarrow> hex_pad w m = hex_pad w n \<Longrightarrow> m = n"
  by (metis hex_pad_def hex_dec_zeros hex_dec_str)

section \<open>FakeChain\<close>

text \<open>What a queued item does when it is mined: a call of the coordinator, or an action of someone else.\<close>

datatype Action =
    Tx Call
  | ExtDeposit string int
  | ExtWithdraw string int
  | ExtSlash string int string

record QItem =
  qi_hash :: string
  qi_nonce :: "int option"
  qi_action :: Action

record FakeChain =
  fk_escrow_address :: string
  fk_staking_address :: string
  fk_logs :: "int \<Rightarrow> ChainLog list"
  fk_receipts :: "string \<Rightarrow> Receipt option"
  fk_queue :: "QItem list"
  fk_escrow_bal :: "string \<Rightarrow> int"
  fk_earnings :: "string \<Rightarrow> int"
  fk_pool :: int
  fk_mined_nonce :: int
  fk_seq :: int
  fk_salt :: int
  fk_fail_next_send :: bool
  fk_hold_pending :: bool
  fk_revert_kinds :: "string list"
  fk_blocks :: "BlockRef list"
  fk_sent :: "(string \<times> int \<times> Call) list"
  fk_executed :: "(string \<times> int \<times> Call \<times> int) list"

definition TREASURY :: string where
  "TREASURY = ''0x'' @ concat (replicate 20 ''77'')"

definition fk_bhash :: "int \<Rightarrow> int \<Rightarrow> string" where
  "fk_bhash salt number =
     (let s = ''b'' @ hex_pad 2 salt @ hex_pad 62 number in ''0x'' @ drop (length s - 64) s)"

definition fk_txhash :: "int \<Rightarrow> string" where
  "fk_txhash seq = ''0x'' @ hex_pad 64 seq"

definition fk_init :: "string \<Rightarrow> string \<Rightarrow> FakeChain" where
  "fk_init escrow_address staking_address =
     \<lparr> fk_escrow_address = to_lower escrow_address, fk_staking_address = to_lower staking_address,
       fk_logs = (\<lambda>_. []), fk_receipts = (\<lambda>_. None), fk_queue = [], fk_escrow_bal = (\<lambda>_. 0), fk_earnings = (\<lambda>_. 0),
       fk_pool = 0, fk_mined_nonce = 0, fk_seq = 0, fk_salt = 0, fk_fail_next_send = False, fk_hold_pending = False,
       fk_revert_kinds = [],
       fk_blocks = [\<lparr> bk_number = 0, bk_hash = fk_bhash 0 0, bk_parent_hash = ''0x'' @ replicate 64 (CHR ''0'') \<rparr>],
       fk_sent = [], fk_executed = [] \<rparr>"

subsection \<open>Controls and outside actions\<close>

definition fund_pool :: "int \<Rightarrow> FakeChain \<Rightarrow> FakeChain" where
  "fund_pool amount c = c\<lparr>fk_pool := fk_pool c + amount\<rparr>"

definition fail_next_send :: "bool \<Rightarrow> FakeChain \<Rightarrow> FakeChain" where
  "fail_next_send on c = c\<lparr>fk_fail_next_send := on\<rparr>"

definition hold_pending :: "bool \<Rightarrow> FakeChain \<Rightarrow> FakeChain" where
  "hold_pending on c = c\<lparr>fk_hold_pending := on\<rparr>"

definition force_revert :: "string \<Rightarrow> bool \<Rightarrow> FakeChain \<Rightarrow> FakeChain" where
  "force_revert kind on c =
     c\<lparr>fk_revert_kinds := (if on then List.insert kind (fk_revert_kinds c) else removeAll kind (fk_revert_kinds c))\<rparr>"

definition fk_enqueue :: "int option \<Rightarrow> Action \<Rightarrow> FakeChain \<Rightarrow> string \<times> FakeChain" where
  "fk_enqueue nonce action c =
     (let seq = fk_seq c + 1; tx_hash = fk_txhash seq
      in (tx_hash, c\<lparr>fk_seq := seq,
                     fk_queue := fk_queue c @ [\<lparr> qi_hash = tx_hash, qi_nonce = nonce, qi_action = action \<rparr>]\<rparr>))"

definition external_deposit :: "string \<Rightarrow> int \<Rightarrow> FakeChain \<Rightarrow> string \<times> FakeChain" where
  "external_deposit developer amount c = fk_enqueue None (ExtDeposit (to_lower developer) amount) c"

definition external_withdraw :: "string \<Rightarrow> int \<Rightarrow> FakeChain \<Rightarrow> string \<times> FakeChain" where
  "external_withdraw developer amount c = fk_enqueue None (ExtWithdraw (to_lower developer) amount) c"

definition external_slash :: "string \<Rightarrow> int \<Rightarrow> string \<Rightarrow> FakeChain \<Rightarrow> string \<times> FakeChain" where
  "external_slash provider amount evidence_hash c =
     fk_enqueue None (ExtSlash (to_lower provider) amount evidence_hash) c"

subsection \<open>The effects of a mined item\<close>

type_synonym logspec = "string \<times> string \<times> jdict"

fun credit_batch :: "(string \<times> int) list \<Rightarrow> (string \<Rightarrow> int) \<Rightarrow> (string \<Rightarrow> int)" where
  "credit_batch [] e = e"
| "credit_batch ((p, a) # ps) e = credit_batch ps (e(to_lower p := e (to_lower p) + a))"

fun call_kind :: "Call \<Rightarrow> string" where
  "call_kind (SettleBatch _ _) = ''settle_batch''"
| "call_kind (DepositSettlement _) = ''deposit_settlement''"
| "call_kind (Debit _ _) = ''debit''"

fun call_effect :: "Call \<Rightarrow> FakeChain \<Rightarrow> (int \<times> logspec list) \<times> FakeChain" where
  "call_effect (SettleBatch payees amounts) c =
     (if sum_list amounts > fk_pool c then ((0, []), c)
      else ((1, map (\<lambda>(p, a). (''Settled'', fk_staking_address c, [(''provider'', JStr (to_lower p)), (''amount'', JInt a)]))
                  (zip payees amounts)),
            c\<lparr>fk_pool := fk_pool c - sum_list amounts,
              fk_earnings := credit_batch (zip payees amounts) (fk_earnings c)\<rparr>))"
| "call_effect (DepositSettlement amount) c = ((1, []), c\<lparr>fk_pool := fk_pool c + amount\<rparr>)"
| "call_effect (Debit developer amount) c =
     (let dev = to_lower developer in
      if fk_escrow_bal c dev < amount then ((0, []), c)
      else ((1, [(''Debited'', fk_escrow_address c,
                  [(''developer'', JStr dev), (''amount'', JInt amount), (''to'', JStr TREASURY)])]),
            c\<lparr>fk_escrow_bal := (fk_escrow_bal c)(dev := fk_escrow_bal c dev - amount)\<rparr>))"

fun apply_action :: "Action \<Rightarrow> FakeChain \<Rightarrow> (int \<times> logspec list) \<times> FakeChain" where
  "apply_action (Tx call) c = (if call_kind call \<in> set (fk_revert_kinds c) then ((0, []), c) else call_effect call c)"
| "apply_action (ExtDeposit dev amount) c =
     ((1, [(''Deposited'', fk_escrow_address c, [(''developer'', JStr dev), (''amount'', JInt amount)])]),
      c\<lparr>fk_escrow_bal := (fk_escrow_bal c)(dev := fk_escrow_bal c dev + amount)\<rparr>)"
| "apply_action (ExtWithdraw dev amount) c =
     (if fk_escrow_bal c dev < amount then ((0, []), c)
      else ((1, [(''Withdrawn'', fk_escrow_address c, [(''developer'', JStr dev), (''amount'', JInt amount)])]),
            c\<lparr>fk_escrow_bal := (fk_escrow_bal c)(dev := fk_escrow_bal c dev - amount)\<rparr>))"
| "apply_action (ExtSlash prov amount evidence) c =
     ((1, [(''Slashed'', fk_staking_address c,
            [(''provider'', JStr prov), (''amount'', JInt amount), (''evidenceHash'', JStr evidence)])]), c)"

subsection \<open>Mining\<close>

text \<open>The dictionary of pending transactions by nonce: a later item replaces an earlier one in its place.\<close>

fun dict_put :: "'k \<Rightarrow> 'v \<Rightarrow> ('k \<times> 'v) list \<Rightarrow> ('k \<times> 'v) list" where
  "dict_put k v [] = [(k, v)]"
| "dict_put k v ((k', v') # xs) = (if k' = k then (k, v) # xs else (k', v') # dict_put k v xs)"

definition by_nonce :: "QItem list \<Rightarrow> (int \<times> QItem) list" where
  "by_nonce items = foldl (\<lambda>d it. case qi_nonce it of None \<Rightarrow> d | Some n \<Rightarrow> dict_put n it d) [] items"

text \<open>The run of consecutive nonces that are ready, starting at the next one to mine.\<close>

function ready :: "int \<Rightarrow> (int \<times> QItem) list \<Rightarrow> QItem list \<times> int \<times> (int \<times> QItem) list" where
  "ready n txs =
     (case map_of txs n of
        None \<Rightarrow> ([], n, txs)
      | Some it \<Rightarrow> (let (its, m, rest) = ready (n + 1) (filter (\<lambda>x. fst x \<noteq> n) txs) in (it # its, m, rest)))"
  by pat_completeness auto
termination
proof (relation "measure (\<lambda>(_, txs). length txs)")
  fix n :: int and txs :: "(int \<times> QItem) list" and it
  assume "map_of txs n = Some it"
  then have "(n, it) \<in> set txs" by (rule map_of_SomeD)
  then have "length (filter (\<lambda>x. fst x \<noteq> n) txs) < length txs" by (rule length_filter_less) simp
  then show "((n + 1, filter (\<lambda>x. fst x \<noteq> n) txs), (n, txs)) \<in> measure (\<lambda>(_, txs). length txs)" by simp
qed simp

declare ready.simps [simp del]

definition mine_item :: "int \<Rightarrow> string \<Rightarrow> QItem \<Rightarrow> ChainLog list \<times> FakeChain \<Rightarrow> ChainLog list \<times> FakeChain" where
  "mine_item number bh it = (\<lambda>(block_logs, c).
     (let ((status, specs), c) = apply_action (qi_action it) c;
          c = (case (qi_nonce it, qi_action it) of
                 (Some n, Tx call) \<Rightarrow> c\<lparr>fk_receipts := (fk_receipts c)(qi_hash it \<mapsto>
                     \<lparr> rc_tx_hash = qi_hash it, rc_status = status, rc_block_number = number, rc_block_hash = bh \<rparr>),
                   fk_executed := fk_executed c @ [(qi_hash it, n, call, status)]\<rparr>
               | _ \<Rightarrow> c);
          block_logs = foldl (\<lambda>ls (name, address, args).
              ls @ [\<lparr> lg_event_name = name, lg_address = address, lg_tx_hash = qi_hash it, lg_log_index = int (length ls),
                     lg_block_number = number, lg_block_hash = bh, lg_args = args \<rparr>]) block_logs specs
      in (block_logs, c)))"

definition mine_one :: "FakeChain \<Rightarrow> FakeChain" where
  "mine_one c =
     (let number = int (length (fk_blocks c)); parent = last (fk_blocks c); bh = fk_bhash (fk_salt c) number;
          externals = filter (\<lambda>it. qi_nonce it = None) (fk_queue c);
          pending = filter (\<lambda>it. qi_nonce it \<noteq> None) (fk_queue c);
          txs = (if fk_hold_pending c then [] else by_nonce pending);
          held = (if fk_hold_pending c then pending else []);
          (included, mined_nonce, rest) = ready (fk_mined_nonce c) txs;
          c = c\<lparr>fk_mined_nonce := mined_nonce, fk_queue := held @ map snd rest\<rparr>;
          (block_logs, c) = fold (mine_item number bh) (externals @ included) ([], c)
      in c\<lparr>fk_logs := (fk_logs c)(number := block_logs),
           fk_blocks := fk_blocks c @ [\<lparr> bk_number = number, bk_hash = bh, bk_parent_hash = bk_hash parent \<rparr>]\<rparr>)"

definition mine :: "nat \<Rightarrow> FakeChain \<Rightarrow> FakeChain" where
  "mine n c = (mine_one ^^ n) c"

definition orphan_one :: "FakeChain \<Rightarrow> FakeChain" where
  "orphan_one c =
     (if length (fk_blocks c) \<le> 1 then c
      else
        (let gone = bk_number (last (fk_blocks c));
             orphaned = map lg_tx_hash (fk_logs c gone)
         in c\<lparr>fk_blocks := butlast (fk_blocks c), fk_logs := (fk_logs c)(gone := []),
              fk_receipts := (\<lambda>h. if h \<in> set orphaned then None else fk_receipts c h)\<rparr>))"

definition reorg :: "nat \<Rightarrow> nat \<Rightarrow> FakeChain \<Rightarrow> FakeChain" where
  "reorg depth remine c = (let c = (orphan_one ^^ depth) c in mine remine (c\<lparr>fk_salt := fk_salt c + 1\<rparr>))"

subsection \<open>Reads and writes\<close>

definition fk_latest_block :: "FakeChain \<Rightarrow> err + int" where
  "fk_latest_block c = Inr (int (length (fk_blocks c)) - 1)"

definition fk_get_block :: "int \<Rightarrow> FakeChain \<Rightarrow> err + BlockRef" where
  "fk_get_block number c =
     (if number \<ge> int (length (fk_blocks c)) then Inl (ChainError (''block '' @ int_str number @ '' not found''))
      else Inr (fk_blocks c ! nat (if number < 0 then number + int (length (fk_blocks c)) else number)))"

definition fk_get_logs :: "int \<Rightarrow> int \<Rightarrow> FakeChain \<Rightarrow> err + ChainLog list" where
  "fk_get_logs from_block to_block c =
     Inr (sort_key (\<lambda>l. lg_block_number l) (sort_key (\<lambda>l. lg_log_index l)
       (concat (map (fk_logs c) [max 0 from_block .. min to_block (int (length (fk_blocks c)) - 1)]))))"

definition fk_send :: "Call \<Rightarrow> int \<Rightarrow> FakeChain \<Rightarrow> (err + string) \<times> FakeChain" where
  "fk_send call nonce c =
     (if fk_fail_next_send c then (Inl (ChainError ''simulated broadcast failure''), c\<lparr>fk_fail_next_send := False\<rparr>)
      else
        (let (tx_hash, c) = fk_enqueue (Some nonce) (Tx call) c
         in (Inr tx_hash, c\<lparr>fk_sent := fk_sent c @ [(tx_hash, nonce, call)]\<rparr>)))"

definition fake_client :: "FakeChain client" where
  "fake_client =
     \<lparr> cl_latest_block = fk_latest_block, cl_get_block = fk_get_block, cl_get_logs = fk_get_logs,
       cl_get_receipt = (\<lambda>h c. Inr (fk_receipts c h)), cl_get_nonce = (\<lambda>c. Inr (fk_mined_nonce c)),
       cl_settlement_pool = (\<lambda>c. Inr (fk_pool c)), cl_escrow_balance_of = (\<lambda>a c. Inr (fk_escrow_bal c (to_lower a))),
       cl_staking_earnings_of = (\<lambda>a c. Inr (fk_earnings c (to_lower a))), cl_send = fk_send \<rparr>"

section \<open>What a settlement engine relies on\<close>

text \<open>The amount a call pays to a wallet.\<close>

fun paid_in :: "string \<Rightarrow> Call \<Rightarrow> int" where
  "paid_in a (SettleBatch payees amounts) = sum_list (map snd (filter (\<lambda>(p, _). to_lower p = a) (zip payees amounts)))"
| "paid_in a (DepositSettlement _) = 0"
| "paid_in a (Debit _ _) = 0"

definition paid_total :: "string \<Rightarrow> (string \<times> int \<times> Call \<times> int) list \<Rightarrow> int" where
  "paid_total a es = sum_list (map (\<lambda>(h, n, call, st). if st = 1 then paid_in a call else 0) es)"

text \<open>The contract of a chain: everything ever broadcast is known by its hash, a transaction is executed at most
  once and at most one per nonce, an executed transaction stays executed, a receipt tells how it went, and the
  earnings are what was paid.\<close>

locale payout_chain =
  fixes C :: "'c client" and net :: "'c \<Rightarrow> 'c \<Rightarrow> bool" and ok :: "'c \<Rightarrow> bool"
    and sent :: "'c \<Rightarrow> (string \<times> int \<times> Call) set" and executed :: "'c \<Rightarrow> (string \<times> int \<times> Call \<times> int) list"
  assumes send_ok: "ok c \<Longrightarrow> cl_send C call n c = (r, c') \<Longrightarrow> ok c'"
    and net_ok: "ok c \<Longrightarrow> net c c' \<Longrightarrow> ok c'"
    and send_sent: "ok c \<Longrightarrow> cl_send C call n c = (Inr h, c') \<Longrightarrow> sent c' = insert (h, n, call) (sent c)"
    and send_fail: "cl_send C call n c = (Inl e, c') \<Longrightarrow> sent c' = sent c"
    and send_executed: "cl_send C call n c = (r, c') \<Longrightarrow> executed c' = executed c"
    and net_sent: "ok c \<Longrightarrow> net c c' \<Longrightarrow> sent c' = sent c"
    and finality: "ok c \<Longrightarrow> net c c' \<Longrightarrow> set (executed c) \<subseteq> set (executed c')"
    and executed_sent: "ok c \<Longrightarrow> (h, n, call, st) \<in> set (executed c) \<Longrightarrow> (h, n, call) \<in> sent c"
    and sent_unique: "ok c \<Longrightarrow> (h, p) \<in> sent c \<Longrightarrow> (h, q) \<in> sent c \<Longrightarrow> p = q"
    and one_per_nonce: "ok c \<Longrightarrow> distinct (map (fst \<circ> snd) (executed c))"
    and receipt_executed: "ok c \<Longrightarrow> cl_get_receipt C h c = Inr (Some rc)
          \<Longrightarrow> \<exists>n call. (h, n, call, rc_status rc) \<in> set (executed c)"
    and earnings_paid: "ok c \<Longrightarrow> cl_staking_earnings_of C a c = Inr x \<Longrightarrow> x = paid_total (to_lower a) (executed c)"

section \<open>FakeChain keeps the contract\<close>

text \<open>Everything the network and the people on it may do between two calls of the coordinator.\<close>

inductive fk_net :: "FakeChain \<Rightarrow> FakeChain \<Rightarrow> bool" where
  "fk_net c (mine n c)"
| "fk_net c (reorg depth remine c)"
| "fk_net c (fund_pool x c)"
| "fk_net c (fail_next_send on c)"
| "fk_net c (hold_pending on c)"
| "fk_net c (force_revert kind on c)"
| "fk_net c (snd (external_deposit dev x c))"
| "fk_net c (snd (external_withdraw dev x c))"
| "fk_net c (snd (external_slash prov x ev c))"

definition queued_ok :: "FakeChain \<Rightarrow> QItem \<Rightarrow> bool" where
  "queued_ok c it \<longleftrightarrow> (case qi_nonce it of
       None \<Rightarrow> (\<forall>call. qi_action it \<noteq> Tx call)
     | Some n \<Rightarrow> (\<exists>call. qi_action it = Tx call \<and> (qi_hash it, n, call) \<in> set (fk_sent c)))"

definition fk_ok :: "FakeChain \<Rightarrow> bool" where
  "fk_ok c \<longleftrightarrow> 0 \<le> fk_seq c
     \<and> (\<forall>x \<in> set (fk_sent c). \<exists>i. 0 \<le> i \<and> i \<le> fk_seq c \<and> fst x = fk_txhash i) \<and> distinct (map fst (fk_sent c))
     \<and> (\<forall>it \<in> set (fk_queue c). queued_ok c it)
     \<and> (\<forall>(h, n, call, st) \<in> set (fk_executed c). (h, n, call) \<in> set (fk_sent c) \<and> n < fk_mined_nonce c)
     \<and> distinct (map (fst \<circ> snd) (fk_executed c))
     \<and> (\<forall>h rc. fk_receipts c h = Some rc \<longrightarrow> (\<exists>n call. (h, n, call, rc_status rc) \<in> set (fk_executed c)))
     \<and> (\<forall>a. fk_earnings c a = paid_total a (fk_executed c))"

lemma fk_txhash_inj: "0 \<le> i \<Longrightarrow> 0 \<le> j \<Longrightarrow> fk_txhash i = fk_txhash j \<Longrightarrow> i = j"
  by (auto simp: fk_txhash_def intro: hex_pad_inj)

lemma credit_batch: "credit_batch xs e a = e a + sum_list (map snd (filter (\<lambda>(p, _). to_lower p = a) xs))"
  by (induction xs arbitrary: e) auto

lemma call_effect_sel:
  assumes "call_effect call c = ((st, specs), c')"
  shows "fk_earnings c' a = fk_earnings c a + (if st = 1 then paid_in a call else 0)"
    "fk_sent c' = fk_sent c" "fk_executed c' = fk_executed c" "fk_receipts c' = fk_receipts c" "fk_queue c' = fk_queue c"
    "fk_seq c' = fk_seq c" "fk_mined_nonce c' = fk_mined_nonce c"
  using assms by (cases call; auto simp: credit_batch Let_def split: if_splits)+

lemma apply_action_sel:
  assumes "apply_action act c = ((st, specs), c')"
  shows "fk_earnings c' a = fk_earnings c a + (case act of Tx call \<Rightarrow> if st = 1 then paid_in a call else 0 | _ \<Rightarrow> 0)"
    "fk_sent c' = fk_sent c" "fk_executed c' = fk_executed c" "fk_receipts c' = fk_receipts c" "fk_queue c' = fk_queue c"
    "fk_seq c' = fk_seq c" "fk_mined_nonce c' = fk_mined_nonce c"
  using assms by (cases act; auto simp: call_effect_sel split: if_splits)+

text \<open>Mining an item: an outside action leaves the coordinator's history alone, a transaction is appended to it.\<close>

definition history :: "QItem \<Rightarrow> int \<Rightarrow> (string \<times> int \<times> Call \<times> int) list" where
  "history it st = (case (qi_nonce it, qi_action it) of (Some n, Tx call) \<Rightarrow> [(qi_hash it, n, call, st)] | _ \<Rightarrow> [])"

definition hist_ok :: "FakeChain \<Rightarrow> bool" where
  "hist_ok c \<longleftrightarrow> (\<forall>h rc. fk_receipts c h = Some rc \<longrightarrow> (\<exists>n call. (h, n, call, rc_status rc) \<in> set (fk_executed c)))
     \<and> (\<forall>a. fk_earnings c a = paid_total a (fk_executed c))"

lemma mine_item_sel:
  assumes "mine_item number bh it (ls, c) = (ls', c')" "queued_ok c it"
  obtains st where "fk_executed c' = fk_executed c @ history it st"
    "fk_sent c' = fk_sent c" "fk_queue c' = fk_queue c" "fk_seq c' = fk_seq c" "fk_mined_nonce c' = fk_mined_nonce c"
    "hist_ok c \<Longrightarrow> hist_ok c'"
proof -
  obtain st specs e where a: "apply_action (qi_action it) c = ((st, specs), e)" by (metis surj_pair)
  note s = apply_action_sel [OF a]
  show ?thesis
  proof (cases "qi_nonce it")
    case None
    then have c': "c' = e" and tx: "\<And>call. qi_action it \<noteq> Tx call"
      using assms a by (auto simp: mine_item_def queued_ok_def Let_def split: prod.splits)
    have "fk_earnings c' = fk_earnings c" using s(1) tx by (auto simp: c' fun_eq_iff split: Action.splits)
    then show ?thesis using None s by (intro that [of st]) (auto simp: c' history_def hist_ok_def)
  next
    case (Some n)
    then obtain call where call: "qi_action it = Tx call" using assms(2) by (auto simp: queued_ok_def)
    have c': "c' = e\<lparr>fk_receipts := (fk_receipts e)(qi_hash it \<mapsto>
           \<lparr> rc_tx_hash = qi_hash it, rc_status = st, rc_block_number = number, rc_block_hash = bh \<rparr>),
         fk_executed := fk_executed e @ [(qi_hash it, n, call, st)]\<rparr>"
      using assms(1) a Some call by (auto simp: mine_item_def Let_def)
    show ?thesis
      using Some call s
      by (intro that [of st]) (auto simp: c' history_def hist_ok_def paid_total_def)
  qed
qed

lemma mine_items_sel:
  assumes "fold (mine_item number bh) its (ls, c) = (ls', c')" "\<forall>it \<in> set its. queued_ok c it"
  shows "(\<exists>sts. length sts = length its \<and> fk_executed c' = fk_executed c @ concat (map2 history its sts))
     \<and> fk_sent c' = fk_sent c \<and> fk_queue c' = fk_queue c \<and> fk_seq c' = fk_seq c \<and> fk_mined_nonce c' = fk_mined_nonce c
     \<and> (hist_ok c \<longrightarrow> hist_ok c')"
  using assms
proof (induction its arbitrary: ls c)
  case (Cons it its)
  obtain ls1 c1 where m: "mine_item number bh it (ls, c) = (ls1, c1)" by force
  obtain st where st: "fk_executed c1 = fk_executed c @ history it st" "fk_sent c1 = fk_sent c" "fk_queue c1 = fk_queue c"
    "fk_seq c1 = fk_seq c" "fk_mined_nonce c1 = fk_mined_nonce c" "hist_ok c \<Longrightarrow> hist_ok c1"
    using Cons.prems(2) by (rule_tac mine_item_sel [OF m]) auto
  have "\<forall>it \<in> set its. queued_ok c1 it" using Cons.prems(2) st(2) by (auto simp: queued_ok_def split: option.splits)
  from Cons.IH [OF _ this, of ls1] Cons.prems(1) m obtain sts where
    "length sts = length its" "fk_executed c' = fk_executed c1 @ concat (map2 history its sts)"
    and r: "fk_sent c' = fk_sent c1" "fk_queue c' = fk_queue c1" "fk_seq c' = fk_seq c1" "fk_mined_nonce c' = fk_mined_nonce c1"
      "hist_ok c1 \<longrightarrow> hist_ok c'" by auto
  then show ?case using st by (intro conjI exI [of _ "st # sts"]) auto
qed simp

lemma dict_put_set: "set (dict_put k v xs) \<subseteq> insert (k, v) (set xs)"
  by (induction k v xs rule: dict_put.induct) auto

lemma by_nonce_set: "(n, it) \<in> set (by_nonce items) \<Longrightarrow> it \<in> set items \<and> qi_nonce it = Some n"
proof (induction items rule: rev_induct)
  case (snoc x xs)
  then show ?case using dict_put_set by (fastforce simp: by_nonce_def split: option.splits)
qed (simp add: by_nonce_def)

lemma ready_sel:
  assumes "ready n txs = (its, m, rest)" "\<forall>(k, it) \<in> set txs. qi_nonce it = Some k"
  shows "map qi_nonce its = map Some [n..m - 1] \<and> n \<le> m \<and> set its \<subseteq> snd ` set txs \<and> set rest \<subseteq> set txs"
  using assms
proof (induction n txs arbitrary: its rule: ready.induct)
  case (1 n txs)
  show ?case
  proof (cases "map_of txs n")
    case None
    then show ?thesis using "1.prems"(1) by (simp add: ready.simps [of n txs])
  next
    case (Some it)
    obtain its' where r: "ready (n + 1) (filter (\<lambda>x. fst x \<noteq> n) txs) = (its', m, rest)" "its = it # its'"
      using "1.prems"(1) Some by (auto simp: ready.simps [of n txs] split: prod.splits)
    have it: "(n, it) \<in> set txs" "qi_nonce it = Some n" using map_of_SomeD [OF Some] "1.prems"(2) by auto
    have "map qi_nonce its' = map Some [n + 1..m - 1] \<and> n + 1 \<le> m \<and> set its' \<subseteq> snd ` set (filter (\<lambda>x. fst x \<noteq> n) txs)
        \<and> set rest \<subseteq> set (filter (\<lambda>x. fst x \<noteq> n) txs)"
      using "1.IH" [OF Some r(1)] "1.prems"(2) by auto
    then show ?thesis using it r(2) by (force simp: upto_rec1 [of n "m - 1"])
  qed
qed

lemma fk_ok_hist: "fk_ok c \<Longrightarrow> hist_ok c"
  by (simp add: fk_ok_def hist_ok_def)

lemma queued_ok_cong: "fk_sent c' = fk_sent c \<Longrightarrow> queued_ok c' it = queued_ok c it"
  by (simp add: queued_ok_def split: option.split)

lemma fk_ok_cong:
  assumes "fk_ok c" "fk_seq c' = fk_seq c" "fk_sent c' = fk_sent c" "fk_queue c' = fk_queue c" "fk_executed c' = fk_executed c"
    "fk_mined_nonce c' = fk_mined_nonce c" "\<forall>h rc. fk_receipts c' h = Some rc \<longrightarrow> fk_receipts c h = Some rc"
    "fk_earnings c' = fk_earnings c"
  shows "fk_ok c'"
  using assms queued_ok_cong [OF assms(3)] unfolding fk_ok_def by simp

text \<open>The nonces of what a block executes.\<close>

lemma history_nonces:
  assumes "length sts = length its" "\<forall>it \<in> set its. queued_ok c it"
  shows "map (fst \<circ> snd) (concat (map2 history its sts)) = map the (filter (\<lambda>n. n \<noteq> None) (map qi_nonce its))
     \<and> (\<forall>(h, n, call, st) \<in> set (concat (map2 history its sts)). (h, n, call) \<in> set (fk_sent c))"
  using assms
proof (induction its sts rule: list_induct2')
  case (4 it its st sts)
  then show ?case by (auto simp: history_def queued_ok_def split: option.splits)
qed auto

lemma mine_one_ok:
  assumes ok: "fk_ok c"
  shows "fk_ok (mine_one c)" "fk_sent (mine_one c) = fk_sent c" "set (fk_executed c) \<subseteq> set (fk_executed (mine_one c))"
proof -
  define number where "number = int (length (fk_blocks c))"
  define bh where "bh = fk_bhash (fk_salt c) number"
  define externals where "externals = filter (\<lambda>it. qi_nonce it = None) (fk_queue c)"
  define pending where "pending = filter (\<lambda>it. qi_nonce it \<noteq> None) (fk_queue c)"
  define txs where "txs = (if fk_hold_pending c then [] else by_nonce pending)"
  define held where "held = (if fk_hold_pending c then pending else [])"
  obtain included m rest where r: "ready (fk_mined_nonce c) txs = (included, m, rest)" by (metis prod_cases3)
  define c1 where "c1 = c\<lparr>fk_mined_nonce := m, fk_queue := held @ map snd rest\<rparr>"
  obtain ls c2 where f: "fold (mine_item number bh) (externals @ included) ([], c1) = (ls, c2)" by force
  have res: "mine_one c = c2\<lparr>fk_logs := (fk_logs c2)(number := ls),
       fk_blocks := fk_blocks c2 @ [\<lparr> bk_number = number, bk_hash = bh, bk_parent_hash = bk_hash (last (fk_blocks c)) \<rparr>]\<rparr>"
    unfolding mine_one_def Let_def number_def [symmetric] bh_def [symmetric] externals_def [symmetric] pending_def [symmetric]
      txs_def [symmetric] held_def [symmetric] r prod.case c1_def [symmetric] f ..
  have txs: "\<forall>(k, it) \<in> set txs. qi_nonce it = Some k" "snd ` set txs \<subseteq> set (fk_queue c)"
    by (auto simp: txs_def pending_def dest: by_nonce_set)
  have inc: "map qi_nonce included = map Some [fk_mined_nonce c..m - 1]" "fk_mined_nonce c \<le> m"
    "set included \<subseteq> set (fk_queue c)" "set rest \<subseteq> set txs"
    using ready_sel [OF r txs(1)] txs(2) by auto
  have q: "\<forall>it \<in> set (fk_queue c). queued_ok c it" using ok by (simp add: fk_ok_def)
  then have qs: "\<forall>it \<in> set (externals @ included). queued_ok c it" using inc(3) by (auto simp: externals_def)
  then have qs1: "\<forall>it \<in> set (externals @ included). queued_ok c1 it" using queued_ok_cong [of c1 c] by (simp add: c1_def)
  obtain sts where sts: "length sts = length (externals @ included)"
    "fk_executed c2 = fk_executed c @ concat (map2 history (externals @ included) sts)"
    and c2: "fk_sent c2 = fk_sent c" "fk_queue c2 = held @ map snd rest" "fk_seq c2 = fk_seq c" "fk_mined_nonce c2 = m"
    and h: "hist_ok c2"
    using mine_items_sel [OF f qs1] fk_ok_hist [OF ok] by (auto simp: c1_def hist_ok_def)
  define E where "E = concat (map2 history (externals @ included) sts)"
  have none: "filter (\<lambda>n. n \<noteq> None) (map qi_nonce externals) = []" by (auto simp: externals_def filter_empty_conv)
  have "filter (\<lambda>n. n \<noteq> None) (map qi_nonce included) = map Some [fk_mined_nonce c..m - 1]" by (simp add: inc(1))
  then have new: "map (fst \<circ> snd) E = [fk_mined_nonce c..m - 1]" and new_sent: "\<forall>(h, n, call, st) \<in> set E. (h, n, call) \<in> set (fk_sent c)"
    using history_nonces [OF sts(1) qs] none unfolding E_def by (simp_all del: map2_map_map)
  have bound: "fk_mined_nonce c \<le> n \<and> n < m" if "(h, n, call, st) \<in> set E" for h n call st
  proof -
    have "n \<in> set (map (fst \<circ> snd) E)" using that by force
    then show ?thesis unfolding new by simp
  qed
  have old: "(h, n, call) \<in> set (fk_sent c) \<and> n < fk_mined_nonce c" if "(h, n, call, st) \<in> set (fk_executed c)" for h n call st
    using ok that by (auto simp: fk_ok_def)
  have old_distinct: "distinct (map (fst \<circ> snd) (fk_executed c))" using ok by (simp add: fk_ok_def)
  have "set (map (fst \<circ> snd) (fk_executed c)) \<inter> set [fk_mined_nonce c..m - 1] = {}"
    using old by fastforce
  then have "distinct (map (fst \<circ> snd) (fk_executed c2))"
    unfolding sts(2) E_def [symmetric] map_append new distinct_append using old_distinct by simp
  moreover have "\<forall>(h, n, call, st) \<in> set (fk_executed c2). (h, n, call) \<in> set (fk_sent c2) \<and> n < m"
    unfolding sts(2) E_def [symmetric] set_append c2(1) using old new_sent bound inc(2) by fastforce
  moreover have "\<forall>it \<in> set (held @ map snd rest). queued_ok c it"
    using q inc(4) txs(2) by (force simp: held_def pending_def)
  ultimately have "fk_ok c2"
    using ok h c2 by (auto simp: fk_ok_def hist_ok_def queued_ok_cong [of c2 c])
  then show "fk_ok (mine_one c)" by (rule fk_ok_cong) (simp_all add: res)
  show "fk_sent (mine_one c) = fk_sent c" by (simp add: res c2(1))
  show "set (fk_executed c) \<subseteq> set (fk_executed (mine_one c))" by (simp add: res sts(2))
qed

definition fk_after :: "FakeChain \<Rightarrow> FakeChain \<Rightarrow> bool" where
  "fk_after c c' \<longleftrightarrow> fk_ok c' \<and> fk_sent c' = fk_sent c \<and> set (fk_executed c) \<subseteq> set (fk_executed c')"

lemma mine_ok: "fk_ok c \<Longrightarrow> fk_after c (mine n c)"
proof (induction n)
  case (Suc n)
  then have "fk_ok (mine n c)" "fk_after c (mine n c)" by (auto simp: fk_after_def)
  then show ?case using mine_one_ok [of "mine n c"] by (auto simp: mine_def fk_after_def)
qed (simp add: mine_def fk_after_def)

lemma orphan_one_ok: "fk_ok c \<Longrightarrow> fk_after c (orphan_one c)"
  by (auto simp: fk_after_def orphan_one_def Let_def elim!: fk_ok_cong split: if_splits)

lemma orphan_ok: "fk_ok c \<Longrightarrow> fk_after c ((orphan_one ^^ n) c)"
proof (induction n)
  case (Suc n)
  then have "fk_ok ((orphan_one ^^ n) c)" "fk_after c ((orphan_one ^^ n) c)" by (auto simp: fk_after_def)
  then show ?case using orphan_one_ok [of "(orphan_one ^^ n) c"] by (auto simp: fk_after_def)
qed (simp add: fk_after_def)

lemma queue_one_ok:
  assumes "fk_ok c" "queued_ok c' it" "set xs \<subseteq> {(fk_txhash (fk_seq c + 1), n, call)}" "distinct (map fst (fk_sent c @ xs))"
    and c': "c' = c\<lparr>fk_seq := fk_seq c + 1, fk_queue := fk_queue c @ [it], fk_sent := fk_sent c @ xs\<rparr>"
  shows "fk_ok c'"
proof -
  have "queued_ok c' q" if "queued_ok c q" for q
    using that by (auto simp: queued_ok_def c' split: option.splits)
  then have "\<forall>q \<in> set (fk_queue c'). queued_ok c' q"
    using assms(1,2) by (auto simp: c' fk_ok_def)
  moreover have "\<exists>i. 0 \<le> i \<and> i \<le> fk_seq c' \<and> fst x = fk_txhash i" if "x \<in> set (fk_sent c')" for x
  proof (cases "x \<in> set (fk_sent c)")
    case True
    then obtain i where "0 \<le> i" "i \<le> fk_seq c" "fst x = fk_txhash i" using assms(1) by (auto simp: fk_ok_def)
    then show ?thesis by (intro exI [of _ i]) (simp add: c')
  next
    case False
    moreover have "0 \<le> fk_seq c" using assms(1) by (simp add: fk_ok_def)
    ultimately show ?thesis using that assms(3) by (intro exI [of _ "fk_seq c + 1"]) (auto simp: c')
  qed
  moreover have "\<forall>(h, n, call, st) \<in> set (fk_executed c'). (h, n, call) \<in> set (fk_sent c') \<and> n < fk_mined_nonce c'"
    using assms(1) by (auto simp: fk_ok_def c')
  moreover have "0 \<le> fk_seq c'" using assms(1) by (simp add: fk_ok_def c')
  ultimately show ?thesis using assms(1,4) unfolding fk_ok_def by (simp add: c')
qed

lemma enqueue_ok:
  assumes "fk_ok c" "\<forall>call. act \<noteq> Tx call"
  shows "fk_after c (snd (fk_enqueue None act c))"
proof -
  have "fk_ok (snd (fk_enqueue None act c))"
    using assms(2) assms(1) [unfolded fk_ok_def]
    by (intro queue_one_ok [OF assms(1), where xs = "[]"]) (auto simp: fk_enqueue_def Let_def queued_ok_def)
  then show ?thesis by (simp add: fk_after_def fk_enqueue_def Let_def)
qed

lemma fk_after_cong:
  "fk_ok c \<Longrightarrow> fk_seq c' = fk_seq c \<Longrightarrow> fk_sent c' = fk_sent c \<Longrightarrow> fk_queue c' = fk_queue c \<Longrightarrow> fk_executed c' = fk_executed c
   \<Longrightarrow> fk_mined_nonce c' = fk_mined_nonce c \<Longrightarrow> fk_receipts c' = fk_receipts c \<Longrightarrow> fk_earnings c' = fk_earnings c \<Longrightarrow> fk_after c c'"
  by (auto simp: fk_after_def intro: fk_ok_cong)

lemma fk_net_ok: "fk_net c c' \<Longrightarrow> fk_ok c \<Longrightarrow> fk_after c c'"
proof (induction rule: fk_net.induct)
  case (2 c depth remine)
  let ?c = "(orphan_one ^^ depth) c" and ?d = "((orphan_one ^^ depth) c)\<lparr>fk_salt := fk_salt ((orphan_one ^^ depth) c) + 1\<rparr>"
  have o: "fk_after c ?c" by (rule orphan_ok [OF 2])
  then have d: "fk_after ?c ?d" by (intro fk_after_cong) (simp_all add: fk_after_def)
  then have "fk_after ?d (mine remine ?d)" by (intro mine_ok) (simp add: fk_after_def)
  then show ?case using o d by (auto simp: reorg_def Let_def fk_after_def)
qed (auto simp: mine_ok fund_pool_def fail_next_send_def hold_pending_def force_revert_def external_deposit_def
      external_withdraw_def external_slash_def enqueue_ok intro: fk_after_cong)

lemma fk_okD:
  assumes "fk_ok c"
  shows "(h, n, call, st) \<in> set (fk_executed c) \<Longrightarrow> (h, n, call) \<in> set (fk_sent c)" "distinct (map (fst \<circ> snd) (fk_executed c))"
    "fk_receipts c h = Some rc \<Longrightarrow> \<exists>n call. (h, n, call, rc_status rc) \<in> set (fk_executed c)"
    "fk_earnings c a = paid_total a (fk_executed c)" "distinct (map fst (fk_sent c))"
  using assms by (auto simp: fk_ok_def)

lemma fk_send_ok:
  assumes "fk_ok c" "fk_send call n c = (r, c')"
  shows "fk_ok c'"
proof -
  have seq: "\<forall>x \<in> set (fk_sent c). \<exists>i. 0 \<le> i \<and> i \<le> fk_seq c \<and> fst x = fk_txhash i" "0 \<le> fk_seq c"
    using assms(1) by (simp_all add: fk_ok_def)
  then have fresh: "fk_txhash (fk_seq c + 1) \<notin> fst ` set (fk_sent c)" by (fastforce dest: fk_txhash_inj [rotated 2])
  show "fk_ok c'"
  proof (cases "fk_fail_next_send c")
    case True
    then show ?thesis using assms by (auto simp: fk_send_def intro: fk_ok_cong)
  next
    case False
    define x where "x = (fk_txhash (fk_seq c + 1), n, call)"
    have c': "c' = c\<lparr>fk_seq := fk_seq c + 1, fk_queue := fk_queue c @ [\<lparr> qi_hash = fst x, qi_nonce = Some n, qi_action = Tx call \<rparr>],
        fk_sent := fk_sent c @ [x]\<rparr>"
      using assms(2) False by (auto simp: fk_send_def fk_enqueue_def Let_def x_def)
    have "queued_ok c' \<lparr> qi_hash = fst x, qi_nonce = Some n, qi_action = Tx call \<rparr>" by (simp add: queued_ok_def c' x_def)
    moreover have "distinct (map fst (fk_sent c @ [x]))" using assms(1) fresh by (simp add: fk_ok_def x_def)
    ultimately show ?thesis using queue_one_ok [OF assms(1) _ _ _ c', of n call] by (simp add: x_def)
  qed
qed

lemma fk_init_ok: "fk_ok (fk_init escrow staking)"
  by (simp add: fk_ok_def fk_init_def paid_total_def)

interpretation fake: payout_chain fake_client fk_net fk_ok "\<lambda>c. set (fk_sent c)" fk_executed
proof unfold_locales
  fix c h p q
  assume "fk_ok c" "(h, p) \<in> set (fk_sent c)" "(h, q) \<in> set (fk_sent c)"
  then show "p = q" by (auto dest: fk_okD(5) eq_key_imp_eq_value)
next
  fix c c'
  assume "fk_ok c" "fk_net c c'"
  then have "fk_after c c'" by (rule fk_net_ok [rotated])
  then show "fk_ok c'" "set (fk_sent c') = set (fk_sent c)" "set (fk_executed c) \<subseteq> set (fk_executed c')"
    by (simp_all add: fk_after_def)
qed (auto simp: fake_client_def fk_send_ok fk_okD(4) fk_send_def fk_enqueue_def Let_def
       dest: fk_okD(1,3) intro: fk_okD(2) split: if_splits)

end
