(* ===== verification/Watcher.thy ===== *)
theory Watcher
  imports Ledger Chain_Client Systems
begin

text \<open>
  The chain watcher of \<open>api/app/chain/watcher.py\<close>.  What a scan reads from the client is a value of
  \<open>chain_reads\<close>; no law is assumed of it, so the results hold for a chain that reorganises or lies.  A method
  answers the session's database or the error that rolls it back, and the counters, which survive.
  \<open>mirror_ok\<close> is the invariant: the chain postings on a developer's account are exactly the processed deposits
  and withdrawals the event table holds, each log at most once.
\<close>

section \<open>State\<close>

record chain_reads =
  rd_latest :: "err + int"
  rd_block :: "int \<Rightarrow> err + BlockRef"
  rd_logs :: "int \<Rightarrow> int \<Rightarrow> err + ChainLog list"

definition reads_of :: "'c client \<Rightarrow> 'c \<Rightarrow> chain_reads" where
  "reads_of C c = \<lparr> rd_latest = cl_latest_block C c, rd_block = (\<lambda>n. cl_get_block C n c), rd_logs = (\<lambda>a b. cl_get_logs C a b c) \<rparr>"

definition STREAM :: string where
  "STREAM = ''chain''"

definition EFFECTFUL :: "string list" where
  "EFFECTFUL = [''Deposited'', ''Withdrawn'']"

record ScanResult =
  sr_new_events :: int
  sr_confirmed :: int
  sr_applied :: int
  sr_orphaned :: int
  sr_reversed_effects :: int
  sr_reorg_depth :: int
  sr_unmapped_wallets :: "string list"

definition new_scan :: ScanResult where
  "new_scan = \<lparr> sr_new_events = 0, sr_confirmed = 0, sr_applied = 0, sr_orphaned = 0, sr_reversed_effects = 0,
     sr_reorg_depth = 0, sr_unmapped_wallets = [] \<rparr>"

record watcher =
  wt_decimals :: nat
  wt_confirmations :: int
  wt_start_block :: int
  wt_reorg_window :: int

definition ChainWatcher :: "nat \<Rightarrow> int \<Rightarrow> int \<Rightarrow> int option \<Rightarrow> watcher" where
  "ChainWatcher usdc_decimals confirmations start_block reorg_window =
     \<lparr> wt_decimals = usdc_decimals, wt_confirmations = confirmations, wt_start_block = start_block,
       wt_reorg_window = (case reorg_window of None \<Rightarrow> confirmations + 2 | Some n \<Rightarrow> n) \<rparr>"

definition put_event :: "ChainEvent \<Rightarrow> db \<Rightarrow> db" where
  "put_event ev d = d\<lparr>chain_events := tput ev_id ev (chain_events d)\<rparr>"

definition delete_event :: "ChainEvent \<Rightarrow> db \<Rightarrow> db" where
  "delete_event ev d = d\<lparr>chain_events := filter (\<lambda>e. ev_id e \<noteq> ev_id ev) (chain_events d)\<rparr>"

text \<open>A loop whose body may raise; the counters survive the error.\<close>

fun each :: "('x \<Rightarrow> db \<Rightarrow> 'r \<Rightarrow> (err + db) \<times> 'r) \<Rightarrow> 'x list \<Rightarrow> db \<Rightarrow> 'r \<Rightarrow> (err + db) \<times> 'r" where
  "each f [] d res = (Inr d, res)"
| "each f (x # xs) d res = (case f x d res of (Inl e, res) \<Rightarrow> (Inl e, res) | (Inr d, res) \<Rightarrow> each f xs d res)"

section \<open>Effects\<close>

definition developer_for :: "string \<Rightarrow> db \<Rightarrow> Developer option" where
  "developer_for wallet d = find (\<lambda>dev. dv_wallet_address dev = Some (to_lower wallet)) (developers d)"

text \<open>The arguments of an event: a wallet, and an amount that every log carries as an integer.\<close>

definition event_wallet :: "ChainEvent \<Rightarrow> err + string" where
  "event_wallet ev = (case map_of (ev_args ev) ''developer'' of None \<Rightarrow> Inl KeyError | Some v \<Rightarrow> Inr (to_lower (py_str v)))"

definition event_units :: "ChainEvent \<Rightarrow> err + int" where
  "event_units ev =
     (case map_of (ev_args ev) ''amount'' of None \<Rightarrow> Inl KeyError | Some (JInt n) \<Rightarrow> Inr n | Some _ \<Rightarrow> Inl TypeError)"

definition deposit_postings :: "uuid \<Rightarrow> money \<Rightarrow> Posting list" where
  "deposit_postings dev amount = [Dr la_protocol amount None, Cr la_developer amount (Some dev)]"

definition withdraw_postings :: "uuid \<Rightarrow> money \<Rightarrow> Posting list" where
  "withdraw_postings dev amount = [Dr la_developer amount (Some dev), Cr la_protocol amount None]"

definition apply_effect :: "instant \<Rightarrow> watcher \<Rightarrow> ChainEvent \<Rightarrow> db \<Rightarrow> ScanResult \<Rightarrow> (err + (bool \<times> db)) \<times> ScanResult" where
  "apply_effect now w ev d res =
     (case event_wallet ev of
        Inl e \<Rightarrow> (Inl e, res)
      | Inr wallet \<Rightarrow>
          (case developer_for wallet d of
             None \<Rightarrow> (Inr (False, d), res\<lparr>sr_unmapped_wallets := sr_unmapped_wallets res @ [wallet]\<rparr>)
           | Some dev \<Rightarrow>
               (bindE (event_units ev) (\<lambda>units.
                let amount = from_units units (wt_decimals w) in
                if ev_event_name ev = ''Deposited'' then
                  bindE (post_transaction now (deposit_postings (dv_id dev) amount) ''chain_deposit'' None (Some (ev_tx_hash ev)) d)
                    (\<lambda>(_, d). Inr (True, d))
                else if ev_event_name ev = ''Withdrawn'' then
                  bindE (post_transaction now (withdraw_postings (dv_id dev) amount) ''chain_withdraw'' None (Some (ev_tx_hash ev)) d)
                    (\<lambda>(_, d). Inr (True, d))
                else Inr (True, d)), res)))"

definition reverse_effect :: "instant \<Rightarrow> watcher \<Rightarrow> ChainEvent \<Rightarrow> db \<Rightarrow> ScanResult \<Rightarrow> (err + db) \<times> ScanResult" where
  "reverse_effect now w ev d res =
     (case event_wallet ev of
        Inl e \<Rightarrow> (Inl e, res)
      | Inr wallet \<Rightarrow>
          (case developer_for wallet d of
             None \<Rightarrow> (Inr d, res)
           | Some dev \<Rightarrow>
               (case bindE (event_units ev) (\<lambda>units.
                   let amount = from_units units (wt_decimals w);
                       postings = (if ev_event_name ev = ''Deposited'' then withdraw_postings (dv_id dev) amount
                                   else deposit_postings (dv_id dev) amount)
                   in post_transaction now postings (''reorg_reverse_'' @ to_lower (ev_event_name ev)) None (Some (ev_tx_hash ev)) d) of
                  Inl e \<Rightarrow> (Inl e, res)
                | Inr (_, d) \<Rightarrow> (Inr d, res\<lparr>sr_reversed_effects := sr_reversed_effects res + 1\<rparr>))))"

section \<open>A scan\<close>

text \<open>The canonical hash of a block; asking the client twice gives the same answer within a scan.\<close>

definition canonical :: "chain_reads \<Rightarrow> int \<Rightarrow> int \<Rightarrow> err + string option" where
  "canonical R latest number =
     (case rd_block R number of
        Inr blk \<Rightarrow> Inr (if number \<le> latest then Some (bk_hash blk) else None)
      | Inl (ChainError _) \<Rightarrow> Inr None
      | Inl e \<Rightarrow> Inl e)"

definition check_event :: "chain_reads \<Rightarrow> instant \<Rightarrow> watcher \<Rightarrow> int \<Rightarrow> ChainEvent \<Rightarrow> db \<Rightarrow> ScanResult \<Rightarrow> (err + db) \<times> ScanResult" where
  "check_event R now w latest ev d res =
     (case canonical R latest (ev_block_number ev) of
        Inl e \<Rightarrow> (Inl e, res)
      | Inr good \<Rightarrow>
          if good = Some (ev_block_hash ev) then (Inr d, res)
          else
            (let res = res\<lparr>sr_orphaned := sr_orphaned res + 1, sr_reorg_depth := max (sr_reorg_depth res) (ev_block_number ev)\<rparr>;
                 (r, res) = (if ev_processed ev \<and> ev_event_name ev \<in> set EFFECTFUL then reverse_effect now w ev d res else (Inr d, res))
             in case r of Inl e \<Rightarrow> (Inl e, res) | Inr d \<Rightarrow> (Inr (delete_event ev d), res)))"

definition handle_reorg :: "chain_reads \<Rightarrow> instant \<Rightarrow> watcher \<Rightarrow> int \<Rightarrow> int \<Rightarrow> db \<Rightarrow> ScanResult \<Rightarrow> (err + db) \<times> ScanResult" where
  "handle_reorg R now w window_start latest d res =
     each (check_event R now w latest) (filter (\<lambda>ev. ev_block_number ev \<ge> window_start) (chain_events d)) d res"

definition event_of :: "ChainLog \<Rightarrow> uuid \<Rightarrow> ChainEvent" where
  "event_of l k = \<lparr> ev_id = k, ev_event_name = lg_event_name l, ev_tx_hash = lg_tx_hash l, ev_log_index = lg_log_index l,
     ev_block_number = lg_block_number l, ev_block_hash = lg_block_hash l, ev_address = lg_address l, ev_args = lg_args l,
     ev_confirmed = False, ev_processed = False \<rparr>"

definition ingest :: "ChainLog \<Rightarrow> db \<Rightarrow> ScanResult \<Rightarrow> (err + db) \<times> ScanResult" where
  "ingest l d res =
     (if \<exists>ev \<in> set (chain_events d). ev_tx_hash ev = lg_tx_hash l \<and> ev_log_index ev = lg_log_index l then (Inr d, res)
      else (Inr (d\<lparr>chain_events := chain_events d @ [event_of l (next_id d)], next_id := Suc (next_id d)\<rparr>),
            res\<lparr>sr_new_events := sr_new_events res + 1\<rparr>))"

definition apply_one :: "instant \<Rightarrow> watcher \<Rightarrow> int \<Rightarrow> ChainEvent \<Rightarrow> db \<Rightarrow> ScanResult \<Rightarrow> (err + db) \<times> ScanResult" where
  "apply_one now w latest ev d res =
     (if latest - ev_block_number ev + 1 < wt_confirmations w then (Inr d, res)
      else
        (let final = ev\<lparr>ev_confirmed := True, ev_processed := True\<rparr>; res = res\<lparr>sr_confirmed := sr_confirmed res + 1\<rparr> in
         if ev_event_name ev \<notin> set EFFECTFUL then (Inr (put_event final d), res)
         else
           (case apply_effect now w ev d res of
              (Inl e, res) \<Rightarrow> (Inl e, res)
            | (Inr (applied, d), res) \<Rightarrow>
                (Inr (put_event final d), if applied then res\<lparr>sr_applied := sr_applied res + 1\<rparr> else res))))"

definition apply_confirmed :: "instant \<Rightarrow> watcher \<Rightarrow> int \<Rightarrow> db \<Rightarrow> ScanResult \<Rightarrow> (err + db) \<times> ScanResult" where
  "apply_confirmed now w latest d res =
     each (apply_one now w latest)
       (sort_key (\<lambda>ev. ev_block_number ev) (sort_key (\<lambda>ev. ev_log_index ev) (filter (\<lambda>ev. \<not> ev_processed ev) (chain_events d)))) d res"

definition open_cursor :: "watcher \<Rightarrow> int \<Rightarrow> db \<Rightarrow> ChainCursor \<times> db" where
  "open_cursor w latest d =
     (case tget cu_stream STREAM (chain_cursors d) of
        Some cursor \<Rightarrow> (cursor, d)
      | None \<Rightarrow>
          (let initial = (if wt_start_block w > 0 then wt_start_block w else max 0 (latest - 1));
               cursor = \<lparr> cu_stream = STREAM, cu_last_scanned_block = initial, cu_head_block_hash = None \<rparr>
           in (cursor, d\<lparr>chain_cursors := chain_cursors d @ [cursor]\<rparr>)))"

definition ingest_logs :: "chain_reads \<Rightarrow> int \<Rightarrow> int \<Rightarrow> ChainCursor \<Rightarrow> db \<Rightarrow> ScanResult \<Rightarrow> (err + db) \<times> ScanResult" where
  "ingest_logs R from_block latest cursor d res =
     (if from_block \<le> latest then
        (case rd_logs R from_block latest of
           Inl e \<Rightarrow> (Inl e, res)
         | Inr logs \<Rightarrow>
             (case each ingest logs d res of
                (Inl e, res) \<Rightarrow> (Inl e, res)
              | (Inr d, res) \<Rightarrow>
                  (case rd_block R latest of
                     Inl e \<Rightarrow> (Inl e, res)
                   | Inr head \<Rightarrow>
                       (Inr (d\<lparr>chain_cursors := tput cu_stream (cursor\<lparr>cu_last_scanned_block := latest,
                                cu_head_block_hash := Some (bk_hash head)\<rparr>) (chain_cursors d)\<rparr>), res))))
      else (Inr d, res))"

definition scan :: "chain_reads \<Rightarrow> instant \<Rightarrow> watcher \<Rightarrow> db \<Rightarrow> ScanResult \<Rightarrow> (err + db) \<times> ScanResult" where
  "scan R now w d res =
     (case rd_latest R of
        Inl e \<Rightarrow> (Inl e, res)
      | Inr latest \<Rightarrow>
          (let (cursor, d) = open_cursor w latest d;
               window_start = max 1 (cu_last_scanned_block cursor - wt_reorg_window w + 1);
               from_block = min (cu_last_scanned_block cursor + 1) window_start
           in case handle_reorg R now w window_start latest d res of
                (Inl e, res) \<Rightarrow> (Inl e, res)
              | (Inr d, res) \<Rightarrow>
                  (case ingest_logs R from_block latest cursor d res of
                     (Inl e, res) \<Rightarrow> (Inl e, res)
                   | (Inr d, res) \<Rightarrow> apply_confirmed now w latest d res)))"

text \<open>An error leaves the database as it was and is only logged.\<close>

definition watcher_tick :: "chain_reads \<Rightarrow> instant \<Rightarrow> watcher \<Rightarrow> db \<Rightarrow> ScanResult \<times> db" where
  "watcher_tick R now w d = (case scan R now w d new_scan of (Inl _, res) \<Rightarrow> (res, d) | (Inr d', res) \<Rightarrow> (res, d'))"

section \<open>The mirror\<close>

text \<open>The postings the watcher makes, by their reason, and their net effect on a developer's account.\<close>

definition chain_reason :: "string \<Rightarrow> bool" where
  "chain_reason r \<longleftrightarrow> r \<in> {''chain_deposit'', ''chain_withdraw'', ''reorg_reverse_deposited'', ''reorg_reverse_withdrawn''}"

definition mirrored :: "uuid \<Rightarrow> db \<Rightarrow> money" where
  "mirrored dev d = sum_list (map net (filter (\<lambda>e. on_account la_developer (Some dev) e \<and> chain_reason (le_reason e)) (ledger_entries d)))"

text \<open>What an event is worth to a developer: nothing until it is processed, and only to the owner of its wallet.\<close>

definition event_dev :: "db \<Rightarrow> ChainEvent \<Rightarrow> uuid option" where
  "event_dev d ev = (case event_wallet ev of Inl _ \<Rightarrow> None | Inr w \<Rightarrow> map_option dv_id (developer_for w d))"

definition event_worth :: "nat \<Rightarrow> ChainEvent \<Rightarrow> money" where
  "event_worth k ev = (case event_units ev of Inl _ \<Rightarrow> 0
     | Inr u \<Rightarrow> if ev_event_name ev = ''Deposited'' then from_units u k else - from_units u k)"

definition counted :: "nat \<Rightarrow> db \<Rightarrow> uuid \<Rightarrow> ChainEvent \<Rightarrow> money" where
  "counted k d dev ev = (if ev_processed ev \<and> ev_event_name ev \<in> set EFFECTFUL \<and> event_dev d ev = Some dev then event_worth k ev else 0)"

definition log_key :: "ChainEvent \<Rightarrow> string \<times> int" where
  "log_key ev = (ev_tx_hash ev, ev_log_index ev)"

definition mirror_ok :: "nat \<Rightarrow> db \<Rightarrow> bool" where
  "mirror_ok k d \<longleftrightarrow> distinct (map ev_id (chain_events d)) \<and> (\<forall>ev \<in> set (chain_events d). ev_id ev < next_id d)
     \<and> distinct (map log_key (chain_events d))
     \<and> (\<forall>dev. mirrored dev d = sum_list (map (counted k d dev) (chain_events d)))"

lemma filter_mk_entries:
  "filter (\<lambda>e. on_account a r e \<and> P (le_reason e)) (mk_entries now g reason jid tx k ps)
     = (if P reason then filter (on_account a r) (mk_entries now g reason jid tx k ps) else [])"
  by (induction ps arbitrary: k) auto

lemma post_mirrored:
  assumes "post_transaction now ps reason jid tx d = Inr (g, d')"
  shows "mirrored dev d' = mirrored dev d + (if chain_reason reason then effect la_developer (Some dev) ps else 0)"
    "developers d' = developers d" "chain_events d' = chain_events d" "next_id d < next_id d'"
  using assms post_transaction_Inr [OF assms]
  by (auto simp: mirrored_def post_transaction_def Let_def filter_mk_entries balance_mk_entries split: if_splits)

lemma event_dev_cong: "developers d' = developers d \<Longrightarrow> event_dev d' ev = event_dev d ev"
  unfolding event_dev_def developer_for_def by (simp only:)

lemma counted_cong: "developers d' = developers d \<Longrightarrow> counted k d' dev = counted k d dev"
  by (rule ext) (simp add: counted_def event_dev_cong [of d' d])

text \<open>A loop over rows that is each time applied to a row still as it was read.\<close>

lemma each_inv:
  assumes "\<And>x xs d res d' res'. P (x # xs) d \<Longrightarrow> f x d res = (Inr d', res') \<Longrightarrow> P xs d'"
    and "P xs d" "each f xs d res = (Inr d', res')"
  shows "P [] d'"
  using assms(2,3)
proof (induction xs arbitrary: d res)
  case (Cons x xs)
  obtain r res1 where r: "f x d res = (r, res1)" by force
  show ?case
  proof (cases r)
    case (Inl e)
    then show ?thesis using Cons.prems r by simp
  next
    case (Inr d1)
    then show ?thesis using Cons.IH [of d1 res1] Cons.prems assms(1) [OF Cons.prems(1)] r by simp
  qed
qed simp

subsection \<open>Each operation keeps the mirror\<close>

lemma sum_delete:
  fixes f :: "'r \<Rightarrow> 'v::ab_group_add"
  assumes "distinct (map key xs)" "x \<in> set xs"
  shows "sum_list (map f (filter (\<lambda>y. key y \<noteq> key x) xs)) = sum_list (map f xs) - f x"
  using assms
proof (induction xs)
  case (Cons y xs)
  show ?case
  proof (cases "y = x")
    case True
    then have "filter (\<lambda>z. key z \<noteq> key x) xs = xs" using Cons.prems(1) by (auto simp: filter_id_conv image_iff)
    then show ?thesis using True by simp
  next
    case False
    then have "key y \<noteq> key x" using Cons.prems by (auto simp: image_iff)
    then show ?thesis using Cons False by simp
  qed
qed simp

lemma EFFECTFUL_iff: "x \<in> set EFFECTFUL \<longleftrightarrow> x = ''Deposited'' \<or> x = ''Withdrawn''"
  by (auto simp: EFFECTFUL_def)

lemma chain_reasons: "chain_reason ''chain_deposit''" "chain_reason ''chain_withdraw''"
  "x \<in> set EFFECTFUL \<Longrightarrow> chain_reason (''reorg_reverse_'' @ to_lower x)"
proof -
  have "to_lower ''Deposited'' = ''deposited''" "to_lower ''Withdrawn'' = ''withdrawn''" by code_simp+
  then show "x \<in> set EFFECTFUL \<Longrightarrow> chain_reason (''reorg_reverse_'' @ to_lower x)" by (auto simp: EFFECTFUL_iff chain_reason_def)
qed (simp_all add: chain_reason_def)

lemma postings_effect:
  "effect la_developer (Some dev) (deposit_postings who x) = (if who = dev then x else 0)"
  "effect la_developer (Some dev) (withdraw_postings who x) = (if who = dev then - x else 0)"
  by (auto simp: deposit_postings_def withdraw_postings_def)

text \<open>Applying an event adds its worth to its developer; reversing a processed one takes it back.\<close>

definition posts_only :: "db \<Rightarrow> db \<Rightarrow> bool" where
  "posts_only d d' \<longleftrightarrow> developers d' = developers d \<and> chain_events d' = chain_events d \<and> next_id d \<le> next_id d'"

lemma apply_effect_sel:
  assumes "apply_effect now w ev d res = (Inr (applied, d'), res')" "ev_event_name ev \<in> set EFFECTFUL"
  shows "posts_only d d'" "mirrored dev d' = mirrored dev d + (if event_dev d ev = Some dev then event_worth (wt_decimals w) ev else 0)"
proof -
  obtain wl where wl: "event_wallet ev = Inr wl" using assms(1) by (auto simp: apply_effect_def split: sum.splits)
  have "posts_only d d' \<and> mirrored dev d' = mirrored dev d + (if event_dev d ev = Some dev then event_worth (wt_decimals w) ev else 0)"
  proof (cases "developer_for wl d")
    case None
    then show ?thesis using assms(1) wl by (auto simp: apply_effect_def event_dev_def posts_only_def)
  next
    case (Some dv)
    obtain u where u: "event_units ev = Inr u" using assms(1) wl Some by (auto simp: apply_effect_def bindE_Inr_iff)
    let ?x = "from_units u (wt_decimals w)"
    obtain ps reason g where post: "post_transaction now ps reason None (Some (ev_tx_hash ev)) d = Inr (g, d')" "chain_reason reason"
      and ps: "effect la_developer (Some dev) ps = (if dv_id dv = dev then event_worth (wt_decimals w) ev else 0)"
    proof (cases "ev_event_name ev = ''Deposited''")
      case True
      then obtain g where "post_transaction now (deposit_postings (dv_id dv) ?x) ''chain_deposit'' None (Some (ev_tx_hash ev)) d = Inr (g, d')"
        using assms(1) wl Some u by (auto simp: apply_effect_def bindE_Inr_iff Let_def)
      then show ?thesis by (rule that [OF _ chain_reasons(1)]) (simp add: postings_effect event_worth_def True u)
    next
      case False
      then obtain g where "post_transaction now (withdraw_postings (dv_id dv) ?x) ''chain_withdraw'' None (Some (ev_tx_hash ev)) d = Inr (g, d')"
        using assms wl Some u by (auto simp: apply_effect_def bindE_Inr_iff Let_def EFFECTFUL_iff)
      then show ?thesis by (rule that [OF _ chain_reasons(2)]) (simp add: postings_effect event_worth_def False u)
    qed
    have "event_dev d ev = Some (dv_id dv)" using wl Some by (simp add: event_dev_def)
    then show ?thesis using post_mirrored(1) [OF post(1), of dev] post_mirrored(2-4) [OF post(1)] post(2) ps by (simp add: posts_only_def)
  qed
  then show "posts_only d d'" "mirrored dev d' = mirrored dev d + (if event_dev d ev = Some dev then event_worth (wt_decimals w) ev else 0)"
    by simp_all
qed

lemma reverse_effect_sel:
  assumes "reverse_effect now w ev d res = (Inr d', res')" "ev_event_name ev \<in> set EFFECTFUL"
  shows "posts_only d d' \<and> mirrored dev d' = mirrored dev d - (if event_dev d ev = Some dev then event_worth (wt_decimals w) ev else 0)"
proof -
  obtain wl where wl: "event_wallet ev = Inr wl" using assms(1) by (auto simp: reverse_effect_def split: sum.splits)
  show ?thesis
  proof (cases "developer_for wl d")
    case None
    then show ?thesis using assms(1) wl by (auto simp: reverse_effect_def event_dev_def posts_only_def)
  next
    case (Some dv)
    obtain u where u: "event_units ev = Inr u" using assms(1) wl Some by (cases "event_units ev") (auto simp: reverse_effect_def)
    let ?ps = "if ev_event_name ev = ''Deposited'' then withdraw_postings (dv_id dv) (from_units u (wt_decimals w))
               else deposit_postings (dv_id dv) (from_units u (wt_decimals w))"
    obtain g where post: "post_transaction now ?ps (''reorg_reverse_'' @ to_lower (ev_event_name ev)) None (Some (ev_tx_hash ev)) d = Inr (g, d')"
      using assms(1) wl Some u by (auto simp: reverse_effect_def Let_def split: sum.splits prod.splits)
    have "effect la_developer (Some dev) ?ps = - (if dv_id dv = dev then event_worth (wt_decimals w) ev else 0)"
      using u by (simp add: postings_effect event_worth_def)
    moreover have "event_dev d ev = Some (dv_id dv)" using wl Some by (simp add: event_dev_def)
    ultimately show ?thesis using post_mirrored(1) [OF post, of dev] post_mirrored(2-4) [OF post] chain_reasons(3) [OF assms(2)] by (simp add: posts_only_def)
  qed
qed

lemma check_event_ok:
  assumes ok: "mirror_ok (wt_decimals w) d" and ev: "ev \<in> set (chain_events d)"
    and r: "check_event R now w latest ev d res = (Inr d', res')"
  shows "mirror_ok (wt_decimals w) d' \<and> developers d' = developers d \<and> (\<forall>e \<in> set (chain_events d). ev_id e \<noteq> ev_id ev \<longrightarrow> e \<in> set (chain_events d'))"
proof -
  let ?k = "wt_decimals w"
  consider "d' = d" | d1 where "d' = delete_event ev d1" "posts_only d d1"
      "\<And>dev. mirrored dev d1 = mirrored dev d - counted ?k d dev ev"
  proof -
    obtain good where good: "canonical R latest (ev_block_number ev) = Inr good"
      using r by (auto simp: check_event_def split: sum.splits)
    show thesis
    proof (cases "good = Some (ev_block_hash ev)")
      case True
      then show thesis using r good that(1) by (simp add: check_event_def)
    next
      case False
      obtain res1 r1 res2 where rev: "(if ev_processed ev \<and> ev_event_name ev \<in> set EFFECTFUL then reverse_effect now w ev d res1 else (Inr d, res1)) = (Inr r1, res2)"
        "d' = delete_event ev r1"
        using r good False by (auto simp: check_event_def Let_def split: sum.splits prod.splits if_splits)
      show thesis
      proof (cases "ev_processed ev \<and> ev_event_name ev \<in> set EFFECTFUL")
        case True
        then have e: "reverse_effect now w ev d res1 = (Inr r1, res2)" and n: "ev_event_name ev \<in> set EFFECTFUL" using rev(1) by simp_all
        show thesis using that(2) [OF rev(2)] reverse_effect_sel [OF e n] True by (simp add: counted_def)
      next
        case False
        then show thesis using that(2) [OF rev(2)] rev(1) by (auto simp: counted_def posts_only_def)
      qed
    qed
  qed
  then show ?thesis
  proof cases
    case (2 d1)
    note m = 2(2) [unfolded posts_only_def]
    have E: "chain_events d' = filter (\<lambda>e. ev_id e \<noteq> ev_id ev) (chain_events d)" "developers d' = developers d" "ledger_entries d' = ledger_entries d1"
      "next_id d \<le> next_id d'" using m by (simp_all add: 2(1) delete_event_def)
    have "mirrored dev d' = sum_list (map (counted ?k d' dev) (chain_events d'))" for dev
    proof -
      have "mirrored dev d' = mirrored dev d1" by (simp add: mirrored_def E(3))
      also have "\<dots> = sum_list (map (counted ?k d dev) (chain_events d)) - counted ?k d dev ev"
        using ok 2(3) by (simp add: mirror_ok_def)
      also have "\<dots> = sum_list (map (counted ?k d dev) (chain_events d'))"
        unfolding E(1) using ok ev by (intro sum_delete [symmetric]) (simp_all add: mirror_ok_def)
      finally show ?thesis by (simp add: counted_cong [OF E(2)])
    qed
    then have "mirror_ok ?k d'" using ok E(4) by (auto simp: mirror_ok_def E(1) distinct_map_filter)
    then show ?thesis using E by simp
  qed (use ok in simp)
qed

lemma ingest_ok:
  assumes "mirror_ok k d" "ingest l d res = (Inr d', res')"
  shows "mirror_ok k d' \<and> developers d' = developers d \<and> set (chain_events d) \<subseteq> set (chain_events d')
     \<and> (\<exists>ev \<in> set (chain_events d'). log_key ev = (lg_tx_hash l, lg_log_index l))"
proof (cases "\<exists>ev \<in> set (chain_events d). ev_tx_hash ev = lg_tx_hash l \<and> ev_log_index ev = lg_log_index l")
  case True
  then show ?thesis using assms by (auto simp: ingest_def log_key_def)
next
  case False
  let ?ev = "event_of l (next_id d)"
  from False assms(2) have "d' = d\<lparr>chain_events := chain_events d @ [?ev], next_id := Suc (next_id d)\<rparr>"
    unfolding ingest_def if_not_P [OF False] by simp
  then have ev: "chain_events d' = chain_events d @ [?ev]" "next_id d' = Suc (next_id d)" "ledger_entries d' = ledger_entries d"
    "developers d' = developers d" "ev_id ?ev = next_id d" "log_key ?ev = (lg_tx_hash l, lg_log_index l)" "\<not> ev_processed ?ev"
    by (simp_all add: event_of_def log_key_def)
  have "mirrored dev d' = mirrored dev d" for dev by (simp add: mirrored_def ev(3))
  moreover have "counted k d dev ?ev = 0" for dev using ev(7) by (simp add: counted_def)
  moreover have "log_key ?ev \<notin> log_key ` set (chain_events d)" using False ev(6) by (auto simp: log_key_def)
  moreover have "next_id d \<notin> ev_id ` set (chain_events d)" using assms(1) by (force simp: mirror_ok_def)
  ultimately have "mirror_ok k d'" using assms(1) ev
    by (auto simp: mirror_ok_def counted_cong [OF ev(4)] intro: less_SucI)
  then show ?thesis using ev by auto
qed

lemma apply_one_ok:
  assumes ok: "mirror_ok (wt_decimals w) d" and ev: "ev \<in> set (chain_events d)" "\<not> ev_processed ev"
    and r: "apply_one now w latest ev d res = (Inr d', res')"
  shows "mirror_ok (wt_decimals w) d' \<and> developers d' = developers d
     \<and> (if latest - ev_block_number ev + 1 < wt_confirmations w then d' = d
        else set (chain_events d') = insert (ev\<lparr>ev_confirmed := True, ev_processed := True\<rparr>) (set (chain_events d) - {ev}))"
proof (cases "latest - ev_block_number ev + 1 < wt_confirmations w")
  case True
  then show ?thesis using ok r by (simp add: apply_one_def)
next
  case False
  let ?k = "wt_decimals w" and ?final = "ev\<lparr>ev_confirmed := True, ev_processed := True\<rparr>"
  obtain d1 where d1: "d' = put_event ?final d1" "posts_only d d1" "\<And>dev. mirrored dev d1 = mirrored dev d + counted ?k d dev ?final"
  proof (cases "ev_event_name ev \<in> set EFFECTFUL")
    case True
    obtain applied d1 res1 where "apply_effect now w ev d (res\<lparr>sr_confirmed := sr_confirmed res + 1\<rparr>) = (Inr (applied, d1), res1)" "d' = put_event ?final d1"
      using r False True by (auto simp: apply_one_def Let_def split: sum.splits prod.splits)
    moreover have "event_dev d ?final = event_dev d ev" "event_worth ?k ?final = event_worth ?k ev"
      by (simp_all add: event_dev_def event_wallet_def event_worth_def event_units_def split: sum.split)
    ultimately show ?thesis using that apply_effect_sel [OF _ True] True by (simp add: counted_def)
  next
    case other: False
    then show ?thesis using that [of d] r False by (simp add: apply_one_def Let_def posts_only_def counted_def)
  qed
  note m = d1(2) [unfolded posts_only_def]
  have E: "chain_events d' = tput ev_id ?final (chain_events d)" "developers d' = developers d" "ledger_entries d' = ledger_entries d1"
    "next_id d \<le> next_id d'" using m by (simp_all add: d1(1) put_event_def)
  have dist: "distinct (map ev_id (chain_events d))" using ok by (simp add: mirror_ok_def)
  have set': "set (chain_events d') = insert ?final (set (chain_events d) - {ev})"
    unfolding E(1) by (rule tput_in [OF dist ev(1)]) simp
  have "tget ev_id (ev_id ?final) (chain_events d) = Some ev" using dist ev(1) by (simp add: tget_member)
  then have "sum_list (map (counted ?k d dev) (chain_events d')) = sum_list (map (counted ?k d dev) (chain_events d)) + counted ?k d dev ?final" for dev
    unfolding E(1) using sum_list_tput [OF dist, of ?final ev "counted ?k d dev"] ev(2) by (simp add: counted_def)
  then have "mirrored dev d' = sum_list (map (counted ?k d' dev) (chain_events d'))" for dev
    using ok d1(3) by (simp add: mirror_ok_def counted_cong [OF E(2)] mirrored_def E(3))
  moreover have "map log_key (chain_events d') = map log_key (chain_events d)"
    unfolding E(1) using dist ev(1) by (intro tput_map) (auto simp: log_key_def distinct_map dest: inj_onD)
  ultimately have "mirror_ok ?k d'" using ok E(4) dist ev(1) unfolding mirror_ok_def set' by (auto simp: E(1))
  then show ?thesis using set' E(2) False by simp
qed

subsection \<open>A scan keeps the mirror and is complete\<close>

lemma handle_reorg_ok:
  assumes "mirror_ok (wt_decimals w) d" "handle_reorg R now w start latest d res = (Inr d', res')"
  shows "mirror_ok (wt_decimals w) d' \<and> developers d' = developers d"
proof -
  let ?P = "\<lambda>xs e. mirror_ok (wt_decimals w) e \<and> developers e = developers d \<and> set xs \<subseteq> set (chain_events e) \<and> distinct (map ev_id xs)"
  have "?P [] d'"
  proof (rule each_inv [where P = ?P, OF _ _ assms(2) [unfolded handle_reorg_def]])
    fix x xs e r e' r'
    assume P: "?P (x # xs) e" and c: "check_event R now w latest x e r = (Inr e', r')"
    have "x \<in> set (chain_events e)" using P by simp
    from check_event_ok [OF _ this c] P show "?P xs e'" by (auto simp: image_iff subset_iff)
  next
    show "?P (filter (\<lambda>ev. start \<le> ev_block_number ev) (chain_events d)) d"
      using assms(1) by (simp add: mirror_ok_def distinct_map_filter)
  qed
  then show ?thesis by simp
qed

lemma ingest_all:
  assumes "mirror_ok k d" "each ingest ls d res = (Inr d', res')"
  shows "mirror_ok k d' \<and> developers d' = developers d
     \<and> (\<forall>l \<in> set ls. \<exists>ev \<in> set (chain_events d'). log_key ev = (lg_tx_hash l, lg_log_index l))"
proof -
  let ?P = "\<lambda>xs e. mirror_ok k e \<and> developers e = developers d
    \<and> (\<forall>l \<in> set ls - set xs. \<exists>ev \<in> set (chain_events e). log_key ev = (lg_tx_hash l, lg_log_index l))"
  have "?P [] d'"
  proof (rule each_inv [where P = ?P, OF _ _ assms(2)])
    fix x xs e r e' r'
    assume P: "?P (x # xs) e" and c: "ingest x e r = (Inr e', r')"
    note i = ingest_ok [OF _ c, of k]
    have "\<exists>ev \<in> set (chain_events e'). log_key ev = (lg_tx_hash l, lg_log_index l)" if "l \<in> set ls - set xs" for l
      using i P that by (cases "l = x") auto
    then show "?P xs e'" using i P by simp
  qed (use assms in simp)
  then show ?thesis by simp
qed

definition deep :: "watcher \<Rightarrow> int \<Rightarrow> ChainEvent \<Rightarrow> bool" where
  "deep w latest ev \<longleftrightarrow> wt_confirmations w \<le> latest - ev_block_number ev + 1"

lemma apply_confirmed_ok:
  assumes "mirror_ok (wt_decimals w) d" "apply_confirmed now w latest d res = (Inr d', res')"
  shows "mirror_ok (wt_decimals w) d' \<and> developers d' = developers d \<and> log_key ` set (chain_events d') = log_key ` set (chain_events d)
     \<and> (\<forall>ev \<in> set (chain_events d'). deep w latest ev \<longrightarrow> ev_processed ev)"
proof -
  let ?todo = "sort_key (\<lambda>ev. ev_block_number ev) (sort_key (\<lambda>ev. ev_log_index ev) (filter (\<lambda>ev. \<not> ev_processed ev) (chain_events d)))"
  let ?P = "\<lambda>xs e. mirror_ok (wt_decimals w) e \<and> developers e = developers d \<and> set xs \<subseteq> set (chain_events e) \<and> distinct (map ev_id xs)
    \<and> (\<forall>ev \<in> set xs. \<not> ev_processed ev) \<and> log_key ` set (chain_events e) = log_key ` set (chain_events d)
    \<and> (\<forall>ev \<in> set (chain_events e). deep w latest ev \<and> \<not> ev_processed ev \<longrightarrow> ev \<in> set xs)"
  have "?P [] d'"
  proof (rule each_inv [where P = ?P, OF _ _ assms(2) [unfolded apply_confirmed_def]])
    fix x xs e r e' r'
    assume P: "?P (x # xs) e" and c: "apply_one now w latest x e r = (Inr e', r')"
    let ?final = "x\<lparr>ev_confirmed := True, ev_processed := True\<rparr>"
    have x: "x \<in> set (chain_events e)" "\<not> ev_processed x" and ok: "mirror_ok (wt_decimals w) e" using P by simp_all
    note a = apply_one_ok [OF ok x c]
    show "?P xs e'"
    proof (cases "deep w latest x")
      case False
      then have "e' = e" using a by (simp add: deep_def)
      then show ?thesis using P False by auto
    next
      case True
      then have E: "set (chain_events e') = insert ?final (set (chain_events e) - {x})" using a by (simp add: deep_def)
      have k: "log_key ?final = log_key x" by (simp add: log_key_def)
      have "x \<notin> set xs" using P by auto
      then have "set xs \<subseteq> set (chain_events e')" using P E by auto
      moreover have "log_key ` set (chain_events e') = log_key ` set (chain_events e)"
        unfolding E using x(1) k by (metis image_insert insert_Diff)
      ultimately show ?thesis using P a by (auto simp: E)
    qed
  next
    have "distinct (chain_events d)" "inj_on ev_id (set (chain_events d))" using assms(1) by (simp_all add: mirror_ok_def distinct_map)
    then have "distinct (map ev_id ?todo)" by (auto simp: distinct_map intro: inj_on_subset)
    then show "?P ?todo d" using assms(1) by auto
  qed
  then show ?thesis by auto
qed

text \<open>What a successful scan leaves behind.\<close>

lemma scan_ok:
  assumes ok: "mirror_ok (wt_decimals w) d" and r: "scan R now w d res = (Inr d', res')"
  obtains latest from_block where "rd_latest R = Inr latest" "from_block \<le> max 1 (cu_last_scanned_block (fst (open_cursor w latest d)) + 1)"
    "mirror_ok (wt_decimals w) d'" "developers d' = developers d"
    "\<forall>ev \<in> set (chain_events d'). deep w latest ev \<longrightarrow> ev_processed ev"
    "from_block \<le> latest \<Longrightarrow> \<exists>ls. rd_logs R from_block latest = Inr ls
       \<and> (\<forall>l \<in> set ls. \<exists>ev \<in> set (chain_events d'). log_key ev = (lg_tx_hash l, lg_log_index l))"
proof -
  obtain latest where latest: "rd_latest R = Inr latest" using r by (auto simp: scan_def split: sum.splits)
  obtain cursor d0 where c: "open_cursor w latest d = (cursor, d0)" by force
  have d0: "chain_events d0 = chain_events d" "developers d0 = developers d" "next_id d0 = next_id d" "ledger_entries d0 = ledger_entries d"
    using c by (auto simp: open_cursor_def Let_def split: option.splits)
  have ok0: "mirror_ok (wt_decimals w) d0"
    using ok d0 counted_cong [OF d0(2)] by (simp add: mirror_ok_def mirrored_def)
  let ?start = "max 1 (cu_last_scanned_block cursor - wt_reorg_window w + 1)"
  let ?from = "min (cu_last_scanned_block cursor + 1) ?start"
  obtain d1 res1 where h: "handle_reorg R now w ?start latest d0 res = (Inr d1, res1)"
    using r latest c by (auto simp: scan_def Let_def split: sum.splits prod.splits)
  obtain d2 res2 where i: "ingest_logs R ?from latest cursor d1 res1 = (Inr d2, res2)"
    using r latest c h by (auto simp: scan_def Let_def split: sum.splits prod.splits)
  have a: "apply_confirmed now w latest d2 res2 = (Inr d', res')"
    using r latest c h i by (simp add: scan_def Let_def)
  note H = handle_reorg_ok [OF ok0 h]
  have I: "mirror_ok (wt_decimals w) d2 \<and> developers d2 = developers d1
     \<and> (?from \<le> latest \<longrightarrow> (\<exists>ls. rd_logs R ?from latest = Inr ls
          \<and> (\<forall>l \<in> set ls. \<exists>ev \<in> set (chain_events d2). log_key ev = (lg_tx_hash l, lg_log_index l))))"
  proof (cases "?from \<le> latest")
    case False
    then show ?thesis using i H by (simp add: ingest_logs_def)
  next
    case True
    obtain ls d3 where ls: "rd_logs R ?from latest = Inr ls" "each ingest ls d1 res1 = (Inr d3, res2)"
      and d2: "chain_events d2 = chain_events d3" "developers d2 = developers d3" "next_id d2 = next_id d3" "ledger_entries d2 = ledger_entries d3"
      using i True by (auto simp: ingest_logs_def split: sum.splits prod.splits)
    from ingest_all [OF _ ls(2)] H have "mirror_ok (wt_decimals w) d3 \<and> developers d3 = developers d1
       \<and> (\<forall>l \<in> set ls. \<exists>ev \<in> set (chain_events d3). log_key ev = (lg_tx_hash l, lg_log_index l))" by blast
    then show ?thesis using ls(1) d2 counted_cong [OF d2(2)] by (simp add: mirror_ok_def mirrored_def)
  qed
  note A = apply_confirmed_ok [OF conjunct1 [OF I] a]
  have keys: "(\<exists>ev \<in> set (chain_events d'). log_key ev = x) = (\<exists>ev \<in> set (chain_events d2). log_key ev = x)" for x
    using A by (metis (no_types, lifting) image_iff)
  show thesis
    by (rule that [OF latest, of ?from]) (use A I H d0(2) c in \<open>simp_all add: keys\<close>)
qed

lemma watcher_tick_ok:
  "mirror_ok (wt_decimals w) d \<Longrightarrow> watcher_tick R now w d = (res, d') \<Longrightarrow> mirror_ok (wt_decimals w) d' \<and> developers d' = developers d"
  by (auto simp: watcher_tick_def split: sum.splits prod.splits elim: scan_ok)

section \<open>Runs\<close>

text \<open>Scans of any chain, interleaved with whatever else happens to the database as long as it leaves the event
  table and the watcher's postings alone and does not change whose wallet a processed event names.\<close>

inductive watch_step :: "watcher \<Rightarrow> db \<Rightarrow> db \<Rightarrow> bool" for w where
  scans: "watcher_tick R now w d = (res, d') \<Longrightarrow> watch_step w d d'"
| others: "chain_events d' = chain_events d \<Longrightarrow> next_id d \<le> next_id d' \<Longrightarrow> \<forall>dev. mirrored dev d' = mirrored dev d
    \<Longrightarrow> \<forall>ev \<in> set (chain_events d). ev_processed ev \<longrightarrow> event_dev d' ev = event_dev d ev \<Longrightarrow> watch_step w d d'"

definition watch_initial :: "db \<Rightarrow> bool" where
  "watch_initial d \<longleftrightarrow> chain_events d = [] \<and> (\<forall>dev. mirrored dev d = 0)"

interpretation watching: system watch_initial "watch_step w" "mirror_ok (wt_decimals w)"
proof
  show "watch_initial d \<Longrightarrow> mirror_ok (wt_decimals w) d" for d by (simp add: watch_initial_def mirror_ok_def)
  fix d d'
  assume "mirror_ok (wt_decimals w) d" "watch_step w d d'"
  from this(2,1) show "mirror_ok (wt_decimals w) d'"
  proof (induction rule: watch_step.induct)
    case (scans R now d res d')
    then show ?case using watcher_tick_ok by blast
  next
    case (others d' d)
    have "map (counted (wt_decimals w) d' dev) (chain_events d) = map (counted (wt_decimals w) d dev) (chain_events d)" for dev
      using others(4) by (auto simp: counted_def)
    then have "sum_list (map (counted (wt_decimals w) d' dev) (chain_events d)) = sum_list (map (counted (wt_decimals w) d dev) (chain_events d))" for dev
      by (rule arg_cong)
    then show ?case using others by (auto simp: mirror_ok_def intro: less_le_trans)
  qed
qed

text \<open>A deposit whose wallet is unknown is marked processed and credits nobody.  When the wallet is registered
  afterwards and the deposit's block is then orphaned, its reversal debits the new developer.\<close>

lemma uncredited_reversal:
  assumes ev: "ev_event_name ev = ''Deposited''" "event_wallet ev = Inr wl" "event_units ev = Inr u" "0 \<le> from_units u (wt_decimals w)"
    and unknown: "developer_for wl d = None" "deep w latest ev"
    and applied: "apply_one now w latest ev d res = (r1, res1)"
    and dev: "dv_wallet_address dv = Some (to_lower wl)"
    and orphaned: "canonical R latest' (ev_block_number ev) = Inr good" "good \<noteq> Some (ev_block_hash ev)"
  shows "\<exists>d1 d3 res3. r1 = Inr d1 \<and> mirrored (dv_id dv) d1 = mirrored (dv_id dv) d
     \<and> check_event R now' w latest' (ev\<lparr>ev_confirmed := True, ev_processed := True\<rparr>) (d1\<lparr>developers := developers d1 @ [dv]\<rparr>) res2 = (Inr d3, res3)
     \<and> mirrored (dv_id dv) d3 = mirrored (dv_id dv) d - from_units u (wt_decimals w)"
proof -
  let ?final = "ev\<lparr>ev_confirmed := True, ev_processed := True\<rparr>" and ?x = "from_units u (wt_decimals w)"
  let ?d1 = "put_event ?final d" and ?d2 = "(put_event ?final d)\<lparr>developers := developers d @ [dv]\<rparr>"
  have r1: "r1 = Inr ?d1"
    using applied ev(1,2) unknown by (auto simp: apply_one_def apply_effect_def deep_def Let_def EFFECTFUL_iff)
  have same: "event_wallet ?final = Inr wl" "event_units ?final = Inr u" using ev(2,3) by (simp_all add: event_wallet_def event_units_def)
  have "developer_for wl ?d2 = Some dv"
    using unknown(1) dev by (simp add: developer_for_def find_append)
  moreover obtain g d3 where p: "post_transaction now' (withdraw_postings (dv_id dv) ?x) (''reorg_reverse_'' @ to_lower (ev_event_name ev)) None (Some (ev_tx_hash ev)) ?d2 = Inr (g, d3)"
    using post_transaction_ex [of "withdraw_postings (dv_id dv) ?x"] ev(4) by (fastforce simp: withdraw_postings_def)
  ultimately have rev: "reverse_effect now' w ?final ?d2 res = (Inr d3, res\<lparr>sr_reversed_effects := sr_reversed_effects res + 1\<rparr>)" for res
    using same ev(1) by (simp add: reverse_effect_def bindE_def)
  have e: "ev_event_name ev \<in> set EFFECTFUL" using ev(1) by (simp add: EFFECTFUL_iff)
  have "\<exists>res3. check_event R now' w latest' ?final ?d2 res2 = (Inr (delete_event ?final d3), res3)"
    using orphaned e rev by (simp add: check_event_def Let_def)
  moreover have "developers ?d1 = developers d" "mirrored (dv_id dv) ?d1 = mirrored (dv_id dv) d" "mirrored (dv_id dv) ?d2 = mirrored (dv_id dv) d"
    by (simp_all add: put_event_def mirrored_def)
  moreover have "mirrored (dv_id dv) (delete_event ?final d3) = mirrored (dv_id dv) d3" by (simp add: delete_event_def mirrored_def)
  moreover have "mirrored (dv_id dv) d3 = mirrored (dv_id dv) ?d2 - ?x"
    using post_mirrored(1) [OF p, of "dv_id dv"] chain_reasons(3) [OF e] by (simp add: postings_effect)
  ultimately show ?thesis using r1 by (intro exI [of _ ?d1] exI [of _ "delete_event ?final d3"]) auto
qed

end
