(* ===== verification/Settlement.thy ===== *)
theory Settlement
  imports Ledger Config Chain_Client Systems
begin

text \<open>
  The settlement engine of \<open>api/app/chain/settlement.py\<close>.  A method that runs inside a session answers the new
  database or the error that rolls the session back; the chain, the cycle's counters and the engine's own
  fields are threaded separately because a rollback does not undo them.  The engine is a function of a client,
  so every result holds for any chain with the contract \<open>payout_chain\<close>; \<open>engine_step\<close> interleaves its sessions
  with crashes, with the network and with the ledger of the coordinator.  \<open>paid_once\<close> is the invariant: every
  transaction ever broadcast belongs to the one row that reserved its nonce, so what the chain has paid is at
  most what the live rows reserve, and what they reserve is at most what the providers have earned.
\<close>

section \<open>State\<close>

definition LIVE :: "ChainTxStatus list" where
  "LIVE = [cs_pending, cs_submitted, cs_confirmed]"

record CycleResult =
  cy_recovered :: int
  cy_confirmed :: int
  cy_failed :: int
  cy_batched :: int
  cy_batch_tx :: "string option"
  cy_debited :: int
  cy_skipped_no_wallet :: "string list"

definition new_cycle :: CycleResult where
  "new_cycle = \<lparr> cy_recovered = 0, cy_confirmed = 0, cy_failed = 0, cy_batched = 0, cy_batch_tx = None,
     cy_debited = 0, cy_skipped_no_wallet = [] \<rparr>"

record engine =
  eg_decimals :: nat
  eg_confirmations :: int
  eg_threshold_units :: int
  eg_interval :: rat
  eg_last_batch_at :: "instant option"

definition SettlementEngine :: "Settings \<Rightarrow> err + engine" where
  "SettlementEngine settings =
     bindE (to_units (settlement_threshold_usdc settings) (usdc_decimals settings)) (\<lambda>units.
       Inr \<lparr> eg_decimals = usdc_decimals settings, eg_confirmations = chain_confirmations settings,
             eg_threshold_units = units, eg_interval = settlement_interval_seconds settings, eg_last_batch_at = None \<rparr>)"

definition put_settlement :: "ChainSettlement \<Rightarrow> db \<Rightarrow> db" where
  "put_settlement row d = d\<lparr>chain_settlements := tput st_id row (chain_settlements d)\<rparr>"

text \<open>The inserts of a flush: \<open>batch_key\<close> is unique.\<close>

definition add_settlement :: "ChainSettlement \<Rightarrow> db \<Rightarrow> err + db" where
  "add_settlement row d =
     (if st_batch_key row \<in> st_batch_key ` set (chain_settlements d) then Inl (IntegrityError ''chain_settlements.batch_key'')
      else Inr (d\<lparr>chain_settlements := chain_settlements d @ [row], next_id := Suc (next_id d)\<rparr>))"

text \<open>The updates of a flush: \<open>tx_hash\<close> is unique where it is set.\<close>

definition flush_hashes :: "db \<Rightarrow> err + db" where
  "flush_hashes d =
     (if distinct (filter (\<lambda>h. h \<noteq> None) (map st_tx_hash (chain_settlements d))) then Inr d
      else Inl (IntegrityError ''chain_settlements.tx_hash''))"

definition pending_row :: "instant \<Rightarrow> ChainTxKind \<Rightarrow> string \<Rightarrow> int \<Rightarrow> Payload \<Rightarrow> uuid \<Rightarrow> ChainSettlement" where
  "pending_row now kind batch_key nonce payload k =
     \<lparr> st_id = k, st_kind = kind, st_status = cs_pending, st_batch_key = batch_key, st_nonce = Some nonce,
       st_tx_hash = None, st_block_number = None, st_payload = Some payload, st_error = None, st_created_at = now,
       st_submitted_at = None, st_confirmed_at = None \<rparr>"

section \<open>Reads\<close>

definition row_in_flight :: "ChainSettlement \<Rightarrow> bool" where
  "row_in_flight row \<longleftrightarrow> st_status row \<in> {cs_pending, cs_submitted}"

definition inflight :: "db \<Rightarrow> nat" where
  "inflight d = length (filter row_in_flight (chain_settlements d))"

definition earned_by_provider :: "db \<Rightarrow> (uuid \<times> money) list" where
  "earned_by_provider d =
     filter (\<lambda>(_, bal). bal > 0)
       (map (\<lambda>ref. (ref, account_balance la_provider (Some ref) d))
         (remdups (List.map_filter (\<lambda>e. if le_account e = la_provider then le_account_ref e else None) (ledger_entries d))))"

definition reserved_by_provider :: "db \<Rightarrow> uuid \<Rightarrow> int" where
  "reserved_by_provider d pid =
     sum_list (map ps_amount_units (filter (\<lambda>r. ps_provider_id r = pid
       \<and> (\<exists>row \<in> set (chain_settlements d). st_id row = ps_settlement_id r \<and> st_status row \<in> set LIVE))
       (provider_settlements d)))"

text \<open>The wallets of the providers in a set; a row whose provider is missing has no wallet.\<close>

definition unsettled_one :: "engine \<Rightarrow> db \<Rightarrow> uuid \<times> money \<Rightarrow> (uuid \<times> string \<times> int) list \<times> string list" where
  "unsettled_one eng d = (\<lambda>(pid, earned).
     (let units = units_of earned (eg_decimals eng) - reserved_by_provider d pid in
      if units \<le> 0 then ([], [])
      else
        (case get_provider pid d of
           None \<Rightarrow> ([], [uuid_str pid])
         | Some p \<Rightarrow> if pr_wallet_address p = [] then ([], [uuid_str pid])
                    else ([(pid, pr_wallet_address p, units)], []))))"

definition unsettled :: "engine \<Rightarrow> db \<Rightarrow> (uuid \<times> string \<times> int) list \<times> string list" where
  "unsettled eng d =
     (let rs = map (unsettled_one eng d) (earned_by_provider d) in (concat (map fst rs), concat (map snd rs)))"

definition reserve_base_nonce :: "'c client \<Rightarrow> 'c \<Rightarrow> db \<Rightarrow> err + int" where
  "reserve_base_nonce C c d =
     bindE (cl_get_nonce C c) (\<lambda>chain_nonce.
       Inr (max chain_nonce
              (case List.map_filter st_nonce (chain_settlements d) of
                 [] \<Rightarrow> 0 | n # ns \<Rightarrow> Max (set (n # ns)) + 1)))"

definition interval_elapsed :: "instant \<Rightarrow> engine \<Rightarrow> bool" where
  "interval_elapsed now eng =
     (case eg_last_batch_at eng of
        None \<Rightarrow> True
      | Some t \<Rightarrow> dbl (of_int (now - t) / 10 ^ 6) \<ge> dbl (eg_interval eng))"

section \<open>Recovery\<close>

definition call_of :: "ChainSettlement \<Rightarrow> err + Call" where
  "call_of row =
     (case st_payload row of
        None \<Rightarrow> Inl TypeError
      | Some payload \<Rightarrow>
          (case (st_kind row, payload) of
             (ck_settle_batch, PayBatch ps) \<Rightarrow> Inr (SettleBatch (map fst ps) (map snd ps))
           | (ck_deposit_settlement, PayFund x) \<Rightarrow> Inr (DepositSettlement x)
           | (ck_deposit_settlement, PayDebit _ x) \<Rightarrow> Inr (DepositSettlement x)
           | (ck_debit, PayDebit w x) \<Rightarrow> Inr (Debit w x)
           | _ \<Rightarrow> Inl KeyError))"

definition broadcast :: "'c client \<Rightarrow> ChainSettlement \<Rightarrow> 'c \<Rightarrow> (err + ChainSettlement) \<times> 'c" where
  "broadcast C row c =
     (case (call_of row, st_nonce row) of
        (Inl e, _) \<Rightarrow> (Inl e, c)
      | (_, None) \<Rightarrow> (Inl TypeError, c)
      | (Inr call, Some nonce) \<Rightarrow>
          (case cl_send C call nonce c of
             (Inl e, c) \<Rightarrow> (Inl e, c)
           | (Inr tx_hash, c) \<Rightarrow> (Inr (row\<lparr>st_tx_hash := Some tx_hash\<rparr>), c)))"

text \<open>The receipt half of the loop body.\<close>

definition settle_receipt ::
    "'c client \<Rightarrow> engine \<Rightarrow> instant \<Rightarrow> int \<Rightarrow> ChainSettlement \<Rightarrow> db \<Rightarrow> CycleResult \<Rightarrow> 'c \<Rightarrow> (err + db) \<times> CycleResult" where
  "settle_receipt C eng now latest row d res c =
     (case (case st_tx_hash row of
              None \<Rightarrow> Inr None
            | Some h \<Rightarrow> if h = [] then Inr None else cl_get_receipt C h c) of
        Inl e \<Rightarrow> (Inl e, res)
      | Inr None \<Rightarrow> (Inr d, res)
      | Inr (Some receipt) \<Rightarrow>
          if latest - rc_block_number receipt + 1 < eg_confirmations eng then (Inr d, res)
          else if rc_status receipt = 1 then
            (Inr (put_settlement (row\<lparr>st_status := cs_confirmed, st_block_number := Some (rc_block_number receipt),
                                     st_confirmed_at := Some now\<rparr>) d),
             res\<lparr>cy_confirmed := cy_confirmed res + 1\<rparr>)
          else
            (let d = put_settlement (row\<lparr>st_status := cs_failed, st_error := Some ''reverted on-chain''\<rparr>) d in
             case flush_hashes d of
               Inl e \<Rightarrow> (Inl e, res)
             | Inr d \<Rightarrow>
                 (Inr (d\<lparr>provider_settlements := filter (\<lambda>r. ps_settlement_id r \<noteq> st_id row) (provider_settlements d)\<rparr>),
                  res\<lparr>cy_failed := cy_failed res + 1\<rparr>)))"

definition recover_row ::
    "'c client \<Rightarrow> engine \<Rightarrow> instant \<Rightarrow> int \<Rightarrow> ChainSettlement \<Rightarrow> db \<Rightarrow> CycleResult \<Rightarrow> 'c
     \<Rightarrow> (err + db) \<times> CycleResult \<times> 'c" where
  "recover_row C eng now latest row d res c =
     (if st_status row = cs_pending \<or> st_tx_hash row = None then
        (case broadcast C row c of
           (Inl (ChainError _), c) \<Rightarrow> (Inr d, res, c)
         | (Inl e, c) \<Rightarrow> (Inl e, res, c)
         | (Inr row, c) \<Rightarrow>
             (let row = row\<lparr>st_status := cs_submitted, st_submitted_at := Some now\<rparr>;
                  d = put_settlement row d;
                  res = res\<lparr>cy_recovered := cy_recovered res + 1,
                            cy_batch_tx := (if st_kind row = ck_settle_batch then st_tx_hash row else cy_batch_tx res)\<rparr>;
                  (r, res) = settle_receipt C eng now latest row d res c
              in (r, res, c)))
      else (let (r, res) = settle_receipt C eng now latest row d res c in (r, res, c)))"

fun recover_rows ::
    "'c client \<Rightarrow> engine \<Rightarrow> instant \<Rightarrow> int \<Rightarrow> ChainSettlement list \<Rightarrow> db \<Rightarrow> CycleResult \<Rightarrow> 'c
     \<Rightarrow> (err + db) \<times> CycleResult \<times> 'c" where
  "recover_rows C eng now latest [] d res c = (Inr d, res, c)"
| "recover_rows C eng now latest (row # rows) d res c =
     (case recover_row C eng now latest row d res c of
        (Inl e, res, c) \<Rightarrow> (Inl e, res, c)
      | (Inr d, res, c) \<Rightarrow> recover_rows C eng now latest rows d res c)"

definition nonce_key :: "ChainSettlement \<Rightarrow> int" where
  "nonce_key row = (case st_nonce row of None \<Rightarrow> -1 | Some n \<Rightarrow> n)"

definition recover :: "'c client \<Rightarrow> engine \<Rightarrow> instant \<Rightarrow> db \<Rightarrow> CycleResult \<Rightarrow> 'c \<Rightarrow> (err + db) \<times> CycleResult \<times> 'c" where
  "recover C eng now d res c =
     (let rows = sort_key nonce_key (filter row_in_flight (chain_settlements d)) in
      case (if rows = [] then Inr 0 else cl_latest_block C c) of
        Inl e \<Rightarrow> (Inl e, res, c)
      | Inr latest \<Rightarrow>
          (case recover_rows C eng now latest rows d res c of
             (Inl e, res, c) \<Rightarrow> (Inl e, res, c)
           | (Inr d, res, c) \<Rightarrow> (flush_hashes d, res, c)))"

section \<open>A new batch\<close>

fun reserve_legs :: "uuid \<Rightarrow> (uuid \<times> string \<times> int) list \<Rightarrow> db \<Rightarrow> db" where
  "reserve_legs sid [] d = d"
| "reserve_legs sid ((pid, wallet, units) # ps) d =
     reserve_legs sid ps (d\<lparr>provider_settlements := provider_settlements d
         @ [\<lparr> ps_id = next_id d, ps_provider_id = pid, ps_settlement_id = sid, ps_amount_units = units \<rparr>],
       next_id := Suc (next_id d)\<rparr>)"

definition record_batch ::
    "instant \<Rightarrow> string \<Rightarrow> int \<Rightarrow> int \<Rightarrow> (uuid \<times> string \<times> int) list \<Rightarrow> db \<Rightarrow> err + db" where
  "record_batch now cycle base_nonce shortfall payees d =
     bindE (if shortfall > 0
            then add_settlement (pending_row now ck_deposit_settlement (''deposit:'' @ cycle) base_nonce (PayFund shortfall) (next_id d)) d
            else Inr d) (\<lambda>d.
       let settle_nonce = base_nonce + (if shortfall > 0 then 1 else 0);
           settle_row = pending_row now ck_settle_batch (''settle:'' @ cycle) settle_nonce (PayBatch (map snd payees)) (next_id d)
       in bindE (add_settlement settle_row d) (\<lambda>d. Inr (reserve_legs (st_id settle_row) payees d)))"

definition maybe_batch ::
    "'c client \<Rightarrow> instant \<Rightarrow> string \<Rightarrow> bool \<Rightarrow> engine \<Rightarrow> db \<Rightarrow> CycleResult \<Rightarrow> 'c \<Rightarrow> (err + db) \<times> CycleResult \<times> engine" where
  "maybe_batch C now cycle force eng d res c =
     (if inflight d > 0 then (Inr d, res, eng)
      else
        (let (owed, skipped) = unsettled eng d;
             res = res\<lparr>cy_skipped_no_wallet := cy_skipped_no_wallet res @ skipped\<rparr>;
             total = sum_list (map (snd \<circ> snd) owed)
         in if total \<le> 0 then (Inr d, res, eng)
            else if \<not> (force \<or> total \<ge> eg_threshold_units eng \<or> interval_elapsed now eng) then (Inr d, res, eng)
            else
              (let payees = sort_key fst owed in
               case bindE (reserve_base_nonce C c d) (\<lambda>base_nonce.
                      bindE (cl_settlement_pool C c) (\<lambda>pool.
                        record_batch now cycle base_nonce (max 0 (total - pool)) payees d)) of
                 Inl e \<Rightarrow> (Inl e, res, eng)
               | Inr d \<Rightarrow> (Inr d, res\<lparr>cy_batched := int (length payees)\<rparr>, eng\<lparr>eg_last_batch_at := Some now\<rparr>))))"

section \<open>Developer debits\<close>

definition settled_units_by_dev :: "engine \<Rightarrow> db \<Rightarrow> (uuid \<times> int) list" where
  "settled_units_by_dev eng d =
     (let es = filter (\<lambda>e. le_account e = la_escrow \<and> le_direction e = ld_debit \<and> le_reason e = ''settle''
                        \<and> le_account_ref e \<noteq> None) (ledger_entries d)
      in map (\<lambda>ref. (ref, units_of (sum_list (map le_amount (filter (\<lambda>e. le_account_ref e = Some ref) es))) (eg_decimals eng)))
           (remdups (List.map_filter le_account_ref es)))"

definition wallet_to_dev :: "db \<Rightarrow> string \<Rightarrow> uuid option" where
  "wallet_to_dev d w =
     map_of (rev (List.map_filter (\<lambda>dev. case dv_wallet_address dev of None \<Rightarrow> None | Some a \<Rightarrow> Some (to_lower a, dv_id dev))
                   (developers d))) w"

text \<open>The wallet and amount of a debit row; a row of that kind always has them.\<close>

definition debit_of :: "ChainSettlement \<Rightarrow> (string \<times> int) option" where
  "debit_of row = (case st_payload row of Some (PayDebit w x) \<Rightarrow> Some (w, x) | _ \<Rightarrow> None)"

definition onchain_debited_by_dev :: "db \<Rightarrow> uuid \<Rightarrow> int" where
  "onchain_debited_by_dev d dev_id =
     sum_list (map (\<lambda>row. case debit_of row of
                            Some (w, x) \<Rightarrow> if wallet_to_dev d (to_lower w) = Some dev_id then x else 0
                          | None \<Rightarrow> 0)
       (filter (\<lambda>row. st_kind row = ck_debit \<and> st_status row \<in> set LIVE) (chain_settlements d)))"

definition dev_wallet :: "db \<Rightarrow> uuid \<Rightarrow> string option" where
  "dev_wallet d dev_id = (case tget dv_id dev_id (developers d) of None \<Rightarrow> None | Some dev \<Rightarrow> dv_wallet_address dev)"

fun record_debits ::
    "instant \<Rightarrow> int \<Rightarrow> (uuid \<Rightarrow> int) \<Rightarrow> (uuid \<Rightarrow> string option) \<Rightarrow> (uuid \<times> int) list \<Rightarrow> int \<Rightarrow> CycleResult \<Rightarrow> db
     \<Rightarrow> (err + db) \<times> CycleResult" where
  "record_debits now base debited wallets [] offset res d = (Inr d, res)"
| "record_debits now base debited wallets ((dev_id, settled_units) # devs) offset res d =
     (let owed = settled_units - debited dev_id in
      case wallets dev_id of
        None \<Rightarrow> record_debits now base debited wallets devs offset res d
      | Some wallet \<Rightarrow>
          if owed \<le> 0 \<or> wallet = [] then record_debits now base debited wallets devs offset res d
          else
            (case add_settlement (pending_row now ck_debit (''debit:'' @ uuid_str dev_id @ '':'' @ int_str settled_units)
                                    (base + offset) (PayDebit wallet owed) (next_id d)) d of
               Inl e \<Rightarrow> (Inl e, res)
             | Inr d \<Rightarrow> record_debits now base debited wallets devs (offset + 1) (res\<lparr>cy_debited := cy_debited res + 1\<rparr>) d))"

definition maybe_debit ::
    "'c client \<Rightarrow> instant \<Rightarrow> bool \<Rightarrow> engine \<Rightarrow> db \<Rightarrow> CycleResult \<Rightarrow> 'c \<Rightarrow> (err + db) \<times> CycleResult" where
  "maybe_debit C now force eng d res c =
     (if inflight d > 0 then (Inr d, res)
      else
        (let settled = settled_units_by_dev eng d in
         if \<not> (force \<or> interval_elapsed now eng) then (Inr d, res)
         else
           (case reserve_base_nonce C c d of
              Inl e \<Rightarrow> (Inl e, res)
            | Inr base \<Rightarrow>
                record_debits now base (onchain_debited_by_dev d) (dev_wallet d) (sort_key fst settled) 0 res d)))"

section \<open>A tick\<close>

text \<open>Four sessions in a row; the first error ends the tick and is only logged.\<close>

definition tick ::
    "'c client \<Rightarrow> instant \<Rightarrow> string \<Rightarrow> bool \<Rightarrow> engine \<Rightarrow> db \<Rightarrow> 'c \<Rightarrow> CycleResult \<times> engine \<times> db \<times> 'c" where
  "tick C now cycle force eng d c =
     (case recover C eng now d new_cycle c of
        (Inl _, res, c) \<Rightarrow> (res, eng, d, c)
      | (Inr d, res, c) \<Rightarrow>
          (case maybe_batch C now cycle force eng d res c of
             (Inl _, res, eng) \<Rightarrow> (res, eng, d, c)
           | (Inr d, res, eng) \<Rightarrow>
               (case maybe_debit C now force eng d res c of
                  (Inl _, res) \<Rightarrow> (res, eng, d, c)
                | (Inr d, res) \<Rightarrow>
                    (case recover C eng now d res c of
                       (Inl _, res, c) \<Rightarrow> (res, eng, d, c)
                     | (Inr d, res, c) \<Rightarrow> (res, eng, d, c)))))"

section \<open>The engine in its environment\<close>

text \<open>A session commits, or it is cut short by a crash or an error: then its broadcasts stay and its rows do not.
  Between two sessions the network moves, the process restarts, and the coordinator posts to the ledger, where
  the account of a provider is only ever credited.\<close>

definition recovery_rows :: "db \<Rightarrow> ChainSettlement list" where
  "recovery_rows d = sort_key nonce_key (filter row_in_flight (chain_settlements d))"

inductive engine_step :: "'c client \<Rightarrow> ('c \<Rightarrow> 'c \<Rightarrow> bool) \<Rightarrow> engine \<times> db \<times> 'c \<Rightarrow> engine \<times> db \<times> 'c \<Rightarrow> bool"
  for C net where
  recovered: "recover C eng now d res c = (Inr d', res', c') \<Longrightarrow> engine_step C net (eng, d, c) (eng, d', c')"
| interrupted: "recover_rows C eng now latest (take k (recovery_rows d)) d res c = (r, res', c')
    \<Longrightarrow> engine_step C net (eng, d, c) (eng, d, c')"
| batched: "maybe_batch C now cycle force eng d res c = (Inr d', res', eng') \<Longrightarrow> engine_step C net (eng, d, c) (eng', d', c)"
| debited: "maybe_debit C now force eng d res c = (Inr d', res') \<Longrightarrow> engine_step C net (eng, d, c) (eng, d', c)"
| restarted: "engine_step C net (eng, d, c) (eng\<lparr>eg_last_batch_at := None\<rparr>, d, c)"
| network: "net c c' \<Longrightarrow> engine_step C net (eng, d, c) (eng, d, c')"
| ledger: "chain_settlements d' = chain_settlements d \<Longrightarrow> provider_settlements d' = provider_settlements d
    \<Longrightarrow> next_id d \<le> next_id d' \<Longrightarrow> \<forall>p. account_balance la_provider (Some p) d \<le> account_balance la_provider (Some p) d'
    \<Longrightarrow> engine_step C net (eng, d, c) (eng, d', c)"

section \<open>The invariant\<close>

text \<open>A row and the transaction it stands for.\<close>

definition stands_for :: "ChainSettlement \<Rightarrow> int \<Rightarrow> Call \<Rightarrow> bool" where
  "stands_for row n call \<longleftrightarrow> st_nonce row = Some n \<and> call_of row = Inr call"

definition earned_units :: "nat \<Rightarrow> db \<Rightarrow> uuid \<Rightarrow> int" where
  "earned_units decimals d pid = max 0 (units_of (account_balance la_provider (Some pid) d) decimals)"

text \<open>The tables alone: one nonce a row, and the legs of a live batch are its payload.\<close>

definition rows_ok :: "nat \<Rightarrow> db \<Rightarrow> bool" where
  "rows_ok decimals d \<longleftrightarrow>
     distinct (map st_id (chain_settlements d)) \<and> distinct (map st_nonce (chain_settlements d))
     \<and> (\<forall>row \<in> set (chain_settlements d). st_id row < next_id d \<and> (\<exists>n call. stands_for row n call)
          \<and> (st_kind row = ck_settle_batch \<and> st_status row \<noteq> cs_failed \<longrightarrow>
               (\<exists>ps. st_payload row = Some (PayBatch ps) \<and>
                  map snd ps = map ps_amount_units (filter (\<lambda>r. ps_settlement_id r = st_id row) (provider_settlements d)))))
     \<and> (\<forall>r \<in> set (provider_settlements d). ps_settlement_id r < next_id d \<and> 0 < ps_amount_units r)
     \<and> (\<forall>p. reserved_by_provider d p \<le> earned_units decimals d p)"

text \<open>The rows against the chain: a hash is that of the row's own transaction, and a settled row tells how that
  transaction went.\<close>

definition row_agrees :: "(string \<times> int \<times> Call) set \<Rightarrow> (string \<times> int \<times> Call \<times> int) set \<Rightarrow> ChainSettlement \<Rightarrow> bool" where
  "row_agrees X E row \<longleftrightarrow>
     (\<forall>h. st_tx_hash row = Some h \<longrightarrow> (\<exists>n call. stands_for row n call \<and> (h, n, call) \<in> X))
     \<and> (st_status row = cs_failed \<longrightarrow> (\<exists>h n call st. stands_for row n call \<and> (h, n, call, st) \<in> E \<and> st \<noteq> 1))
     \<and> (st_status row = cs_confirmed \<longrightarrow> (\<exists>h n call. stands_for row n call \<and> (h, n, call, 1) \<in> E))"

definition chain_agrees ::
    "('c \<Rightarrow> bool) \<Rightarrow> ('c \<Rightarrow> (string \<times> int \<times> Call) set) \<Rightarrow> ('c \<Rightarrow> (string \<times> int \<times> Call \<times> int) list) \<Rightarrow> db \<Rightarrow> 'c \<Rightarrow> bool" where
  "chain_agrees ok sent executed d c \<longleftrightarrow> ok c
     \<and> (\<forall>(h, n, call) \<in> sent c. \<exists>row \<in> set (chain_settlements d). stands_for row n call)
     \<and> (\<forall>row \<in> set (chain_settlements d). row_agrees (sent c) (set (executed c)) row)"

lemma row_agrees_mono: "row_agrees X E row \<Longrightarrow> X \<subseteq> X' \<Longrightarrow> E \<subseteq> E' \<Longrightarrow> row_agrees X' E' row"
  unfolding row_agrees_def by blast

subsection \<open>Changing a row\<close>

definition same_work :: "ChainSettlement \<Rightarrow> ChainSettlement \<Rightarrow> bool" where
  "same_work r r' \<longleftrightarrow> st_id r' = st_id r \<and> st_nonce r' = st_nonce r \<and> st_kind r' = st_kind r \<and> st_payload r' = st_payload r"

lemma same_work_stands: "same_work r r' \<Longrightarrow> stands_for r' n call = stands_for r n call"
  unfolding same_work_def stands_for_def call_of_def by (elim conjE) (simp only:)

lemma stands_unique:
  assumes "rows_ok k d" "r \<in> set (chain_settlements d)" "r' \<in> set (chain_settlements d)" "stands_for r n call" "stands_for r' n call'"
  shows "r = r'"
proof -
  have "inj_on st_nonce (set (chain_settlements d))" using assms(1) by (simp add: rows_ok_def distinct_map)
  then show ?thesis using assms(2-5) by (simp add: inj_on_def stands_for_def)
qed

lemma sum_filter_mono:
  fixes f :: "'a \<Rightarrow> int"
  shows "\<forall>x \<in> set xs. 0 \<le> f x \<Longrightarrow> (\<And>x. x \<in> set xs \<Longrightarrow> P x \<Longrightarrow> Q x) \<Longrightarrow> sum_list (map f (filter P xs)) \<le> sum_list (map f (filter Q xs))"
  by (induction xs) (auto simp: add_increasing)

lemma live_iff: "st \<in> set LIVE \<longleftrightarrow> st \<noteq> cs_failed"
  by (cases st) (auto simp: LIVE_def)

text \<open>A step of one row that keeps the work it stands for: while it stays live, its legs stay; when it fails, they go.\<close>

lemma rows_ok_update:
  assumes ok: "rows_ok k d" and row: "row \<in> set (chain_settlements d)" "same_work row row'" "st_status row \<noteq> cs_failed"
    and d': "chain_settlements d' = tput st_id row' (chain_settlements d)" "next_id d' = next_id d" "ledger_entries d' = ledger_entries d"
    and legs: "provider_settlements d' = (if st_status row' = cs_failed
                 then filter (\<lambda>r. ps_settlement_id r \<noteq> st_id row) (provider_settlements d) else provider_settlements d)"
  shows "rows_ok k d'"
proof -
  let ?S = "chain_settlements d"
  have dist: "distinct (map st_id ?S)" "distinct (map st_nonce ?S)" using ok by (auto simp: rows_ok_def)
  have id: "st_id row' = st_id row" using row(2) by (simp add: same_work_def)
  have S': "set (chain_settlements d') = insert row' (set ?S - {row})" unfolding d'(1) by (rule tput_in [OF dist(1) row(1) id])
  have other: "st_id r \<noteq> st_id row" if "r \<in> set ?S - {row}" for r
    using that row(1) dist(1) by (auto simp: distinct_map dest: inj_onD)
  have nonces: "map st_nonce (chain_settlements d') = map st_nonce ?S"
    unfolding d'(1) using dist(1) row by (intro tput_map) (auto simp: distinct_map same_work_def dest: inj_onD)
  have old: "st_id r < next_id d \<and> (\<exists>n call. stands_for r n call)
      \<and> (st_kind r = ck_settle_batch \<and> st_status r \<noteq> cs_failed \<longrightarrow> (\<exists>ps. st_payload r = Some (PayBatch ps) \<and>
            map snd ps = map ps_amount_units (filter (\<lambda>x. ps_settlement_id x = st_id r) (provider_settlements d))))"
    if "r \<in> set ?S" for r using ok that by (auto simp: rows_ok_def)
  have legs_of: "filter (\<lambda>x. ps_settlement_id x = i) (provider_settlements d') = filter (\<lambda>x. ps_settlement_id x = i) (provider_settlements d)"
    if "st_status row' \<noteq> cs_failed \<or> i \<noteq> st_id row" for i
    using that by (auto simp: legs intro!: filter_cong)
  have new: "st_id r < next_id d' \<and> (\<exists>n call. stands_for r n call)
      \<and> (st_kind r = ck_settle_batch \<and> st_status r \<noteq> cs_failed \<longrightarrow> (\<exists>ps. st_payload r = Some (PayBatch ps) \<and>
            map snd ps = map ps_amount_units (filter (\<lambda>x. ps_settlement_id x = st_id r) (provider_settlements d'))))"
    if "r \<in> set (chain_settlements d')" for r
  proof (cases "r = row'")
    case True
    then show ?thesis using old [OF row(1)] row(2,3) same_work_stands [OF row(2)]
      by (auto simp: d'(2) legs_of same_work_def)
  next
    case False
    then have "r \<in> set ?S - {row}" using that S' by auto
    then show ?thesis using old [of r] other [of r] by (auto simp: d'(2) legs_of)
  qed
  have pos: "\<forall>r \<in> set (provider_settlements d). ps_settlement_id r < next_id d \<and> 0 < ps_amount_units r"
    using ok by (auto simp: rows_ok_def)
  have "reserved_by_provider d' p \<le> reserved_by_provider d p" for p
  proof -
    have live: "(\<exists>r \<in> set ?S. st_id r = i \<and> st_status r \<noteq> cs_failed)"
      if "r \<in> set (chain_settlements d')" "st_id r = i" "st_status r \<noteq> cs_failed" for r i
      using that row S' id by auto
    have "sum_list (map ps_amount_units (filter (\<lambda>r. ps_provider_id r = p
         \<and> (\<exists>row \<in> set (chain_settlements d'). st_id row = ps_settlement_id r \<and> st_status row \<in> set LIVE)) xs))
       \<le> sum_list (map ps_amount_units (filter (\<lambda>r. ps_provider_id r = p
         \<and> (\<exists>row \<in> set ?S. st_id row = ps_settlement_id r \<and> st_status row \<in> set LIVE)) xs))"
      if "\<forall>r \<in> set xs. 0 < ps_amount_units r" for xs
      using that live by (intro sum_filter_mono) (auto simp: live_iff)
    moreover have "reserved_by_provider (d'\<lparr>provider_settlements := provider_settlements d\<rparr>) p \<ge> reserved_by_provider d' p"
      using pos unfolding reserved_by_provider_def legs
      by (auto simp del: filter_filter simp: filter_filter intro!: sum_filter_mono)
    ultimately show ?thesis using pos by (fastforce simp: reserved_by_provider_def intro: order_trans)
  qed
  moreover have "earned_units k d' p = earned_units k d p" for p
    by (simp add: earned_units_def account_balance_def sum_side_def d'(3))
  ultimately have "reserved_by_provider d' p \<le> earned_units k d' p" for p
    using ok by (metis rows_ok_def order_trans)
  moreover have "distinct (map st_id (chain_settlements d'))" using dist(1) by (simp add: d'(1))
  moreover have "\<forall>r \<in> set (provider_settlements d'). ps_settlement_id r < next_id d' \<and> 0 < ps_amount_units r"
    using pos by (auto simp: legs d'(2))
  ultimately show ?thesis unfolding rows_ok_def using dist(2) nonces new by simp
qed

subsection \<open>Recording a row\<close>

lemma rows_ok_add:
  assumes ok: "rows_ok k d"
    and row: "st_id row = next_id d" "stands_for row n call" "\<forall>r \<in> set (chain_settlements d). \<forall>m. st_nonce r = Some m \<longrightarrow> m < n"
      "st_status row \<noteq> cs_failed"
    and d': "chain_settlements d' = chain_settlements d @ [row]" "provider_settlements d' = provider_settlements d @ legs"
      "next_id d < next_id d'" "ledger_entries d' = ledger_entries d"
    and legs: "\<forall>r \<in> set legs. ps_settlement_id r = next_id d \<and> 0 < ps_amount_units r"
      "st_kind row = ck_settle_batch \<Longrightarrow> \<exists>ps. st_payload row = Some (PayBatch ps) \<and> map snd ps = map ps_amount_units legs"
    and room: "\<And>p. reserved_by_provider d p + sum_list (map ps_amount_units (filter (\<lambda>r. ps_provider_id r = p) legs)) \<le> earned_units k d p"
  shows "rows_ok k d'"
proof -
  have old: "st_id r < next_id d" if "r \<in> set (chain_settlements d)" for r using ok that by (auto simp: rows_ok_def)
  have old_legs: "ps_settlement_id r < next_id d" "0 < ps_amount_units r" if "r \<in> set (provider_settlements d)" for r
    using ok that by (auto simp: rows_ok_def)
  have "st_nonce row \<notin> st_nonce ` set (chain_settlements d)" using row(2,3) by (force simp: stands_for_def)
  moreover have "st_id row \<notin> st_id ` set (chain_settlements d)" using row(1) by (auto dest: old)
  ultimately have dist: "distinct (map st_id (chain_settlements d'))" "distinct (map st_nonce (chain_settlements d'))"
    using ok by (simp_all add: rows_ok_def d'(1))
  have "filter (\<lambda>x. ps_settlement_id x = st_id row) (provider_settlements d) = []"
    using old_legs row(1) by (fastforce simp: filter_empty_conv)
  then have new_legs: "filter (\<lambda>x. ps_settlement_id x = st_id row) (provider_settlements d') = legs"
    using legs(1) row(1) by (auto simp: d'(2) intro: filter_True)
  have same_legs: "filter (\<lambda>x. ps_settlement_id x = st_id r) (provider_settlements d') = filter (\<lambda>x. ps_settlement_id x = st_id r) (provider_settlements d)"
    if "r \<in> set (chain_settlements d)" for r
    using legs(1) old [OF that] by (auto simp: d'(2) filter_empty_conv)
  have rows: "st_id r < next_id d' \<and> (\<exists>n call. stands_for r n call)
      \<and> (st_kind r = ck_settle_batch \<and> st_status r \<noteq> cs_failed \<longrightarrow> (\<exists>ps. st_payload r = Some (PayBatch ps) \<and>
            map snd ps = map ps_amount_units (filter (\<lambda>x. ps_settlement_id x = st_id r) (provider_settlements d'))))"
    if "r \<in> set (chain_settlements d')" for r
  proof (cases "r \<in> set (chain_settlements d)")
    case True
    then show ?thesis using ok d'(3) same_legs by (auto simp: rows_ok_def intro: less_trans)
  next
    case False
    then have "r = row" using that by (simp add: d'(1))
    then show ?thesis using row(1,2) d'(3) legs(2) new_legs by auto
  qed
  have res: "reserved_by_provider d' p = reserved_by_provider d p + sum_list (map ps_amount_units (filter (\<lambda>r. ps_provider_id r = p) legs))" for p
  proof -
    have "(\<exists>x \<in> set (chain_settlements d'). st_id x = ps_settlement_id r \<and> st_status x \<in> set LIVE)
        = (\<exists>x \<in> set (chain_settlements d). st_id x = ps_settlement_id r \<and> st_status x \<in> set LIVE)" if "r \<in> set (provider_settlements d)" for r
      using old_legs(1) [OF that] row(1) by (auto simp: d'(1))
    moreover have "\<exists>x \<in> set (chain_settlements d'). st_id x = ps_settlement_id r \<and> st_status x \<in> set LIVE" if "r \<in> set legs" for r
      using legs(1) that row(1,4) by (auto simp: d'(1) live_iff)
    ultimately show ?thesis
      by (simp add: reserved_by_provider_def d'(2) cong: filter_cong)
  qed
  have "earned_units k d' p = earned_units k d p" for p
    by (simp add: earned_units_def account_balance_def sum_side_def d'(4))
  then have "\<forall>p. reserved_by_provider d' p \<le> earned_units k d' p" using room res by simp
  moreover have "\<forall>r \<in> set (provider_settlements d'). ps_settlement_id r < next_id d' \<and> 0 < ps_amount_units r"
    using old_legs legs(1) d'(3) by (auto simp: d'(2) intro: less_trans)
  ultimately show ?thesis unfolding rows_ok_def using dist rows by blast
qed

lemma agrees_add:
  assumes "chain_agrees ok sent executed d c" "chain_settlements d' = chain_settlements d @ [row]"
    "st_tx_hash row = None" "st_status row = cs_pending"
  shows "chain_agrees ok sent executed d' c"
  using assms by (fastforce simp: chain_agrees_def row_agrees_def)

lemma agrees_cong:
  "chain_agrees ok sent executed d c \<Longrightarrow> chain_settlements d' = chain_settlements d \<Longrightarrow> chain_agrees ok sent executed d' c"
  by (simp add: chain_agrees_def)

subsection \<open>Recovery keeps the invariant\<close>

definition same_rows :: "db \<Rightarrow> db \<Rightarrow> bool" where
  "same_rows d d' \<longleftrightarrow> list_all2 same_work (chain_settlements d) (chain_settlements d')"

lemma same_rows_refl: "same_rows d d"
  by (auto simp: same_rows_def same_work_def intro: list_all2_refl)

lemma same_rows_trans: "same_rows d d1 \<Longrightarrow> same_rows d1 d2 \<Longrightarrow> same_rows d d2"
  unfolding same_rows_def by (rule list_all2_trans) (auto simp: same_work_def)

lemma same_rows_stands:
  "same_rows d d' \<Longrightarrow> (\<exists>row \<in> set (chain_settlements d'). stands_for row n call) = (\<exists>row \<in> set (chain_settlements d). stands_for row n call)"
  unfolding same_rows_def by (induction rule: list_all2_induct) (auto simp: same_work_stands)

lemma same_rows_put:
  assumes "rows_ok k d" "row \<in> set (chain_settlements d)" "same_work row row'" "chain_settlements d' = tput st_id row' (chain_settlements d)"
  shows "same_rows d d'"
proof -
  have "same_work r r" for r by (simp add: same_work_def)
  moreover have "same_work r row'" if "r \<in> set (chain_settlements d)" "st_id r = st_id row'" for r
    using that assms(1-3) by (auto simp: rows_ok_def distinct_map same_work_def dest: inj_onD)
  ultimately show ?thesis by (auto simp: same_rows_def assms(4) tput_def list_all2_conv_all_nth)
qed

text \<open>The three outcomes of a receipt check.\<close>

definition confirmed_row :: "instant \<Rightarrow> Receipt \<Rightarrow> ChainSettlement \<Rightarrow> ChainSettlement" where
  "confirmed_row now rc row = row\<lparr>st_status := cs_confirmed, st_block_number := Some (rc_block_number rc), st_confirmed_at := Some now\<rparr>"

definition failed_row :: "ChainSettlement \<Rightarrow> ChainSettlement" where
  "failed_row row = row\<lparr>st_status := cs_failed, st_error := Some ''reverted on-chain''\<rparr>"

lemma failed_confirmed_work: "same_work row (confirmed_row now rc row)" "same_work row (failed_row row)"
  "st_tx_hash (confirmed_row now rc row) = st_tx_hash row" "st_tx_hash (failed_row row) = st_tx_hash row"
  "st_status (confirmed_row now rc row) = cs_confirmed" "st_status (failed_row row) = cs_failed"
  by (simp_all add: same_work_def confirmed_row_def failed_row_def)

lemma settle_receipt_cases:
  assumes "settle_receipt C eng now latest row d res c = (Inr d', res')"
  obtains (waiting) "d' = d"
    | (confirmed) h rc where "st_tx_hash row = Some h" "cl_get_receipt C h c = Inr (Some rc)" "rc_status rc = 1"
        "d' = put_settlement (confirmed_row now rc row) d"
    | (failed) h rc where "st_tx_hash row = Some h" "cl_get_receipt C h c = Inr (Some rc)" "rc_status rc \<noteq> 1"
        "d' = (put_settlement (failed_row row) d)\<lparr>provider_settlements := filter (\<lambda>r. ps_settlement_id r \<noteq> st_id row) (provider_settlements d)\<rparr>"
proof (cases "case st_tx_hash row of None \<Rightarrow> Inr None | Some h \<Rightarrow> if h = [] then Inr None else cl_get_receipt C h c")
  case (Inl e)
  then show ?thesis using assms by (simp add: settle_receipt_def)
next
  case (Inr x)
  show ?thesis
  proof (cases x)
    case None
    then show ?thesis using assms Inr waiting by (simp add: settle_receipt_def)
  next
    case (Some rc)
    then obtain h where h: "st_tx_hash row = Some h" "cl_get_receipt C h c = Inr (Some rc)"
      using Inr by (auto split: option.splits if_splits)
    note s = assms [unfolded settle_receipt_def Inr Some sum.case option.case Let_def, folded confirmed_row_def failed_row_def]
    have p: "provider_settlements (put_settlement x d) = provider_settlements d" for x by (simp add: put_settlement_def)
    show ?thesis
      using s waiting confirmed [OF h] failed [OF h] by (auto simp: flush_hashes_def p split: if_splits)
  qed
qed

definition submitted_row :: "instant \<Rightarrow> string \<Rightarrow> ChainSettlement \<Rightarrow> ChainSettlement" where
  "submitted_row now h row = row\<lparr>st_tx_hash := Some h, st_status := cs_submitted, st_submitted_at := Some now\<rparr>"

lemma submitted_work: "same_work row (submitted_row now h row)" "st_tx_hash (submitted_row now h row) = Some h"
  "st_status (submitted_row now h row) = cs_submitted"
  by (simp_all add: same_work_def submitted_row_def)

lemma recover_row_sent:
  assumes "st_status row = cs_pending \<or> st_tx_hash row = None" "broadcast C row c = (Inr (row\<lparr>st_tx_hash := Some h\<rparr>), c1)"
    "recover_row C eng now latest row d res c = (r, res', c')"
  obtains res1 where "settle_receipt C eng now latest (submitted_row now h row) (put_settlement (submitted_row now h row) d) res1 c1 = (r, res')"
    "c' = c1"
proof -
  have "\<exists>res1. recover_row C eng now latest row d res c =
    (let (r, res) = settle_receipt C eng now latest (submitted_row now h row) (put_settlement (submitted_row now h row) d) res1 c1
     in (r, res, c1))"
    unfolding recover_row_def assms(2) submitted_row_def Let_def sum.case prod.case using assms(1) by (intro exI) (simp only: if_True)
  then obtain res1 where e: "recover_row C eng now latest row d res c =
    (let (r, res) = settle_receipt C eng now latest (submitted_row now h row) (put_settlement (submitted_row now h row) d) res1 c1
     in (r, res, c1))" by blast
  obtain x y where "settle_receipt C eng now latest (submitted_row now h row) (put_settlement (submitted_row now h row) d) res1 c1 = (x, y)"
    by force
  then show ?thesis using that [of res1] e assms(3) by simp
qed

context payout_chain
begin

abbreviation agrees :: "db \<Rightarrow> 'c \<Rightarrow> bool" where
  "agrees \<equiv> chain_agrees ok sent executed"

lemma agrees_update:
  assumes "agrees d c" "rows_ok k d" "row \<in> set (chain_settlements d)" "same_work row row'"
    and "chain_settlements d' = tput st_id row' (chain_settlements d)"
    and row': "row_agrees (sent c) (set (executed c)) row'"
  shows "agrees d' c"
proof -
  have "distinct (map st_id (chain_settlements d))" "st_id row' = st_id row" using assms(2,4) by (auto simp: rows_ok_def same_work_def)
  then have S': "set (chain_settlements d') = insert row' (set (chain_settlements d) - {row})"
    unfolding assms(5) by (intro tput_in [OF _ assms(3)])
  have "\<exists>row \<in> set (chain_settlements d'). stands_for row n call" if "(h, n, call) \<in> sent c" for h n call
    using same_rows_stands [OF same_rows_put [OF assms(2-5)]] assms(1) that by (fastforce simp: chain_agrees_def)
  then show ?thesis using assms(1) row' by (auto simp: chain_agrees_def S')
qed

lemma agrees_back:
  assumes "agrees d c" "agrees d1 c'" "same_rows d d1" "sent c \<subseteq> sent c'" "set (executed c) \<subseteq> set (executed c')"
  shows "agrees d c'"
proof -
  have "\<exists>row \<in> set (chain_settlements d). stands_for row n call" if "(h, n, call) \<in> sent c'" for h n call
    using same_rows_stands [OF assms(3)] assms(2) that by (fastforce simp: chain_agrees_def)
  then show ?thesis using assms(1,2,4,5) by (auto simp: chain_agrees_def intro: row_agrees_mono)
qed

lemma send_agrees:
  assumes "agrees d c" "row \<in> set (chain_settlements d)" "stands_for row n call" "cl_send C call n c = (r, c')"
  shows "agrees d c' \<and> executed c' = executed c \<and> sent c \<subseteq> sent c' \<and> (\<forall>h. r = Inr h \<longrightarrow> (h, n, call) \<in> sent c')"
proof -
  have "ok c" using assms(1) by (simp add: chain_agrees_def)
  then have s: "ok c'" "executed c' = executed c" "sent c' = (case r of Inl _ \<Rightarrow> sent c | Inr h \<Rightarrow> insert (h, n, call) (sent c))"
    using assms(4) send_ok send_executed send_fail send_sent by (auto split: sum.split)
  have sub: "sent c \<subseteq> sent c'" using s(3) by (auto split: sum.splits)
  have "\<exists>row \<in> set (chain_settlements d). stands_for row n' call'" if "(h', n', call') \<in> sent c'" for h' n' call'
  proof (cases "(h', n', call') \<in> sent c")
    case True
    then show ?thesis using assms(1) by (auto simp: chain_agrees_def)
  next
    case False
    then have "n' = n" "call' = call" using that s(3) by (auto split: sum.splits)
    then show ?thesis using assms(2,3) by blast
  qed
  then have "agrees d c'"
    using assms(1) sub s(1,2) by (auto simp: chain_agrees_def intro: row_agrees_mono)
  then show ?thesis using s(2,3) sub by simp
qed

text \<open>One row: what was broadcast stays, and the row is updated only on what the chain says of its own hash.\<close>

lemma receipt_ok:
  assumes J: "rows_ok k d" "agrees d c" and row: "row \<in> set (chain_settlements d)" "st_status row \<noteq> cs_failed"
    and r: "settle_receipt C eng now latest row d res c = (Inr d', res')"
  shows "rows_ok k d' \<and> agrees d' c \<and> same_rows d d' \<and> (\<forall>r \<in> set (chain_settlements d). st_id r \<noteq> st_id row \<longrightarrow> r \<in> set (chain_settlements d'))"
proof -
  note work = failed_confirmed_work
  have mined: "\<exists>n call. stands_for row n call \<and> (h, n, call) \<in> sent c \<and> (h, n, call, rc_status rc) \<in> set (executed c)"
    if h: "st_tx_hash row = Some h" "cl_get_receipt C h c = Inr (Some rc)" for h rc
  proof -
    obtain n call where n: "stands_for row n call" "(h, n, call) \<in> sent c" and "ok c"
      using J(2) row(1) h(1) unfolding chain_agrees_def row_agrees_def by blast
    moreover obtain n' call' where e: "(h, n', call', rc_status rc) \<in> set (executed c)"
      using receipt_executed [OF \<open>ok c\<close> h(2)] by blast
    ultimately have "(n', call') = (n, call)" using executed_sent sent_unique by blast
    then show ?thesis using n e by blast
  qed
  from r show ?thesis
  proof (cases rule: settle_receipt_cases)
    case waiting
    then show ?thesis using J by (simp add: same_rows_refl)
  next
    case (confirmed h rc)
    let ?row = "confirmed_row now rc row"
    have S: "chain_settlements d' = tput st_id ?row (chain_settlements d)" by (simp add: confirmed(4) put_settlement_def)
    obtain n call where n: "stands_for row n call" "(h, n, call) \<in> sent c" "(h, n, call, 1) \<in> set (executed c)"
      using mined [OF confirmed(1,2)] confirmed(3) by auto
    then have "row_agrees (sent c) (set (executed c)) ?row"
      using confirmed(1) by (auto simp: row_agrees_def work same_work_stands [OF work(1)])
    then have "agrees d' c" by (rule agrees_update [OF J(2,1) row(1) work(1) S])
    moreover have "rows_ok k d'" by (rule rows_ok_update [OF J(1) row(1) work(1) row(2) S]) (simp_all add: confirmed(4) put_settlement_def work)
    moreover have "same_rows d d'" by (rule same_rows_put [OF J(1) row(1) work(1) S])
    ultimately show ?thesis using work(1) by (auto simp: S tput_def same_work_def)
  next
    case (failed h rc)
    have S: "chain_settlements d' = tput st_id (failed_row row) (chain_settlements d)" by (simp add: failed(4) put_settlement_def)
    obtain n call where n: "stands_for row n call" "(h, n, call) \<in> sent c" "(h, n, call, rc_status rc) \<in> set (executed c)"
      using mined [OF failed(1,2)] by blast
    then have "row_agrees (sent c) (set (executed c)) (failed_row row)"
      using failed(1,3) by (auto simp: row_agrees_def work same_work_stands [OF work(2)])
    then have "agrees d' c" by (rule agrees_update [OF J(2,1) row(1) work(2) S])
    moreover have "rows_ok k d'" by (rule rows_ok_update [OF J(1) row(1) work(2) row(2) S]) (simp_all add: failed(4) put_settlement_def work)
    moreover have "same_rows d d'" by (rule same_rows_put [OF J(1) row(1) work(2) S])
    ultimately show ?thesis using work(2) by (auto simp: S tput_def same_work_def)
  qed
qed

definition advances :: "db \<Rightarrow> 'c \<Rightarrow> err + db \<Rightarrow> 'c \<Rightarrow> nat \<Rightarrow> bool" where
  "advances d c r c' k \<longleftrightarrow> agrees d c' \<and> executed c' = executed c \<and> sent c \<subseteq> sent c'
     \<and> (\<forall>d'. r = Inr d' \<longrightarrow> rows_ok k d' \<and> agrees d' c' \<and> same_rows d d')"

lemma recover_row_ok:
  assumes J: "rows_ok k d" "agrees d c" and row: "row \<in> set (chain_settlements d)" "row_in_flight row"
    and r: "recover_row C eng now latest row d res c = (r, res', c')"
  shows "advances d c r c' k \<and> (\<forall>d'. r = Inr d' \<longrightarrow> (\<forall>r \<in> set (chain_settlements d). st_id r \<noteq> st_id row \<longrightarrow> r \<in> set (chain_settlements d')))"
proof (cases "st_status row = cs_pending \<or> st_tx_hash row = None")
  case False
  have alive: "st_status row \<noteq> cs_failed" using row(2) by (auto simp: row_in_flight_def)
  from False r have "settle_receipt C eng now latest row d res c = (r, res')" "c' = c"
    by (auto simp: recover_row_def split: prod.splits)
  then show ?thesis using receipt_ok [OF J row(1) alive] J(2) by (auto simp: advances_def)
next
  case True
  obtain n call where n: "stands_for row n call" using J(1) row(1) unfolding rows_ok_def by blast
  obtain x c1 where x: "cl_send C call n c = (x, c1)" by force
  note send = send_agrees [OF J(2) row(1) n x]
  have b: "broadcast C row c = (case x of Inl e \<Rightarrow> (Inl e, c1) | Inr h \<Rightarrow> (Inr (row\<lparr>st_tx_hash := Some h\<rparr>), c1))"
    using n x by (simp add: broadcast_def stands_for_def split: sum.split)
  show ?thesis
  proof (cases x)
    case (Inl e)
    then have "c' = c1" "r = Inr d \<or> (\<exists>e. r = Inl e)"
      using r True b by (auto simp: recover_row_def split: err.splits)
    then show ?thesis using send J by (auto simp: advances_def same_rows_refl)
  next
    case (Inr h)
    let ?row = "submitted_row now h row"
    let ?d = "put_settlement ?row d"
    note w = submitted_work(1) [of row now h]
    have S: "chain_settlements ?d = tput st_id ?row (chain_settlements d)" by (simp add: put_settlement_def)
    have alive: "st_status row \<noteq> cs_failed" "st_status ?row \<noteq> cs_failed" using row(2) by (auto simp: row_in_flight_def submitted_work)
    have J1: "rows_ok k ?d" by (rule rows_ok_update [OF J(1) row(1) w alive(1) S]) (simp_all add: put_settlement_def submitted_work)
    have "row_agrees (sent c1) (set (executed c1)) ?row"
      using n send Inr by (auto simp: row_agrees_def submitted_work same_work_stands [OF w])
    with send have J2: "agrees ?d c1" by (intro agrees_update [OF _ J(1) row(1) w S]) auto
    have rows: "same_rows d ?d" by (rule same_rows_put [OF J(1) row(1) w S])
    have id: "st_id ?row = st_id row" using w by (simp add: same_work_def)
    have kept: "\<forall>r \<in> set (chain_settlements d). st_id r \<noteq> st_id row \<longrightarrow> r \<in> set (chain_settlements ?d)" by (auto simp: S tput_def id)
    have in': "?row \<in> set (chain_settlements ?d)" using row(1) by (force simp: S tput_def id)
    have "broadcast C row c = (Inr (row\<lparr>st_tx_hash := Some h\<rparr>), c1)" using b Inr by simp
    from recover_row_sent [OF True this r] obtain res1 where
      f: "settle_receipt C eng now latest ?row ?d res1 c1 = (r, res')" and c': "c' = c1" .
    have "rows_ok k d' \<and> agrees d' c1 \<and> same_rows d d' \<and> (\<forall>r \<in> set (chain_settlements d). st_id r \<noteq> st_id row \<longrightarrow> r \<in> set (chain_settlements d'))"
      if "r = Inr d'" for d'
      using receipt_ok [OF J1 J2 in' alive(2) f [unfolded that]] kept same_rows_trans [OF rows] id by auto
    then show ?thesis using send by (auto simp: advances_def c')
  qed
qed

lemma recover_rows_ok:
  assumes "rows_ok k d" "agrees d c" "set rows \<subseteq> set (chain_settlements d)" "\<forall>row \<in> set rows. row_in_flight row" "distinct (map st_id rows)"
    and "recover_rows C eng now latest rows d res c = (r, res', c')"
  shows "advances d c r c' k"
  using assms
proof (induction rows arbitrary: d res c)
  case Nil
  then show ?case by (auto simp: advances_def same_rows_refl)
next
  case (Cons row rows)
  obtain r1 res1 c1 where r1: "recover_row C eng now latest row d res c = (r1, res1, c1)" by (metis prod_cases3)
  then have a: "advances d c r1 c1 k" and kept: "\<forall>d'. r1 = Inr d' \<longrightarrow> (\<forall>r \<in> set (chain_settlements d). st_id r \<noteq> st_id row \<longrightarrow> r \<in> set (chain_settlements d'))"
    using recover_row_ok [OF Cons.prems(1,2) _ _ r1] Cons.prems(3,4) by auto
  show ?case
  proof (cases r1)
    case (Inl e)
    then show ?thesis using Cons.prems(6) r1 a by (auto simp: advances_def)
  next
    case (Inr d1)
    have "r \<in> set (chain_settlements d1)" if "r \<in> set rows" for r
      using kept [rule_format, OF Inr, of r] Cons.prems(3,5) that by (force simp: image_iff)
    then have "set rows \<subseteq> set (chain_settlements d1)" by blast
    then have b: "advances d1 c1 r c' k"
      using Cons.IH [of d1 c1 res1] Cons.prems(4-6) r1 a Inr by (auto simp: advances_def)
    have a1: "executed c1 = executed c" "sent c \<subseteq> sent c1" "same_rows d d1" using a Inr by (simp_all add: advances_def)
    have b1: "agrees d1 c'" "executed c' = executed c1" "sent c1 \<subseteq> sent c'" using b by (simp_all add: advances_def)
    have "agrees d c'" by (rule agrees_back [OF Cons.prems(2) b1(1) a1(3)]) (use a1 b1 in auto)
    moreover have "rows_ok k d' \<and> agrees d' c' \<and> same_rows d d'" if "r = Inr d'" for d'
      using b that same_rows_trans [OF a1(3), of d'] by (simp add: advances_def)
    ultimately show ?thesis using a1 b1 unfolding advances_def by simp
  qed
qed

lemma recovery_rows_sel:
  assumes "rows_ok k d"
  shows "set (take j (recovery_rows d)) \<subseteq> set (chain_settlements d)" "\<forall>row \<in> set (take j (recovery_rows d)). row_in_flight row"
    "distinct (map st_id (take j (recovery_rows d)))"
proof -
  have "set (take j (recovery_rows d)) \<subseteq> set (filter row_in_flight (chain_settlements d))"
    using set_take_subset [of j "recovery_rows d"] by (simp add: recovery_rows_def)
  then show "set (take j (recovery_rows d)) \<subseteq> set (chain_settlements d)" "\<forall>row \<in> set (take j (recovery_rows d)). row_in_flight row" by auto
  have d: "distinct (recovery_rows d)" using assms by (simp add: rows_ok_def recovery_rows_def distinct_map)
  moreover have "inj_on st_id (set (recovery_rows d))"
    using assms by (auto simp: rows_ok_def recovery_rows_def distinct_map intro: inj_on_subset)
  ultimately show "distinct (map st_id (take j (recovery_rows d)))"
    by (auto simp: distinct_map intro: inj_on_subset [OF _ set_take_subset])
qed

lemma recover_ok:
  assumes "rows_ok k d" "agrees d c" "recover C eng now d res c = (Inr d', res', c')"
  shows "rows_ok k d' \<and> agrees d' c'"
proof -
  obtain latest d1 res1 where "recover_rows C eng now latest (recovery_rows d) d res c = (Inr d1, res1, c')" "d' = d1"
    using assms(3) by (auto simp: recover_def recovery_rows_def Let_def flush_hashes_def split: sum.splits prod.splits if_splits)
  moreover note sel = recovery_rows_sel [OF assms(1), of "length (recovery_rows d)", simplified]
  ultimately show ?thesis using recover_rows_ok [OF assms(1,2) sel] by (auto simp: advances_def)
qed

end

end
