(* ===== verification/Chain_Workers.thy ===== *)
theory Chain_Workers
  imports Auth Watcher Settlement
begin

text \<open>
  The background loops of \<open>api/app/chain_worker.py\<close> beside the coordinator: a watcher scan posts to the ledger
  and keeps the coordinator's invariant; a settlement tick touches only the settlement tables.
\<close>

section \<open>The watcher\<close>

lemma postings_spare: "spares_stakes (deposit_postings dev x)" "spares_stakes (withdraw_postings dev x)"
  by (simp_all add: spares_stakes_def deposit_postings_def withdraw_postings_def)

text \<open>Tables the coordinator's invariant does not read.\<close>

lemma event_tables_keep:
  "coord_ok d \<Longrightarrow> keeps d (d\<lparr>chain_events := es\<rparr>)" "coord_ok d \<Longrightarrow> keeps d (d\<lparr>chain_cursors := cs\<rparr>)"
  "coord_ok d \<Longrightarrow> next_id d \<le> n \<Longrightarrow> keeps d (d\<lparr>chain_events := es, next_id := n\<rparr>)"
  "coord_ok d \<Longrightarrow> next_id d \<le> n \<Longrightarrow> keeps d (d\<lparr>chain_settlements := xs, provider_settlements := ys, next_id := n\<rparr>)"
  by (rule account_keeps; simp)+

lemma apply_effect_keeps:
  "apply_effect now w ev d res = (Inr (b, d'), res') \<Longrightarrow> coord_ok d \<Longrightarrow> keeps d d'"
  by (auto simp: apply_effect_def bindE_Inr_iff Let_def keeps_refl intro: post_keeps [OF _ postings_spare(1)] post_keeps [OF _ postings_spare(2)]
      split: sum.splits option.splits if_splits)

lemma reverse_effect_keeps:
  assumes "reverse_effect now w ev d res = (Inr d', res')" "coord_ok d"
  shows "keeps d d'"
proof -
  obtain wl where wl: "event_wallet ev = Inr wl" using assms(1) by (auto simp: reverse_effect_def split: sum.splits)
  show ?thesis
  proof (cases "developer_for wl d")
    case None
    then show ?thesis using assms wl by (simp add: reverse_effect_def keeps_refl)
  next
    case (Some dv)
    obtain u where u: "event_units ev = Inr u" using assms(1) wl Some by (cases "event_units ev") (auto simp: reverse_effect_def)
    let ?ps = "if ev_event_name ev = ''Deposited'' then withdraw_postings (dv_id dv) (from_units u (wt_decimals w))
               else deposit_postings (dv_id dv) (from_units u (wt_decimals w))"
    obtain g where "post_transaction now ?ps (''reorg_reverse_'' @ to_lower (ev_event_name ev)) None (Some (ev_tx_hash ev)) d = Inr (g, d')"
      using assms(1) wl Some u by (auto simp: reverse_effect_def Let_def split: sum.splits prod.splits)
    moreover have "spares_stakes ?ps" using postings_spare by simp
    ultimately show ?thesis using post_keeps assms(2) by blast
  qed
qed

lemma keepsD: "keeps d d' \<Longrightarrow> coord_ok d'"
  by (simp add: keeps_def)

lemma check_event_keeps:
  assumes "check_event R now w tip ev d res = (Inr d', res')" "coord_ok d"
  shows "keeps d d'"
proof -
  obtain good where good: "canonical R tip (ev_block_number ev) = Inr good"
    using assms(1) by (auto simp: check_event_def split: sum.splits)
  show ?thesis
  proof (cases "good = Some (ev_block_hash ev)")
    case True
    then show ?thesis using assms good by (simp add: check_event_def keeps_refl)
  next
    case False
    obtain res1 d1 res2 where rev: "(if ev_processed ev \<and> ev_event_name ev \<in> set EFFECTFUL then reverse_effect now w ev d res1 else (Inr d, res1)) = (Inr d1, res2)"
      "d' = delete_event ev d1"
      using assms(1) good False by (auto simp: check_event_def Let_def split: sum.splits prod.splits if_splits)
    then have "keeps d d1" using reverse_effect_keeps assms(2) by (auto simp: keeps_refl split: if_splits)
    then show ?thesis using event_tables_keep(1) keepsD keeps_trans unfolding rev(2) delete_event_def by blast
  qed
qed

lemma ingest_keeps: "ingest l d res = (Inr d', res') \<Longrightarrow> coord_ok d \<Longrightarrow> keeps d d'"
  by (auto simp: ingest_def keeps_refl intro: event_tables_keep(3) split: if_splits)

lemma apply_one_keeps:
  assumes "apply_one now w tip ev d res = (Inr d', res')" "coord_ok d"
  shows "keeps d d'"
proof (cases "tip - ev_block_number ev + 1 < wt_confirmations w")
  case True
  then show ?thesis using assms by (simp add: apply_one_def keeps_refl)
next
  case False
  let ?final = "ev\<lparr>ev_confirmed := True, ev_processed := True\<rparr>" and ?res = "res\<lparr>sr_confirmed := sr_confirmed res + 1\<rparr>"
  obtain d1 where "d' = put_event ?final d1" "keeps d d1"
  proof (cases "ev_event_name ev \<in> set EFFECTFUL")
    case True
    obtain b d1 res1 where "apply_effect now w ev d ?res = (Inr (b, d1), res1)" "d' = put_event ?final d1"
      using assms(1) False True by (auto simp: apply_one_def Let_def split: sum.splits prod.splits)
    then show ?thesis using that apply_effect_keeps assms(2) by blast
  next
    case other: False
    then have "d' = put_event ?final d" using assms(1) False by (simp add: apply_one_def Let_def)
    then show ?thesis using that keeps_refl assms(2) by blast
  qed
  then show ?thesis using event_tables_keep(1) keepsD keeps_trans unfolding put_event_def by blast
qed

lemma each_keeps:
  assumes "\<And>x d res d' res'. f x d res = (Inr d', res') \<Longrightarrow> coord_ok d \<Longrightarrow> keeps d d'"
    and "each f xs d res = (Inr d', res')" "coord_ok d"
  shows "keeps d d'"
  by (rule each_inv [where P = "\<lambda>_ e. keeps d e", OF _ _ assms(2)])
    (auto intro: keeps_trans assms(1) dest: keepsD simp: keeps_refl assms(3))

lemma scan_keeps:
  assumes r: "scan R now w d res = (Inr d', res')" and ok: "coord_ok d"
  shows "keeps d d'"
proof -
  obtain tip where tip: "rd_latest R = Inr tip" using r by (auto simp: scan_def split: sum.splits)
  obtain cursor d0 where c: "open_cursor w tip d = (cursor, d0)" by force
  have k0: "keeps d d0" using c ok event_tables_keep(2)
    by (auto simp: open_cursor_def Let_def keeps_refl split: option.splits)
  define start where "start = max 1 (cu_last_scanned_block cursor - wt_reorg_window w + 1)"
  define from_block where "from_block = min (cu_last_scanned_block cursor + 1) start"
  obtain d1 res1 d2 res2 where h: "handle_reorg R now w start tip d0 res = (Inr d1, res1)"
    and i: "ingest_logs R from_block tip cursor d1 res1 = (Inr d2, res2)"
    and a: "apply_confirmed now w tip d2 res2 = (Inr d', res')"
    using r tip c unfolding scan_def Let_def start_def from_block_def
    by (auto split: sum.splits prod.splits)
  have k1: "keeps d0 d1" by (rule each_keeps [OF check_event_keeps h [unfolded handle_reorg_def] keepsD [OF k0]])
  have k2: "keeps d1 d2"
  proof (cases "d2 = d1")
    case False
    then obtain ls d3 res3 cs where e: "each ingest ls d1 res1 = (Inr d3, res3)" "d2 = d3\<lparr>chain_cursors := cs\<rparr>"
      using i by (fastforce simp: ingest_logs_def split: sum.splits prod.splits if_splits)
    have "keeps d1 d3" by (rule each_keeps [OF ingest_keeps e(1) keepsD [OF k1]])
    then show ?thesis using event_tables_keep(2) keepsD keeps_trans unfolding e(2) by blast
  qed (simp add: keepsD [OF k1] keeps_refl)
  have "keeps d2 d'" by (rule each_keeps [OF apply_one_keeps a [unfolded apply_confirmed_def] keepsD [OF k2]])
  then show ?thesis using k0 k1 k2 keeps_trans by blast
qed

lemma watcher_tick_keeps: "coord_ok d \<Longrightarrow> keeps d (snd (watcher_tick R now w d))"
  by (auto simp: watcher_tick_def keeps_refl intro: scan_keeps split: sum.splits prod.splits)

section \<open>The settlement engine\<close>

definition settlement_only :: "db \<Rightarrow> db \<Rightarrow> bool" where
  "settlement_only d d' \<longleftrightarrow>
     (\<exists>xs ys n. next_id d \<le> n \<and> d' = d\<lparr>chain_settlements := xs, provider_settlements := ys, next_id := n\<rparr>)"

lemma settlement_onlyI: "next_id d \<le> n \<Longrightarrow> d' = d\<lparr>chain_settlements := xs, provider_settlements := ys, next_id := n\<rparr> \<Longrightarrow> settlement_only d d'"
  unfolding settlement_only_def by blast

lemma settlement_only_refl: "settlement_only d d"
  by (rule settlement_onlyI [where n = "next_id d" and xs = "chain_settlements d" and ys = "provider_settlements d"]) simp_all

lemma settlement_only_trans:
  assumes "settlement_only d d1" "settlement_only d1 d2"
  shows "settlement_only d d2"
proof -
  obtain xs ys n where "next_id d \<le> n" "d1 = d\<lparr>chain_settlements := xs, provider_settlements := ys, next_id := n\<rparr>"
    using assms(1) unfolding settlement_only_def by blast
  moreover obtain xs' ys' n' where "next_id d1 \<le> n'" "d2 = d1\<lparr>chain_settlements := xs', provider_settlements := ys', next_id := n'\<rparr>"
    using assms(2) unfolding settlement_only_def by blast
  ultimately show ?thesis by (intro settlement_onlyI [where n = n' and xs = xs' and ys = ys']) simp_all
qed

lemma settlement_only_rows:
  "settlement_only d (d\<lparr>chain_settlements := xs\<rparr>)"
  "next_id d \<le> n \<Longrightarrow> settlement_only d (d\<lparr>chain_settlements := xs, next_id := n\<rparr>)"
  "next_id d \<le> n \<Longrightarrow> settlement_only d (d\<lparr>provider_settlements := ys, next_id := n\<rparr>)"
  "settlement_only d (d\<lparr>chain_settlements := xs, provider_settlements := ys\<rparr>)"
proof -
  have all: "settlement_only d (d\<lparr>chain_settlements := xs, provider_settlements := ys, next_id := n\<rparr>)" if "next_id d \<le> n" for xs ys n
    by (rule settlement_onlyI [OF that refl])
  show "settlement_only d (d\<lparr>chain_settlements := xs\<rparr>)" using all [where n = "next_id d" and xs = xs and ys = "provider_settlements d"] by simp
  show "settlement_only d (d\<lparr>chain_settlements := xs, next_id := n\<rparr>)" if "next_id d \<le> n"
    using all [OF that, where xs = xs and ys = "provider_settlements d"] by simp
  show "settlement_only d (d\<lparr>provider_settlements := ys, next_id := n\<rparr>)" if "next_id d \<le> n"
    using all [OF that, where xs = "chain_settlements d" and ys = ys] by simp
  show "settlement_only d (d\<lparr>chain_settlements := xs, provider_settlements := ys\<rparr>)" using all [where n = "next_id d" and xs = xs and ys = ys] by simp
qed

lemma settle_receipt_only: "settle_receipt C eng now tip row d res c = (Inr d', res') \<Longrightarrow> settlement_only d d'"
  by (erule settle_receipt_cases) (simp_all add: settlement_only_refl put_settlement_def settlement_only_rows)

lemma recover_row_only:
  assumes "recover_row C eng now tip row d res c = (Inr d', res', c')"
  shows "settlement_only d d'"
proof -
  consider "d' = d" | row' d1 res1 c1 where "settle_receipt C eng now tip row' d1 res1 c1 = (Inr d', res')" "settlement_only d d1"
  proof (cases "st_status row = cs_pending \<or> st_tx_hash row = None")
    case unsent: True
    obtain b c1 where b: "broadcast C row c = (b, c1)" by force
    show ?thesis
    proof (cases b)
      case (Inl e)
      then have "d' = d" using assms unsent b by (cases e) (auto simp: recover_row_def)
      then show ?thesis using that by blast
    next
      case (Inr row1)
      define row2 where "row2 = row1\<lparr>st_status := cs_submitted, st_submitted_at := Some now\<rparr>"
      obtain res1 where "settle_receipt C eng now tip row2 (put_settlement row2 d) res1 c1 = (Inr d', res')"
        using assms unsent b Inr unfolding row2_def recover_row_def Let_def by (auto split: prod.splits)
      then show ?thesis using that(2) settlement_only_rows(1) unfolding put_settlement_def by blast
    qed
  next
    case False
    then have "settle_receipt C eng now tip row d res c = (Inr d', res')"
      using assms unfolding recover_row_def Let_def by (auto split: prod.splits)
    then show ?thesis using that(2) settlement_only_refl by blast
  qed
  then show ?thesis
  proof cases
    case 2
    then show ?thesis by (rule settlement_only_trans [OF _ settle_receipt_only, rotated])
  qed (simp add: settlement_only_refl)
qed

lemma recover_rows_only: "recover_rows C eng now tip rows d res c = (Inr d', res', c') \<Longrightarrow> settlement_only d d'"
proof (induction rows arbitrary: d res c)
  case (Cons row rows)
  obtain r res1 c1 where r: "recover_row C eng now tip row d res c = (r, res1, c1)" by (metis prod_cases3)
  show ?case
  proof (cases r)
    case (Inr d1)
    then show ?thesis using Cons r recover_row_only [of C eng now tip row d res c d1 res1 c1] settlement_only_trans by fastforce
  qed (use Cons r in simp)
qed (simp add: settlement_only_refl)

lemma recover_only: "recover C eng now d res c = (Inr d', res', c') \<Longrightarrow> settlement_only d d'"
  by (auto simp: recover_def Let_def flush_hashes_def settlement_only_refl split: sum.splits prod.splits if_splits intro: recover_rows_only)

lemma add_settlement_only: "add_settlement row d = Inr d' \<Longrightarrow> settlement_only d d'"
  by (auto simp: add_settlement_def settlement_only_rows split: if_splits)

lemma reserve_legs_only: "settlement_only d (reserve_legs sid ps d)"
proof (induction sid ps d rule: reserve_legs.induct)
  case (2 sid pid wallet units ps d)
  show ?case unfolding reserve_legs.simps by (rule settlement_only_trans [OF settlement_only_rows(3) 2]) simp
qed (simp add: settlement_only_refl)

lemma record_batch_only:
  assumes "record_batch now cycle base short ps d = Inr d'"
  shows "settlement_only d d'"
proof -
  obtain d1 d2 row sid where "settlement_only d d1" "add_settlement row d1 = Inr d2" "d' = reserve_legs sid ps d2"
    using assms add_settlement_only settlement_only_refl
    by (fastforce simp: record_batch_def bindE_Inr_iff Let_def split: if_splits)
  then show ?thesis using add_settlement_only reserve_legs_only settlement_only_trans by blast
qed

lemma maybe_batch_only: "maybe_batch C now cycle force eng d res c = (Inr d', res', eng') \<Longrightarrow> settlement_only d d'"
  by (auto simp: maybe_batch_def Let_def bindE_def settlement_only_refl split: if_splits prod.splits sum.splits intro: record_batch_only)

lemma record_debits_only:
  "record_debits now base debited wallets devs offset res d = (Inr d', res') \<Longrightarrow> settlement_only d d'"
proof (induction now base debited wallets devs offset res d rule: record_debits.induct)
  case (2 now base debited wallets dev_id units devs offset res d)
  then show ?case
    by (auto simp: Let_def split: option.splits if_splits sum.splits intro: settlement_only_trans add_settlement_only)
qed (simp add: settlement_only_refl)

lemma maybe_debit_only: "maybe_debit C now force eng d res c = (Inr d', res') \<Longrightarrow> settlement_only d d'"
  by (auto simp: maybe_debit_def Let_def settlement_only_refl split: if_splits sum.splits intro: record_debits_only)

lemma tick_only:
  assumes "tick C now cycle force eng d c = (res, eng', d', c')"
  shows "settlement_only d d'"
  using assms
  by (auto simp: tick_def settlement_only_refl split: sum.splits prod.splits
      dest!: recover_only maybe_batch_only maybe_debit_only intro: settlement_only_trans)

lemma settlement_only_keeps:
  assumes "settlement_only d d'" "coord_ok d"
  shows "keeps d d'"
proof -
  obtain xs ys n where "next_id d \<le> n" "d' = d\<lparr>chain_settlements := xs, provider_settlements := ys, next_id := n\<rparr>"
    using assms(1) unfolding settlement_only_def by blast
  then show ?thesis using event_tables_keep(4) [OF assms(2)] by simp
qed

end
