(* ===== verification/Catalog.thy ===== *)
theory Catalog
  imports Numerics Stdlib
begin

text \<open>
  The model catalogue (\<open>api/app/catalog.py\<close>) and the reading of a node's token report
  (\<open>api/app/node_usage.py\<close>).  A report is a JSON object from an interested party; the lemmas bound what any
  report can make a request cost.
\<close>

section \<open>Models and prices\<close>

datatype Modality = md_chat | md_image

record ModelSpec =
  ms_id :: string
  ms_modality :: Modality
  ms_input_usdc_per_mtok :: money
  ms_output_usdc_per_mtok :: money
  ms_usdc_per_image :: money
  ms_max_output_tokens :: int
  ms_context_window :: int

definition chat_model :: "string \<Rightarrow> money \<Rightarrow> money \<Rightarrow> int \<Rightarrow> ModelSpec" where
  "chat_model name inp outp window =
     \<lparr> ms_id = name, ms_modality = md_chat, ms_input_usdc_per_mtok = inp, ms_output_usdc_per_mtok = outp,
       ms_usdc_per_image = 0, ms_max_output_tokens = 4096, ms_context_window = window \<rparr>"

definition image_model :: "string \<Rightarrow> money \<Rightarrow> ModelSpec" where
  "image_model name price =
     \<lparr> ms_id = name, ms_modality = md_image, ms_input_usdc_per_mtok = 0, ms_output_usdc_per_mtok = 0,
       ms_usdc_per_image = price, ms_max_output_tokens = 4096, ms_context_window = 8192 \<rparr>"

definition CATALOG :: "ModelSpec list" where
  "CATALOG =
     [chat_model ''llama-3.1-8b'' (5 / 100) (8 / 100) 128000,
      chat_model ''llama-3.1-70b'' (40 / 100) (80 / 100) 128000,
      chat_model ''qwen-2.5-coder-32b'' (18 / 100) (30 / 100) 32768,
      image_model ''sdxl-turbo'' (1 / 100),
      image_model ''flux-schnell'' (3 / 100)]"

definition get_model :: "string \<Rightarrow> ModelSpec option" where
  "get_model model_id = tget ms_id model_id CATALOG"

definition chat_cost :: "ModelSpec \<Rightarrow> int \<Rightarrow> int \<Rightarrow> money" where
  "chat_cost spec input_tokens output_tokens =
     (let per_token_in = ctx (ms_input_usdc_per_mtok spec / 1000000);
          per_token_out = ctx (ms_output_usdc_per_mtok spec / 1000000)
      in ctx (ctx (per_token_in * of_int (max input_tokens 0)) + ctx (per_token_out * of_int (max output_tokens 0))))"

definition image_cost :: "ModelSpec \<Rightarrow> int \<Rightarrow> money" where
  "image_cost spec images = ctx (ms_usdc_per_image spec * of_int (max images 0))"

definition chat_worst_case :: "ModelSpec \<Rightarrow> int \<Rightarrow> int \<Rightarrow> money" where
  "chat_worst_case spec input_tokens max_output_tokens = chat_cost spec input_tokens max_output_tokens"

section \<open>A node's token report\<close>

record ChatUsage =
  cu_prompt_tokens :: int
  cu_completion_tokens :: int

definition total_tokens :: "ChatUsage \<Rightarrow> int" where
  "total_tokens u = cu_prompt_tokens u + cu_completion_tokens u"

text \<open>The numbers of a JSON document are finite here; Python's reader also accepts \<open>Infinity\<close>.\<close>

definition reported_tokens :: "jdict \<Rightarrow> string \<Rightarrow> int \<Rightarrow> int" where
  "reported_tokens raw field dflt =
     (case jget raw field of
        JInt n \<Rightarrow> max 0 n
      | JFloat x \<Rightarrow> max 0 (round_down x)
      | _ \<Rightarrow> dflt)"

definition usage_from :: "jdict \<Rightarrow> int \<Rightarrow> int \<Rightarrow> ChatUsage" where
  "usage_from raw_payload prompt_tokens max_output_tokens =
     (let raw = (case jget raw_payload ''usage'' of JObj kv \<Rightarrow> kv | _ \<Rightarrow> []);
          claimed = reported_tokens raw ''completion_tokens'' 0
      in \<lparr> cu_prompt_tokens = reported_tokens raw ''prompt_tokens'' prompt_tokens,
           cu_completion_tokens = min claimed max_output_tokens \<rparr>)"

section \<open>What a report can cost\<close>

lemma ctx_mono: "x \<le> y \<Longrightarrow> ctx x \<le> ctx y"
  by (simp add: ctx_def round_sig_mono)

lemma ctx_nonneg [simp]: "0 \<le> x \<Longrightarrow> 0 \<le> ctx x"
  by (simp add: ctx_def round_sig_nonneg)

definition spec_ok :: "ModelSpec \<Rightarrow> bool" where
  "spec_ok spec \<longleftrightarrow> 0 \<le> ms_input_usdc_per_mtok spec \<and> 0 \<le> ms_output_usdc_per_mtok spec \<and> 0 \<le> ms_usdc_per_image spec
     \<and> 0 < ms_max_output_tokens spec"

lemma catalog_ok: "spec \<in> set CATALOG \<Longrightarrow> spec_ok spec"
  by (auto simp: CATALOG_def chat_model_def image_model_def spec_ok_def)

lemma get_model_ok: "get_model m = Some spec \<Longrightarrow> spec_ok spec \<and> ms_id spec = m"
  unfolding get_model_def by (auto dest!: tget_SomeD intro: catalog_ok)

lemma catalog_ids: "distinct (map ms_id CATALOG)"
  by (simp add: CATALOG_def chat_model_def image_model_def)

lemma chat_cost_nonneg: "spec_ok spec \<Longrightarrow> 0 \<le> chat_cost spec i n"
  by (simp add: chat_cost_def Let_def spec_ok_def)

lemma image_cost_nonneg: "spec_ok spec \<Longrightarrow> 0 \<le> image_cost spec n"
  by (simp add: image_cost_def spec_ok_def)

lemma chat_cost_mono:
  assumes "spec_ok spec" "i \<le> j" "m \<le> n"
  shows "chat_cost spec i m \<le> chat_cost spec j n"
  using assms unfolding chat_cost_def Let_def spec_ok_def
  by (intro ctx_mono add_mono mult_left_mono) (auto simp flip: of_int_max)

lemma image_cost_mono: "spec_ok spec \<Longrightarrow> m \<le> n \<Longrightarrow> image_cost spec m \<le> image_cost spec n"
  unfolding image_cost_def spec_ok_def by (intro ctx_mono mult_left_mono) (auto simp flip: of_int_max)

lemma reported_tokens_nonneg: "0 \<le> dflt \<Longrightarrow> 0 \<le> reported_tokens raw field dflt"
  by (auto simp: reported_tokens_def split: json.split)

lemma usage_bounds:
  assumes "0 \<le> prompt" "0 \<le> ceiling_out"
  shows "0 \<le> cu_prompt_tokens (usage_from raw prompt ceiling_out)" "0 \<le> cu_completion_tokens (usage_from raw prompt ceiling_out)"
    "cu_completion_tokens (usage_from raw prompt ceiling_out) \<le> ceiling_out"
  using assms reported_tokens_nonneg by (auto simp: usage_from_def Let_def)

text \<open>A node that reports nothing is billed on the gateway's own bound of the prompt, and for no output.\<close>

lemma usage_silent:
  "jget raw ''usage'' = JNull \<Longrightarrow> 0 \<le> ceiling_out \<Longrightarrow> usage_from raw prompt ceiling_out = \<lparr> cu_prompt_tokens = prompt, cu_completion_tokens = 0 \<rparr>"
  by (simp add: usage_from_def Let_def reported_tokens_def jget_def)

end
