(* ===== verification/Dispatch.thy ===== *)
theory Dispatch
  imports Presence Ledger Stdlib
begin

text \<open>
  The coordinator's way to a node: the relay client (\<open>api/app/relay_client.py\<close>) and dispatch
  (\<open>api/app/dispatch.py\<close>).  The HTTP library is the argument \<open>post\<close>, which answers a request body with a status
  and the relay's reply or with a transport error.  The counter of requests out on each node is explicit
  (\<open>out_requests\<close>), and the rows of the selection query come in table order.
\<close>

section \<open>The relay client\<close>

record RelayResponse =
  rr_status :: int
  rr_payload :: "jdict option"

datatype http_answer = Unreachable string | Answer int RelayResponse

datatype relay_error = RelayUnavailableError string | HTTPStatusError int

type_synonym http_post = "uuid \<Rightarrow> jdict \<Rightarrow> http_answer"

definition relay_body :: "string \<Rightarrow> jdict \<Rightarrow> string option \<Rightarrow> jdict" where
  "relay_body meth payload job_id = [(''job_id'', jopt job_id), (''method'', JStr meth), (''payload'', JObj payload)]"

definition call_provider :: "http_post \<Rightarrow> uuid \<Rightarrow> string \<Rightarrow> jdict \<Rightarrow> string option \<Rightarrow> relay_error + RelayResponse" where
  "call_provider post provider_id meth payload job_id =
     (case post provider_id (relay_body meth payload job_id) of
        Unreachable m \<Rightarrow> Inl (RelayUnavailableError (''relay unreachable: '' @ m))
      | Answer status body \<Rightarrow>
          if status = 503 then Inl (RelayUnavailableError ''provider not connected'')
          else if status < 200 \<or> status \<ge> 300 then Inl (HTTPStatusError status)
          else Inr body)"

section \<open>Requests out on each node\<close>

type_synonym out_requests = "uuid \<Rightarrow> int"

definition track_enter :: "uuid \<Rightarrow> out_requests \<Rightarrow> out_requests" where
  "track_enter provider_id c = c(provider_id := c provider_id + 1)"

text \<open>A count that falls to zero is deleted, and an absent one reads as zero.\<close>

definition track_exit :: "uuid \<Rightarrow> out_requests \<Rightarrow> out_requests" where
  "track_exit provider_id c = (let n = c provider_id - 1 in c(provider_id := if n \<le> 0 then 0 else n))"

definition inflight_count :: "out_requests \<Rightarrow> uuid \<Rightarrow> int" where
  "inflight_count c provider_id = c provider_id"

section \<open>Selection\<close>

record Candidate =
  cd_provider_id :: uuid
  cd_inflight :: int

definition serves :: "string \<Rightarrow> db \<Rightarrow> Provider \<Rightarrow> bool" where
  "serves model d p \<longleftrightarrow> (\<exists>m \<in> set (provider_models d). pm_provider_id m = pr_id p \<and> pm_model m = model)"

definition placeable :: "instant \<Rightarrow> Settings \<Rightarrow> string \<Rightarrow> DataTier \<Rightarrow> db \<Rightarrow> Provider \<Rightarrow> bool" where
  "placeable now settings model data_tier d p \<longleftrightarrow>
     serves model d p \<and> pr_enabled p \<and> \<not> pr_degraded p
     \<and> is_connected p now (connection_timeout_seconds settings)
     \<and> \<not> (data_tier = dt_confidential_tee \<and> \<not> pr_tee_attested p)
     \<and> \<not> provider_stake (pr_id p) d < of_int (min_provider_stake settings)"

definition eligible_nodes :: "out_requests \<Rightarrow> instant \<Rightarrow> Settings \<Rightarrow> string \<Rightarrow> DataTier \<Rightarrow> db \<Rightarrow> Candidate list" where
  "eligible_nodes c now settings model data_tier d =
     map (\<lambda>p. \<lparr> cd_provider_id = pr_id p, cd_inflight = inflight_count c (pr_id p) \<rparr>)
       (filter (placeable now settings model data_tier d) (providers d))"

text \<open>\<open>min\<close> with a key keeps the first of several minima.\<close>

fun least_loaded :: "Candidate \<Rightarrow> Candidate list \<Rightarrow> Candidate" where
  "least_loaded best [] = best"
| "least_loaded best (x # xs) = least_loaded (if cd_inflight x < cd_inflight best then x else best) xs"

text \<open>\<open>NoNodeAvailableError\<close> is the value \<open>None\<close>.\<close>

definition select_node :: "out_requests \<Rightarrow> instant \<Rightarrow> Settings \<Rightarrow> string \<Rightarrow> DataTier \<Rightarrow> db \<Rightarrow> uuid option" where
  "select_node c now settings model data_tier d =
     (case eligible_nodes c now settings model data_tier d of
        [] \<Rightarrow> None
      | x # xs \<Rightarrow> Some (cd_provider_id (least_loaded x xs)))"

section \<open>Dispatch\<close>

datatype dispatch_error = DispatchError string | DispatchTimeoutError string

definition relay_failure :: "uuid \<Rightarrow> relay_error \<Rightarrow> dispatch_error" where
  "relay_failure provider_id e =
     (case e of
        RelayUnavailableError m \<Rightarrow> DispatchError m
      | HTTPStatusError st \<Rightarrow>
          if st = 504 then DispatchTimeoutError (''node '' @ uuid_str provider_id @ '' did not respond'')
          else DispatchError (''relay returned '' @ int_str st))"

definition dispatch :: "http_post \<Rightarrow> uuid \<Rightarrow> string \<Rightarrow> jdict \<Rightarrow> string option \<Rightarrow> dispatch_error + jdict" where
  "dispatch post provider_id meth payload job_id =
     (case call_provider post provider_id meth payload job_id of
        Inl e \<Rightarrow> Inl (relay_failure provider_id e)
      | Inr reply \<Rightarrow>
          if rr_status reply \<ge> 400 then Inl (DispatchError (''node returned status '' @ int_str (rr_status reply)))
          else Inr (or_empty (rr_payload reply)))"

text \<open>A streamed answer: the status line, the body's lines as they parse (nothing for a blank or unreadable line), and
  the transport error that cut the body off, if any.  The frames that reach the caller come with the error that ends
  them.\<close>

datatype stream_answer = Refused string | Body int "json option list" "string option"

fun frames_of :: "json option list \<Rightarrow> jdict list" where
  "frames_of [] = []"
| "frames_of (Some (JObj frame) # ls) = frame # frames_of ls"
| "frames_of (_ # ls) = frames_of ls"

definition stream_provider ::
    "(uuid \<Rightarrow> jdict \<Rightarrow> stream_answer) \<Rightarrow> uuid \<Rightarrow> string \<Rightarrow> jdict \<Rightarrow> string option \<Rightarrow> jdict list \<times> relay_error option" where
  "stream_provider post provider_id meth payload job_id =
     (case post provider_id (relay_body meth payload job_id) of
        Refused m \<Rightarrow> ([], Some (RelayUnavailableError (''relay unreachable: '' @ m)))
      | Body status ls broken \<Rightarrow>
          if status = 503 then ([], Some (RelayUnavailableError ''provider not connected''))
          else if status \<ge> 400 then ([], Some (HTTPStatusError status))
          else (frames_of ls, map_option (\<lambda>m. RelayUnavailableError (''relay unreachable: '' @ m)) broken))"

definition dispatch_stream ::
    "(uuid \<Rightarrow> jdict \<Rightarrow> stream_answer) \<Rightarrow> uuid \<Rightarrow> string \<Rightarrow> jdict \<Rightarrow> string option \<Rightarrow> jdict list \<times> dispatch_error option" where
  "dispatch_stream post provider_id meth payload job_id =
     map_prod id (map_option (relay_failure provider_id)) (stream_provider post provider_id meth payload job_id)"

section \<open>Facts\<close>

text \<open>The counter follows the requests that are out, in any order of arrivals and departures.\<close>

definition out_ok :: "uuid list \<Rightarrow> out_requests \<Rightarrow> bool" where
  "out_ok ps c \<longleftrightarrow> (\<forall>p. c p = int (count_list ps p))"

lemma out_enter: "out_ok ps c \<Longrightarrow> out_ok (p # ps) (track_enter p c)"
  by (simp add: out_ok_def track_enter_def)

lemma count_list_remove1: "p \<in> set ps \<Longrightarrow> int (count_list (remove1 p ps) q) = int (count_list ps q) - (if q = p then 1 else 0)"
  by (induction ps) auto

lemma out_exit: "out_ok ps c \<Longrightarrow> p \<in> set ps \<Longrightarrow> out_ok (remove1 p ps) (track_exit p c)"
  using count_list_remove1 [of p ps p] by (auto simp: out_ok_def track_exit_def Let_def count_list_remove1)

lemma least_loaded_in: "least_loaded b xs \<in> set (b # xs)"
  by (induction b xs rule: least_loaded.induct) auto

lemma least_loaded_min: "y \<in> set (b # xs) \<Longrightarrow> cd_inflight (least_loaded b xs) \<le> cd_inflight y"
proof (induction b xs arbitrary: y rule: least_loaded.induct)
  case (2 b x xs)
  let ?b = "if cd_inflight x < cd_inflight b then x else b"
  have "cd_inflight (least_loaded ?b xs) \<le> cd_inflight ?b" using "2.IH" [of ?b] by simp
  then have "cd_inflight (least_loaded ?b xs) \<le> cd_inflight x" "cd_inflight (least_loaded ?b xs) \<le> cd_inflight b"
    by (simp_all split: if_splits)
  then show ?case using "2.prems" "2.IH" [of y] by auto
qed simp

lemma select_node_sel:
  assumes "select_node c now s m tier d = Some pid"
  shows "\<exists>p \<in> set (providers d). pr_id p = pid \<and> placeable now s m tier d p"
    "q \<in> set (providers d) \<Longrightarrow> placeable now s m tier d q \<Longrightarrow> c pid \<le> c (pr_id q)"
proof -
  let ?load = "\<lambda>p. \<lparr> cd_provider_id = pr_id p, cd_inflight = inflight_count c (pr_id p) \<rparr>"
  obtain x xs where e: "eligible_nodes c now s m tier d = x # xs" and pid: "pid = cd_provider_id (least_loaded x xs)"
    using assms by (auto simp: select_node_def split: list.splits)
  have all: "set (x # xs) = ?load ` {p \<in> set (providers d). placeable now s m tier d p}"
    unfolding e [symmetric] by (auto simp: eligible_nodes_def)
  then obtain p where p: "p \<in> set (providers d)" "placeable now s m tier d p" "least_loaded x xs = ?load p"
    using least_loaded_in [of x xs] by blast
  then show "\<exists>p \<in> set (providers d). pr_id p = pid \<and> placeable now s m tier d p" using pid by auto
  show "c pid \<le> c (pr_id q)" if "q \<in> set (providers d)" "placeable now s m tier d q"
  proof -
    have "?load q \<in> set (x # xs)" using that all by blast
    from least_loaded_min [OF this] show ?thesis using p(3) pid by (simp add: inflight_count_def)
  qed
qed

lemma select_node_None: "select_node c now s m tier d = None \<longleftrightarrow> (\<forall>p \<in> set (providers d). \<not> placeable now s m tier d p)"
proof -
  have "select_node c now s m tier d = None \<longleftrightarrow> filter (placeable now s m tier d) (providers d) = []"
    by (cases "filter (placeable now s m tier d) (providers d)") (simp_all add: select_node_def eligible_nodes_def)
  then show ?thesis by (simp only: filter_empty_conv)
qed

end
