(* ===== verification/Inference.thy ===== *)
theory Inference
  imports Catalog Dispatch Usage_Billing Storage
begin

text \<open>
  The inference gateway: \<open>api/app/routes/inference.py\<close> and \<open>api/app/image_artifacts.py\<close>.  A request has two
  transactions: the hold, which commits at once (\<open>chat_reserve\<close>, \<open>image_reserve\<close>), and everything after it
  (\<open>chat_serve\<close>, \<open>image_serve\<close>), which runs on whatever the database has become in between.  The second answers
  the committed database also when it answers an error, because its \<open>finally\<close> commits.

  The text of a \<open>Decimal\<close> keeps an exponent that a rational does not, so its printer \<open>dec_str\<close> is an argument.
\<close>

section \<open>Requests and responses\<close>

record ChatMessage =
  cm_role :: string
  cm_content :: string

record ChatCompletionRequest =
  cr_model :: string
  cr_messages :: "ChatMessage list"
  cr_max_tokens :: "int option"
  cr_temperature :: rat
  cr_seed :: "int option"
  cr_stream :: bool
  cr_data_tier :: DataTier

definition valid_chat :: "ChatCompletionRequest \<Rightarrow> bool" where
  "valid_chat b \<longleftrightarrow>
     1 \<le> length (cr_model b) \<and> length (cr_model b) \<le> 128
     \<and> 1 \<le> length (cr_messages b) \<and> length (cr_messages b) \<le> 256
     \<and> (\<forall>m \<in> set (cr_messages b). cm_role m \<in> {''system'', ''user'', ''assistant''}
          \<and> 1 \<le> length (cm_content m) \<and> length (cm_content m) \<le> 100000)
     \<and> (case cr_max_tokens b of None \<Rightarrow> True | Some n \<Rightarrow> 1 \<le> n \<and> n \<le> 32768)
     \<and> 0 \<le> cr_temperature b \<and> cr_temperature b \<le> 2
     \<and> (case cr_seed b of None \<Rightarrow> True | Some n \<Rightarrow> 0 \<le> n)"

record ChatCompletionResponse =
  cc_id :: string
  cc_created :: int
  cc_model :: string
  cc_content :: string
  cc_finish_reason :: string
  cc_usage :: ChatUsage
  cc_cost_usdc :: money
  cc_provider_id :: uuid

record ImageGenerationRequest =
  ig_model :: string
  ig_prompt :: string
  ig_n :: int
  ig_seed :: "int option"
  ig_data_tier :: DataTier

definition valid_image :: "ImageGenerationRequest \<Rightarrow> bool" where
  "valid_image b \<longleftrightarrow>
     1 \<le> length (ig_model b) \<and> length (ig_model b) \<le> 128 \<and> 1 \<le> length (ig_prompt b) \<and> length (ig_prompt b) \<le> 4000
     \<and> 1 \<le> ig_n b \<and> ig_n b \<le> 8 \<and> (case ig_seed b of None \<Rightarrow> True | Some n \<Rightarrow> 0 \<le> n)"

record ImageGenerationResponse =
  ir_created :: int
  ir_data :: "string list"
  ir_model :: string
  ir_cost_usdc :: money
  ir_provider_id :: uuid

record ModelInfo =
  mi_spec :: ModelSpec
  mi_available :: bool
  mi_nodes :: nat

section \<open>Shared steps\<close>

definition node_failed :: "dispatch_error \<Rightarrow> err" where
  "node_failed e =
     (case e of
        DispatchTimeoutError _ \<Rightarrow> HTTPException 504 ''The node did not respond in time.''
      | DispatchError _ \<Rightarrow> HTTPException 502 ''The node failed to complete the request.'')"

definition model_or_404 :: "string \<Rightarrow> Modality \<Rightarrow> err + ModelSpec" where
  "model_or_404 model_id modality =
     (case get_model model_id of
        Some spec \<Rightarrow> if ms_modality spec = modality then Inr spec
                     else Inl (HTTPException 404 (''Unknown model '' @ str_repr model_id @ ''.''))
      | None \<Rightarrow> Inl (HTTPException 404 (''Unknown model '' @ str_repr model_id @ ''.'')))"

definition payment_required :: "(money \<Rightarrow> string) \<Rightarrow> err \<Rightarrow> err" where
  "payment_required dec_str e =
     (case e of
        InsufficientBalanceError balance required \<Rightarrow>
          HTTPException 402 (''Balance '' @ dec_str balance @ '' USDC is below the '' @ dec_str required
            @ '' USDC this request could cost. Top up to continue.'')
      | _ \<Rightarrow> e)"

definition pick_node :: "out_requests \<Rightarrow> instant \<Rightarrow> Settings \<Rightarrow> string \<Rightarrow> DataTier \<Rightarrow> db \<Rightarrow> err + uuid" where
  "pick_node c now settings model data_tier d =
     (case select_node c now settings model data_tier d of
        Some pid \<Rightarrow> Inr pid
      | None \<Rightarrow> Inl (HTTPException 503 (''No node is currently serving '' @ str_repr model @ ''.'')))"

definition reserve_or_402 :: "(money \<Rightarrow> string) \<Rightarrow> instant \<Rightarrow> uuid \<Rightarrow> money \<Rightarrow> db \<Rightarrow> err + (money \<times> db)" where
  "reserve_or_402 dec_str now developer_id amount d =
     (case reserve_balance now developer_id amount d of
        Inl e \<Rightarrow> Inl (payment_required dec_str e)
      | Inr r \<Rightarrow> Inr r)"

text \<open>\<open>settle_reservation\<close> as a session sees it: the returned hold is flushed before the charge, and stays in the
  session when the charge raises.\<close>

definition settle_on_session :: "instant \<Rightarrow> uuid \<Rightarrow> uuid \<Rightarrow> money \<Rightarrow> money \<Rightarrow> Settings \<Rightarrow> db \<Rightarrow> (err + money) \<times> db" where
  "settle_on_session now developer_id provider_id held actual settings d =
     (case return_hold now developer_id held d of
        Inl e \<Rightarrow> (Inl e, d)
      | Inr d \<Rightarrow>
          (case charge_usage now developer_id provider_id actual settings None ''inference_usage'' d of
             Inl e \<Rightarrow> (Inl e, d)
           | Inr (cost, d) \<Rightarrow> (Inr cost, d)))"

text \<open>The \<open>finally\<close> of both routes: an exception that leaves the hold unsettled releases it and goes on.\<close>

definition abandon :: "instant \<Rightarrow> uuid \<Rightarrow> money \<Rightarrow> err \<Rightarrow> db \<Rightarrow> (err + 'r) \<times> db" where
  "abandon now developer_id held e d =
     (case release_reservation now developer_id held d of
        Inl e' \<Rightarrow> (Inl e', d)
      | Inr d \<Rightarrow> (Inl e, d))"

definition list_models :: "out_requests \<Rightarrow> instant \<Rightarrow> Settings \<Rightarrow> db \<Rightarrow> ModelInfo list" where
  "list_models c now settings d =
     map (\<lambda>spec. let nodes = eligible_nodes c now settings (ms_id spec) dt_public d in
            \<lparr> mi_spec = spec, mi_available = (nodes \<noteq> []), mi_nodes = length nodes \<rparr>) CATALOG"

section \<open>Chat\<close>

definition prompt_token_bound :: "ChatCompletionRequest \<Rightarrow> int" where
  "prompt_token_bound body = max 1 (sum_list (map (\<lambda>m. int (length (utf8 (cm_content m)))) (cr_messages body)))"

definition finish_reason :: "ChatUsage \<Rightarrow> int \<Rightarrow> string" where
  "finish_reason usage max_output_tokens =
     (if cu_completion_tokens usage \<ge> max_output_tokens then ''length'' else ''stop'')"

definition opt_int :: "int option \<Rightarrow> json" where
  "opt_int x = (case x of None \<Rightarrow> JNull | Some n \<Rightarrow> JInt n)"

definition chat_payload :: "ChatCompletionRequest \<Rightarrow> int \<Rightarrow> jdict" where
  "chat_payload body max_output =
     [(''model'', JStr (cr_model body)),
      (''messages'', JList (map (\<lambda>m. JObj [(''role'', JStr (cm_role m)), (''content'', JStr (cm_content m))]) (cr_messages body))),
      (''max_tokens'', JInt max_output), (''temperature'', JFloat (cr_temperature body)), (''seed'', opt_int (cr_seed body)),
      (''stream'', JBool (cr_stream body))]"

record chat_hold =
  ch_spec :: ModelSpec
  ch_max_output :: int
  ch_prompt_tokens :: int
  ch_worst_case :: money
  ch_held :: money

definition chat_ceiling :: "ModelSpec \<Rightarrow> ChatCompletionRequest \<Rightarrow> int" where
  "chat_ceiling spec body =
     min (case cr_max_tokens body of
            Some n \<Rightarrow> if n \<noteq> 0 then n else ms_max_output_tokens spec
          | None \<Rightarrow> ms_max_output_tokens spec) (ms_max_output_tokens spec)"

definition TIER_501 :: err where
  "TIER_501 = HTTPException 501 (''data_tier=confidential_tee is not supported on the chat path: enclave ''
     @ ''attestation is not enforced here, so the prompt would reach the node in ''
     @ ''cleartext. Use data_tier=public (the default) for chat completions.'')"

definition chat_reserve ::
    "(money \<Rightarrow> string) \<Rightarrow> instant \<Rightarrow> ChatCompletionRequest \<Rightarrow> uuid \<Rightarrow> db \<Rightarrow> err + (chat_hold \<times> db)" where
  "chat_reserve dec_str now body developer_id d =
     (if cr_data_tier body = dt_confidential_tee then Inl TIER_501
      else bindE (model_or_404 (cr_model body) md_chat) (\<lambda>spec.
        let max_output = chat_ceiling spec body;
            prompt_tokens = prompt_token_bound body;
            worst_case = chat_worst_case spec prompt_tokens max_output
        in bindE (reserve_or_402 dec_str now developer_id worst_case d) (\<lambda>(held, d).
             Inr (\<lparr> ch_spec = spec, ch_max_output = max_output, ch_prompt_tokens = prompt_tokens,
                    ch_worst_case = worst_case, ch_held = held \<rparr>, d))))"

datatype chat_reply = Completed ChatCompletionResponse | Streaming uuid jdict

definition chat_billed :: "chat_hold \<Rightarrow> ChatUsage \<Rightarrow> money" where
  "chat_billed h usage =
     min (chat_cost (ch_spec h) (cu_prompt_tokens usage) (cu_completion_tokens usage)) (ch_worst_case h)"

definition chat_serve ::
    "http_post \<Rightarrow> out_requests \<Rightarrow> instant \<Rightarrow> Settings \<Rightarrow> string \<Rightarrow> ChatCompletionRequest \<Rightarrow> uuid \<Rightarrow> chat_hold \<Rightarrow> db
     \<Rightarrow> (err + chat_reply) \<times> db" where
  "chat_serve post c now settings token body developer_id h d =
     (case pick_node c now settings (cr_model body) (cr_data_tier body) d of
        Inl e \<Rightarrow> abandon now developer_id (ch_held h) e d
      | Inr pid \<Rightarrow>
          (let payload = chat_payload body (ch_max_output h) in
           if cr_stream body then (Inr (Streaming pid payload), d)
           else
             (case dispatch post pid ''chat.completions'' payload None of
                Inl e \<Rightarrow> abandon now developer_id (ch_held h) (node_failed e) d
              | Inr reply \<Rightarrow>
                  (let usage = usage_from reply (ch_prompt_tokens h) (ch_max_output h) in
                   case settle_on_session now developer_id pid (ch_held h) (chat_billed h usage) settings d of
                     (Inl e, d) \<Rightarrow> abandon now developer_id (ch_held h) e d
                   | (Inr cost, d) \<Rightarrow>
                       (Inr (Completed
                          \<lparr> cc_id = ''chatcmpl-'' @ token, cc_created = now div 1000000, cc_model = cr_model body,
                            cc_content = py_str (case map_of reply ''content'' of None \<Rightarrow> JStr [] | Some v \<Rightarrow> v),
                            cc_finish_reason = finish_reason usage (ch_max_output h), cc_usage = usage,
                            cc_cost_usdc = cost, cc_provider_id = pid \<rparr>), d)))))"

definition chat_completions ::
    "(money \<Rightarrow> string) \<Rightarrow> http_post \<Rightarrow> out_requests \<Rightarrow> instant \<Rightarrow> Settings \<Rightarrow> string \<Rightarrow> ChatCompletionRequest \<Rightarrow> uuid \<Rightarrow> db
     \<Rightarrow> (err + chat_reply) \<times> db" where
  "chat_completions dec_str post c now settings token body developer_id d =
     (case chat_reserve dec_str now body developer_id d of
        Inl e \<Rightarrow> (Inl e, d)
      | Inr (h, d) \<Rightarrow> chat_serve post c now settings token body developer_id h d)"

section \<open>Images\<close>

text \<open>\<open>base64.b64decode(s, validate=True)\<close> of Python 3.11.\<close>

definition b64_alphabet :: string where
  "b64_alphabet = ''ABCDEFGHIJKLMNOPQRSTUVWXYZabcdefghijklmnopqrstuvwxyz0123456789+/''"

definition b64_val :: "char \<Rightarrow> int" where
  "b64_val c = int (length (takeWhile (\<lambda>x. x \<noteq> c) b64_alphabet))"

fun b64_bytes :: "int list \<Rightarrow> string" where
  "b64_bytes (a # b # c # e # xs) =
     (let n = ((a * 64 + b) * 64 + c) * 64 + e in
      char_of (n div 65536) # char_of (n div 256 mod 256) # char_of (n mod 256) # b64_bytes xs)"
| "b64_bytes [a, b, c] = (let n = (a * 64 + b) * 64 + c in [char_of (n div 1024), char_of (n div 4 mod 256)])"
| "b64_bytes [a, b] = [char_of ((a * 64 + b) div 16)]"
| "b64_bytes xs = []"

definition b64decode :: "string \<Rightarrow> string option" where
  "b64decode s =
     (let body = takeWhile (\<lambda>c. c \<noteq> CHR ''='') s;
          pads = dropWhile (\<lambda>c. c \<noteq> CHR ''='') s;
          r = length body mod 4
      in if \<not> set body \<subseteq> set b64_alphabet \<or> \<not> set pads \<subseteq> {CHR ''=''} then None
         else if (r = 0 \<and> (body \<noteq> [] \<or> pads = [])) \<or> (r = 2 \<and> length pads = 2) \<or> (r = 3 \<and> length pads = 1)
         then Some (b64_bytes (map b64_val body)) else None)"

definition rstrip_slash :: "string \<Rightarrow> string" where
  "rstrip_slash s = rev (dropWhile (\<lambda>c. c = CHR ''/'') (rev s))"

definition image_url :: "string \<Rightarrow> Settings \<Rightarrow> string" where
  "image_url ref settings = rstrip_slash (public_base_url settings) @ ''/public/image/'' @ ref"

text \<open>The store is an argument, as everywhere the source calls \<open>get_storage()\<close>.\<close>

fun store_images ::
    "(string \<Rightarrow> string \<Rightarrow> 's \<Rightarrow> err + (string \<times> 's)) \<Rightarrow> Settings \<Rightarrow> json list \<Rightarrow> 's \<Rightarrow> (err + string list) \<times> 's" where
  "store_images put settings [] st = (Inr [], st)"
| "store_images put settings (item # items) st =
     (case (case item of JStr s \<Rightarrow> b64decode s | _ \<Rightarrow> None) of
        None \<Rightarrow> store_images put settings items st
      | Some data \<Rightarrow>
          if data = [] then store_images put settings items st
          else (case put data ''.png'' st of
                  Inl e \<Rightarrow> (Inl e, st)
                | Inr (ref, st) \<Rightarrow>
                    (case store_images put settings items st of
                       (Inl e, st) \<Rightarrow> (Inl e, st)
                     | (Inr urls, st) \<Rightarrow> (Inr (image_url ref settings # urls), st))))"

definition store_node_images ::
    "(string \<Rightarrow> string \<Rightarrow> 's \<Rightarrow> err + (string \<times> 's)) \<Rightarrow> Settings \<Rightarrow> json \<Rightarrow> 's \<Rightarrow> (err + string list) \<times> 's" where
  "store_node_images put settings images st =
     (case images of JList items \<Rightarrow> store_images put settings items st | _ \<Rightarrow> (Inr [], st))"

definition image_payload :: "ImageGenerationRequest \<Rightarrow> jdict" where
  "image_payload body =
     [(''model'', JStr (ig_model body)), (''prompt'', JStr (ig_prompt body)), (''n'', JInt (ig_n body)), (''seed'', opt_int (ig_seed body))]"

definition image_reserve ::
    "(money \<Rightarrow> string) \<Rightarrow> instant \<Rightarrow> ImageGenerationRequest \<Rightarrow> uuid \<Rightarrow> db \<Rightarrow> err + (ModelSpec \<times> money \<times> db)" where
  "image_reserve dec_str now body developer_id d =
     bindE (model_or_404 (ig_model body) md_image) (\<lambda>spec.
       bindE (reserve_or_402 dec_str now developer_id (image_cost spec (ig_n body)) d) (\<lambda>(held, d). Inr (spec, held, d)))"

definition image_serve ::
    "(string \<Rightarrow> string \<Rightarrow> 's \<Rightarrow> err + (string \<times> 's)) \<Rightarrow> http_post \<Rightarrow> out_requests \<Rightarrow> instant \<Rightarrow> Settings
     \<Rightarrow> ImageGenerationRequest \<Rightarrow> uuid \<Rightarrow> ModelSpec \<Rightarrow> money \<Rightarrow> db \<Rightarrow> 's \<Rightarrow> ((err + ImageGenerationResponse) \<times> db) \<times> 's" where
  "image_serve put post c now settings body developer_id spec held d st =
     (case pick_node c now settings (ig_model body) (ig_data_tier body) d of
        Inl e \<Rightarrow> (abandon now developer_id held e d, st)
      | Inr pid \<Rightarrow>
          (case dispatch post pid ''images.generations'' (image_payload body) None of
             Inl e \<Rightarrow> (abandon now developer_id held (node_failed e) d, st)
           | Inr reply \<Rightarrow>
               (case store_node_images put settings (jget reply ''images'') st of
                  (Inl e, st) \<Rightarrow> (abandon now developer_id held e d, st)
                | (Inr all_urls, st) \<Rightarrow>
                    (let urls = take (nat (ig_n body)) all_urls in
                     case settle_on_session now developer_id pid held (image_cost spec (int (length urls))) settings d of
                       (Inl e, d) \<Rightarrow> (abandon now developer_id held e d, st)
                     | (Inr cost, d) \<Rightarrow>
                         ((Inr \<lparr> ir_created = now div 1000000, ir_data = urls, ir_model = ig_model body,
                                 ir_cost_usdc = cost, ir_provider_id = pid \<rparr>, d), st)))))"

section \<open>A hold and its resolution\<close>

definition hold_resolved :: "uuid \<Rightarrow> uuid \<Rightarrow> money \<Rightarrow> money \<Rightarrow> Settings \<Rightarrow> db \<Rightarrow> db \<Rightarrow> bool" where
  "hold_resolved dev p held cost s d d' \<longleftrightarrow> ledger_only d d' \<and>
     (\<forall>acc ref. account_balance acc ref d' = account_balance acc ref d
        + effect acc ref [Dr la_escrow held (Some dev), Cr la_developer held (Some dev)]
        + effect acc ref [Dr la_developer cost (Some dev), Cr la_provider (cost - usage_fee cost s) (Some p),
                          Cr la_protocol (usage_fee cost s) None])"

definition a_hold :: "money \<Rightarrow> bool" where
  "a_hold held \<longleftrightarrow> 0 \<le> held \<and> quantize_usdc held = held \<and> held < 10 ^ 15"

lemma usage_fee_0 [simp]: "usage_fee 0 s = 0"
  by (simp add: usage_fee_def quantize_usdc_def ctx_def)

lemma release_resolves:
  assumes "a_hold held"
  shows "\<exists>d'. release_reservation now dev held d = Inr d' \<and> hold_resolved dev p held 0 s d d'"
proof -
  obtain d' where d': "return_hold now dev held d = Inr d'" using return_hold_total by blast
  have "max 0 (quantize_usdc held) = held" using assms by (simp add: a_hold_def max_absorb2)
  then have "hold_resolved dev p held 0 s d d'"
    using return_hold_Inr(1) [OF d'] return_hold_Inr(2) [OF d'] by (simp add: hold_resolved_def)
  then show ?thesis using d' by (auto simp: release_reservation_def)
qed

lemma abandon_resolves:
  assumes "a_hold held"
  obtains d' where "abandon now dev held e d = (Inl e, d')" "hold_resolved dev p held 0 s d d'"
  using release_resolves [OF assms, of now dev d p s] by (auto simp: abandon_def)

lemma settle_resolves:
  assumes h: "a_hold held" and s: "valid_settings s" and le: "quantize_usdc actual \<le> held"
    and bal: "quantize_usdc actual \<le> developer_balance dev d + held"
  obtains d' where "settle_on_session now dev p held actual s d = (Inr (max 0 (quantize_usdc actual)), d')"
    "hold_resolved dev p held (max 0 (quantize_usdc actual)) s d d'"
proof -
  let ?c = "max 0 (quantize_usdc actual)"
  obtain e where e: "return_hold now dev held d = Inr e" using return_hold_total by blast
  have q: "max 0 (quantize_usdc held) = held" "held < 10 ^ 15" using h by (simp_all add: a_hold_def max_absorb2)
  note be = return_hold_Inr(2) [OF e, unfolded q(1)]
  have "quantize_usdc actual \<le> developer_balance dev e" using bal by (simp add: developer_balance_def be)
  moreover have "quantize_usdc actual < 10 ^ 16" using le q(2) by simp
  ultimately obtain d' where d': "charge_usage now dev p actual s None ''inference_usage'' e = Inr (?c, d')"
    using charge_usage_succeeds [OF s, of actual dev e now p None "''inference_usage''"] by blast
  have small: "?c < 10 ^ 16" using le q(2) by simp
  have "hold_resolved dev p held ?c s d d'"
    unfolding hold_resolved_def
    using ledger_only_trans [OF return_hold_Inr(1) [OF e] charge_usage_Inr(2) [OF d']]
      charge_usage_balance(1) [OF d' s small] be by simp
  then show ?thesis using that e d' by (simp add: settle_on_session_def)
qed

lemma settle_short:
  assumes h: "a_hold held" and pos: "0 < quantize_usdc actual" and bal: "developer_balance dev d + held < quantize_usdc actual"
  obtains e d' where "settle_on_session now dev p held actual s d = (Inl (InsufficientBalanceError (developer_balance dev d + held) (quantize_usdc actual)), d')"
    "hold_resolved dev p held 0 s d d'"
proof -
  obtain e where e: "return_hold now dev held d = Inr e" using return_hold_total by blast
  have q: "max 0 (quantize_usdc held) = held" using h by (simp add: a_hold_def max_absorb2)
  note be = return_hold_Inr(2) [OF e, unfolded q]
  have b: "developer_balance dev e = developer_balance dev d + held" by (simp add: developer_balance_def be)
  then have "charge_usage now dev p actual s None ''inference_usage'' e
      = Inl (InsufficientBalanceError (developer_balance dev d + held) (quantize_usdc actual))"
    using pos bal by (simp add: charge_usage_def Let_def)
  moreover have "hold_resolved dev p held 0 s d e"
    using return_hold_Inr(1) [OF e] be by (simp add: hold_resolved_def)
  ultimately show ?thesis using that e by (simp add: settle_on_session_def)
qed

text \<open>The session view agrees with the operation wherever the latter succeeds.\<close>

lemma settle_on_session_Inr:
  "settle_on_session now dev p held actual s d = (Inr c, d') \<longleftrightarrow> settle_reservation now dev p held actual s d = Inr (c, d')"
  by (auto simp: settle_on_session_def settle_reservation_def split: sum.splits)

lemma reserve_holds:
  assumes "reserve_balance now dev x d = Inr (held, d')" "0 \<le> x" "x \<le> 10 ^ 12"
  shows "a_hold held" "held = quantize_usdc x" "ledger_only d d'"
    "account_balance acc ref d' = account_balance acc ref d + effect acc ref [Dr la_developer held (Some dev), Cr la_escrow held (Some dev)]"
    "0 \<le> developer_balance dev d \<Longrightarrow> 0 \<le> developer_balance dev d'"
proof -
  have "0 \<le> quantize_usdc x" using assms(2) by (simp add: quantize_usdc_def)
  then show held: "held = quantize_usdc x" using reserve_balance_Inr(1) [OF assms(1)] by simp
  have "quantize_usdc (10 ^ 12) = 10 ^ 12" unfolding quantize_usdc_def by (rule quantize_id) (rule on_gridI [of _ _ "10 ^ 18"], simp)
  then have "held \<le> 10 ^ 12" using quantize_usdc_mono [OF assms(3)] held by simp
  then show "a_hold held" using held \<open>0 \<le> quantize_usdc x\<close> by (simp add: a_hold_def)
  show "ledger_only d d'"
    "account_balance acc ref d' = account_balance acc ref d + effect acc ref [Dr la_developer held (Some dev), Cr la_escrow held (Some dev)]"
    "0 \<le> developer_balance dev d \<Longrightarrow> 0 \<le> developer_balance dev d'"
    by (rule reserve_balance_Inr [OF assms(1)])+
qed

section \<open>Bounds of a request\<close>

lemma ctx_int: "\<bar>n\<bar> < 10 ^ 20 \<Longrightarrow> ctx (of_int n) = of_int n"
proof (rule ctx_grid [of 0])
  show "on_grid 0 (of_int n)" by (rule on_gridI [of _ _ n]) simp
  assume "\<bar>n\<bar> < 10 ^ 20"
  then have "(of_int \<bar>n\<bar> :: rat) < of_int (10 ^ 20)" by (simp only: of_int_less_iff)
  then show "\<bar>of_int n :: rat\<bar> < 10 ^ 20" by simp
qed simp

lemma catalog_prices:
  assumes "get_model m = Some spec"
  shows "ms_input_usdc_per_mtok spec \<le> 1" "ms_output_usdc_per_mtok spec \<le> 1" "ms_usdc_per_image spec \<le> 1"
    "ms_max_output_tokens spec = 4096"
proof -
  have "spec \<in> set CATALOG" using tget_SomeD [OF assms [unfolded get_model_def]] by blast
  then show "ms_input_usdc_per_mtok spec \<le> 1" "ms_output_usdc_per_mtok spec \<le> 1" "ms_usdc_per_image spec \<le> 1"
    "ms_max_output_tokens spec = 4096"
    by (auto simp: CATALOG_def chat_model_def image_model_def)
qed

lemma chat_cost_small:
  assumes m: "get_model m = Some spec" and n: "i \<le> 10 ^ 9" "k \<le> 10 ^ 9"
  shows "chat_cost spec i k \<le> 10 ^ 12"
proof -
  have s: "0 \<le> ms_input_usdc_per_mtok spec" "0 \<le> ms_output_usdc_per_mtok spec" using get_model_ok [OF m] by (simp_all add: spec_ok_def)
  have one: "ctx 1 = 1" using ctx_int [of 1] by simp
  have leg: "ctx (ctx (x / 1000000) * of_int (max j 0)) \<le> 10 ^ 9" if "0 \<le> x" "x \<le> 1" "j \<le> 10 ^ 9" for x :: rat and j
  proof -
    have "ctx (x / 1000000) \<le> 1" using ctx_mono [of "x / 1000000" 1] that one by simp
    moreover have "of_int (max j 0) \<le> (10 ^ 9 :: rat)" using that(3) by (simp add: of_int_max)
    ultimately have "ctx (x / 1000000) * of_int (max j 0) \<le> 1 * 10 ^ 9"
      using that(1) by (intro mult_mono) auto
    from ctx_mono [OF this] show ?thesis using ctx_int [of "10 ^ 9"] by simp
  qed
  have "chat_cost spec i k \<le> ctx (10 ^ 9 + 10 ^ 9)"
    unfolding chat_cost_def Let_def
    using leg [OF s(1) catalog_prices(1) [OF m] n(1)] leg [OF s(2) catalog_prices(2) [OF m] n(2)] by (intro ctx_mono add_mono) auto
  then show ?thesis using ctx_int [of "2 * 10 ^ 9"] by simp
qed

lemma image_cost_small:
  assumes m: "get_model m = Some spec" and n: "k \<le> 10 ^ 9"
  shows "image_cost spec k \<le> 10 ^ 12"
proof -
  have "ms_usdc_per_image spec * of_int (max k 0) \<le> 1 * 10 ^ 9"
  proof (rule mult_mono)
    show "of_int (max k 0) \<le> (10 ^ 9 :: rat)" using n by (simp add: of_int_max)
  qed (use catalog_prices(3) [OF m] in auto)
  from ctx_mono [OF this] show ?thesis using ctx_int [of "10 ^ 9"] by (simp add: image_cost_def)
qed

lemma utf8_length: "length (utf8 s) \<le> 2 * length s"
  by (induction s) (auto simp: utf8_def Let_def)

lemma prompt_bound:
  assumes "valid_chat body"
  shows "1 \<le> prompt_token_bound body" "prompt_token_bound body \<le> 10 ^ 9"
proof -
  have "sum_list (map (\<lambda>m. int (length (utf8 (cm_content m)))) ms) \<le> int (length ms) * 200000"
    if "\<forall>m \<in> set ms. length (cm_content m) \<le> 100000" for ms
    using that
  proof (induction ms)
    case (Cons m ms)
    moreover have "length (utf8 (cm_content m)) \<le> 200000" using utf8_length [of "cm_content m"] Cons.prems by simp
    ultimately show ?case by (simp add: algebra_simps)
  qed simp
  from this [of "cr_messages body"] assms show "prompt_token_bound body \<le> 10 ^ 9"
    by (auto simp: prompt_token_bound_def valid_chat_def)
qed (simp add: prompt_token_bound_def)

section \<open>Chat requests\<close>

text \<open>What \<open>chat_reserve\<close> hands over.\<close>

definition hold_ok :: "chat_hold \<Rightarrow> bool" where
  "hold_ok h \<longleftrightarrow> spec_ok (ch_spec h) \<and> 1 \<le> ch_prompt_tokens h \<and> 1 \<le> ch_max_output h \<and> 0 \<le> ch_worst_case h
     \<and> a_hold (ch_held h) \<and> ch_held h = quantize_usdc (ch_worst_case h)"

lemma chat_reserve_holds:
  assumes "chat_reserve ds now body dev d = Inr (h, d')" "valid_chat body"
  shows "hold_ok h" "ledger_only d d'"
    "account_balance acc ref d' = account_balance acc ref d
       + effect acc ref [Dr la_developer (ch_held h) (Some dev), Cr la_escrow (ch_held h) (Some dev)]"
    "0 \<le> developer_balance dev d \<Longrightarrow> 0 \<le> developer_balance dev d'"
proof -
  obtain spec where spec: "get_model (cr_model body) = Some spec" and
    h: "h = \<lparr> ch_spec = spec, ch_max_output = chat_ceiling spec body, ch_prompt_tokens = prompt_token_bound body,
              ch_worst_case = chat_worst_case spec (prompt_token_bound body) (chat_ceiling spec body), ch_held = ch_held h \<rparr>" and
    r: "reserve_balance now dev (chat_worst_case spec (prompt_token_bound body) (chat_ceiling spec body)) d = Inr (ch_held h, d')"
    using assms(1)
    by (auto simp: chat_reserve_def model_or_404_def reserve_or_402_def Let_def bindE_Inr_iff split: if_splits option.splits sum.splits)
  note p = prompt_bound [OF assms(2)]
  have c: "1 \<le> chat_ceiling spec body" "chat_ceiling spec body \<le> 10 ^ 9"
    using assms(2) catalog_prices(4) [OF spec] by (auto simp: chat_ceiling_def valid_chat_def split: option.splits)
  have w: "0 \<le> chat_worst_case spec (prompt_token_bound body) (chat_ceiling spec body)"
    "chat_worst_case spec (prompt_token_bound body) (chat_ceiling spec body) \<le> 10 ^ 12"
    using chat_cost_nonneg get_model_ok [OF spec] chat_cost_small [OF spec p(2) c(2)] by (simp_all add: chat_worst_case_def)
  note q = reserve_holds [OF r w]
  show "hold_ok h" unfolding hold_ok_def using get_model_ok [OF spec] p(1) c(1) w(1) q(1,2) by (subst (1 2 3 4 5) h) simp
  show "ledger_only d d'"
    "account_balance acc ref d' = account_balance acc ref d
       + effect acc ref [Dr la_developer (ch_held h) (Some dev), Cr la_escrow (ch_held h) (Some dev)]"
    "0 \<le> developer_balance dev d \<Longrightarrow> 0 \<le> developer_balance dev d'"
    by (rule q)+
qed

lemma billed_bounds:
  assumes "hold_ok h"
  shows "0 \<le> chat_billed h (usage_from reply (ch_prompt_tokens h) (ch_max_output h))"
    "quantize_usdc (chat_billed h usage) \<le> ch_held h"
proof -
  have "chat_billed h usage \<le> ch_worst_case h" by (simp add: chat_billed_def)
  then show "quantize_usdc (chat_billed h usage) \<le> ch_held h" using assms quantize_usdc_mono by (auto simp: hold_ok_def)
qed (use assms chat_cost_nonneg in \<open>auto simp: chat_billed_def hold_ok_def\<close>)

lemma chat_serve_resolves:
  assumes h: "hold_ok h" and s: "valid_settings s" and bal: "0 \<le> developer_balance dev d" and u: "\<not> cr_stream body"
  shows "\<exists>r d' p cost. chat_serve post c now s tok body dev h d = (r, d') \<and> 0 \<le> cost \<and> cost \<le> ch_held h
     \<and> hold_resolved dev p (ch_held h) cost s d d'
     \<and> (case r of Inl e \<Rightarrow> cost = 0
         | Inr x \<Rightarrow> \<exists>resp. x = Completed resp \<and> cc_cost_usdc resp = cost \<and> cc_provider_id resp = p)"
proof -
  have hold: "a_hold (ch_held h)" "0 \<le> ch_held h" using h by (simp_all add: hold_ok_def a_hold_def)
  have failed: ?thesis if "chat_serve post c now s tok body dev h d = abandon now dev (ch_held h) e d" for e
  proof -
    obtain d' where "abandon now dev (ch_held h) e d = (Inl e :: err + chat_reply, d')" "hold_resolved dev 0 (ch_held h) 0 s d d'"
      by (rule abandon_resolves [OF hold(1)])
    then show ?thesis using that hold(2) by (intro exI [of _ "Inl e"] exI [of _ d'] exI [of _ 0]) simp
  qed
  show ?thesis
  proof (cases "pick_node c now s (cr_model body) (cr_data_tier body) d")
    case (Inl e)
    then show ?thesis by (intro failed) (simp add: chat_serve_def)
  next
    case (Inr pid)
    show ?thesis
    proof (cases "dispatch post pid ''chat.completions'' (chat_payload body (ch_max_output h)) None")
      case (Inl e)
      then show ?thesis using Inr u by (intro failed) (simp add: chat_serve_def Let_def)
    next
      case reply: (Inr reply)
      let ?u = "usage_from reply (ch_prompt_tokens h) (ch_max_output h)"
      let ?c = "max 0 (quantize_usdc (chat_billed h ?u))"
      note b = billed_bounds(2) [OF h, of ?u]
      obtain d' where d': "settle_on_session now dev pid (ch_held h) (chat_billed h ?u) s d = (Inr ?c, d')"
        "hold_resolved dev pid (ch_held h) ?c s d d'"
        using settle_resolves [OF hold(1) s b, of dev d now pid] b bal by auto
      then show ?thesis using Inr reply u b hold(2) by (simp add: chat_serve_def Let_def)
    qed
  qed
qed

text \<open>When the balance has meanwhile gone below zero the charge fails after the hold went back, and the \<open>finally\<close>
  returns the hold a second time.\<close>

lemma chat_serve_short:
  assumes h: "hold_ok h" and pick: "pick_node c now s (cr_model body) (cr_data_tier body) d = Inr pid" and u: "\<not> cr_stream body"
    and reply: "dispatch post pid ''chat.completions'' (chat_payload body (ch_max_output h)) None = Inr reply"
    and cost: "q = quantize_usdc (chat_billed h (usage_from reply (ch_prompt_tokens h) (ch_max_output h)))" "0 < q"
    and short: "developer_balance dev d + ch_held h < q"
  obtains d' where "chat_serve post c now s tok body dev h d = (Inl (InsufficientBalanceError (developer_balance dev d + ch_held h) q), d')"
    "developer_balance dev d' = developer_balance dev d + 2 * ch_held h"
    "account_balance la_escrow (Some dev) d' = account_balance la_escrow (Some dev) d - 2 * ch_held h"
proof -
  have hold: "a_hold (ch_held h)" using h unfolding hold_ok_def by blast
  let ?e = "InsufficientBalanceError (developer_balance dev d + ch_held h) q"
  obtain e where e: "settle_on_session now dev pid (ch_held h) (chat_billed h (usage_from reply (ch_prompt_tokens h) (ch_max_output h))) s d = (Inl ?e, e)"
    "hold_resolved dev pid (ch_held h) 0 s d e"
    using settle_short [OF hold, of "chat_billed h (usage_from reply (ch_prompt_tokens h) (ch_max_output h))" dev d now pid s] cost short by auto
  obtain d' where d': "abandon now dev (ch_held h) ?e e = (Inl ?e :: err + chat_reply, d')" "hold_resolved dev pid (ch_held h) 0 s e d'"
    by (rule abandon_resolves [OF hold])
  show ?thesis
  proof (rule that)
    show "chat_serve post c now s tok body dev h d = (Inl ?e, d')" using pick reply u e(1) d'(1) by (simp add: chat_serve_def Let_def)
    show "developer_balance dev d' = developer_balance dev d + 2 * ch_held h"
      "account_balance la_escrow (Some dev) d' = account_balance la_escrow (Some dev) d - 2 * ch_held h"
      using e(2) d'(2) by (simp_all add: hold_resolved_def developer_balance_def)
  qed
qed

section \<open>Image requests\<close>

lemma image_reserve_holds:
  assumes "image_reserve ds now body dev d = Inr (spec, held, d')" "valid_image body"
  shows "spec_ok spec" "a_hold held" "held = quantize_usdc (image_cost spec (ig_n body))" "ledger_only d d'"
    "account_balance acc ref d' = account_balance acc ref d + effect acc ref [Dr la_developer held (Some dev), Cr la_escrow held (Some dev)]"
    "0 \<le> developer_balance dev d \<Longrightarrow> 0 \<le> developer_balance dev d'"
proof -
  have spec: "get_model (ig_model body) = Some spec" and r: "reserve_balance now dev (image_cost spec (ig_n body)) d = Inr (held, d')"
    using assms(1)
    by (auto simp: image_reserve_def model_or_404_def reserve_or_402_def bindE_Inr_iff split: if_splits option.splits sum.splits)
  show ok: "spec_ok spec" using get_model_ok [OF spec] by blast
  have n: "ig_n body \<le> 10 ^ 9" using assms(2) by (simp add: valid_image_def)
  note q = reserve_holds [OF r image_cost_nonneg [OF ok] image_cost_small [OF spec n]]
  show "a_hold held" "held = quantize_usdc (image_cost spec (ig_n body))" "ledger_only d d'"
    "account_balance acc ref d' = account_balance acc ref d + effect acc ref [Dr la_developer held (Some dev), Cr la_escrow held (Some dev)]"
    "0 \<le> developer_balance dev d \<Longrightarrow> 0 \<le> developer_balance dev d'"
    by (rule q)+
qed

lemma image_serve_resolves:
  assumes h: "a_hold held" "held = quantize_usdc (image_cost spec (ig_n body))" "spec_ok spec" and s: "valid_settings s"
    and bal: "0 \<le> developer_balance dev d" and n: "0 \<le> ig_n body"
  shows "\<exists>r d' st' p cost. image_serve put post c now s body dev spec held d st = ((r, d'), st') \<and> 0 \<le> cost \<and> cost \<le> held
     \<and> hold_resolved dev p held cost s d d'
     \<and> (case r of Inl e \<Rightarrow> cost = 0 | Inr resp \<Rightarrow> ir_cost_usdc resp = cost \<and> ir_provider_id resp = p \<and> int (length (ir_data resp)) \<le> ig_n body)"
proof -
  have hold: "0 \<le> held" using h(1) by (simp add: a_hold_def)
  have failed: ?thesis if "image_serve put post c now s body dev spec held d st = (abandon now dev held e d, st')" for e st'
  proof -
    obtain d' where "abandon now dev held e d = (Inl e :: err + ImageGenerationResponse, d')" "hold_resolved dev 0 held 0 s d d'"
      by (rule abandon_resolves [OF h(1)])
    then show ?thesis using that hold by (intro exI [of _ "Inl e"] exI [of _ d'] exI [of _ st'] exI [of _ 0]) simp
  qed
  show ?thesis
  proof (cases "pick_node c now s (ig_model body) (ig_data_tier body) d")
    case (Inl e)
    then show ?thesis by (intro failed) (simp add: image_serve_def)
  next
    case pick: (Inr pid)
    show ?thesis
    proof (cases "dispatch post pid ''images.generations'' (image_payload body) None")
      case (Inl e)
      then show ?thesis using pick by (intro failed) (simp add: image_serve_def)
    next
      case reply: (Inr reply)
      obtain su st' where su: "store_node_images put s (jget reply ''images'') st = (su, st')" by force
      show ?thesis
      proof (cases su)
        case (Inl e)
        then show ?thesis using pick reply su by (intro failed) (simp add: image_serve_def)
      next
        case (Inr urls)
        let ?urls = "take (nat (ig_n body)) urls"
        let ?x = "image_cost spec (int (length ?urls))"
        have len: "int (length ?urls) \<le> ig_n body" using n by simp
        have b: "quantize_usdc ?x \<le> held" unfolding h(2) by (rule quantize_usdc_mono [OF image_cost_mono [OF h(3) len]])
        obtain d' where "settle_on_session now dev pid held ?x s d = (Inr (max 0 (quantize_usdc ?x)), d')"
          "hold_resolved dev pid held (max 0 (quantize_usdc ?x)) s d d'"
          using settle_resolves [OF h(1) s b, of dev d now pid] b bal by auto
        then show ?thesis using pick reply su Inr b hold len by (simp add: image_serve_def Let_def)
      qed
    qed
  qed
qed

end
