(* ===== verification/Streaming.thy ===== *)
theory Streaming
  imports Inference
begin

text \<open>
  Streamed chat completions (\<open>api/app/streaming_chat.py\<close>).  What the body reads is a list of events: a frame of
  the relay, an exception of \<open>dispatch_stream\<close>, or the consumer going away at a \<open>yield\<close>; the end of the list is the
  end of the iteration.  \<open>read_stream\<close> is the loop, \<open>chat_stream_body\<close> adds the settlement on a session of its own,
  which an error rolls back.  The SSE text is represented by the deltas it carries.
\<close>

section \<open>Accounting\<close>

text \<open>\<open>int(v)\<close> of a JSON value; \<open>None\<close> is the exception.\<close>

fun digits_val :: "bool \<Rightarrow> int \<Rightarrow> string \<Rightarrow> int option" where
  "digits_val after acc [] = (if after then Some acc else None)"
| "digits_val after acc (c # cs) =
     (let n = (of_char c :: int) in
      if 48 \<le> n \<and> n \<le> 57 then digits_val True (acc * 10 + (n - 48)) cs
      else if c = CHR ''_'' \<and> after then digits_val False acc cs
      else None)"

definition int_of_str :: "string \<Rightarrow> int option" where
  "int_of_str s =
     (case strip s of
        [] \<Rightarrow> None
      | c # cs \<Rightarrow>
          if c = CHR ''-'' then map_option uminus (digits_val False 0 cs)
          else if c = CHR ''+'' then digits_val False 0 cs
          else digits_val False 0 (c # cs))"

definition py_int :: "json \<Rightarrow> int option" where
  "py_int v =
     (case v of
        JInt n \<Rightarrow> Some n | JBool b \<Rightarrow> Some (if b then 1 else 0) | JFloat x \<Rightarrow> Some (round_down x)
      | JStr s \<Rightarrow> int_of_str s | _ \<Rightarrow> None)"

definition chunk_tokens :: "jdict \<Rightarrow> int option" where
  "chunk_tokens frame =
     (case jget frame ''tokens'' of
        JInt n \<Rightarrow> Some (max 0 n)
      | JFloat x \<Rightarrow> Some (max 0 (round_down x))
      | _ \<Rightarrow> None)"

record Accounting =
  bk_emitted :: int
  bk_final :: "ChatUsage option"

definition new_accounting :: Accounting where
  "new_accounting = \<lparr> bk_emitted = 0, bk_final = None \<rparr>"

definition saw_chunk :: "chat_hold \<Rightarrow> jdict \<Rightarrow> Accounting \<Rightarrow> Accounting" where
  "saw_chunk h frame books =
     (let emitted = (case chunk_tokens frame of Some n \<Rightarrow> n | None \<Rightarrow> bk_emitted books + 1)
      in books\<lparr>bk_emitted := min emitted (ch_max_output h)\<rparr>)"

definition completion_tokens :: "chat_hold \<Rightarrow> Accounting \<Rightarrow> int" where
  "completion_tokens h books =
     (case bk_final books of
        Some u \<Rightarrow> min (cu_completion_tokens u) (ch_max_output h)
      | None \<Rightarrow> min (bk_emitted books) (ch_max_output h))"

definition prompt_billed :: "chat_hold \<Rightarrow> Accounting \<Rightarrow> int" where
  "prompt_billed h books = (case bk_final books of Some u \<Rightarrow> cu_prompt_tokens u | None \<Rightarrow> ch_prompt_tokens h)"

definition billable :: "chat_hold \<Rightarrow> Accounting \<Rightarrow> money" where
  "billable h books = min (chat_cost (ch_spec h) (prompt_billed h books) (completion_tokens h books)) (ch_worst_case h)"

definition partial_billable :: "chat_hold \<Rightarrow> Accounting \<Rightarrow> money" where
  "partial_billable h books = (if completion_tokens h books > 0 then billable h books else 0)"

section \<open>Reading the stream\<close>

text \<open>What the body meets while it iterates: a frame, the exception that ends the node's stream, or the departure of
  its own reader, which closes the generator wherever it stands.\<close>

datatype stream_event = Frame jdict | Raised dispatch_error | Gone

definition node_events :: "jdict list \<times> dispatch_error option \<Rightarrow> stream_event list" where
  "node_events r = map Frame (fst r) @ (case snd r of None \<Rightarrow> [] | Some e \<Rightarrow> [Raised e])"

text \<open>How the loop ends: the node finished, the node failed, the stream could not be had, or the body was left by
  another exception (the consumer's departure, or an unreadable status).\<close>

datatype stream_ending = Finished | NodeFailed | NotHad | Left

definition frame_status :: "jdict \<Rightarrow> int option" where
  "frame_status frame = py_int (let v = jget frame ''status'' in if truthy v then v else JInt 200)"

fun read_stream :: "chat_hold \<Rightarrow> stream_event list \<Rightarrow> Accounting \<Rightarrow> stream_ending \<times> Accounting \<times> string list" where
  "read_stream h [] books = (Finished, books, [])"
| "read_stream h (Gone # _) books = (Left, books, [])"
| "read_stream h (Raised _ # _) books = (NotHad, books, [])"
| "read_stream h (Frame frame # events) books =
     (let kind = jget frame ''type'' in
      if kind = JStr ''chunk'' then
        (case jget frame ''delta'' of
           JStr delta \<Rightarrow>
             if delta = [] then read_stream h events books
             else (let (r, books, out) = read_stream h events (saw_chunk h frame books) in (r, books, delta # out))
         | _ \<Rightarrow> read_stream h events books)
      else if kind = JStr ''error'' then (NodeFailed, books, [])
      else if kind \<noteq> JStr ''response'' then read_stream h events books
      else
        (case frame_status frame of
           None \<Rightarrow> (Left, books, [])
         | Some st \<Rightarrow>
             if st \<ge> 400 then (NodeFailed, books, [])
             else
               (Finished,
                (case jget frame ''payload'' of
                   JObj p \<Rightarrow> books\<lparr>bk_final := Some (usage_from p (ch_prompt_tokens h) (ch_max_output h))\<rparr>
                 | _ \<Rightarrow> books), [])))"

section \<open>Settling, however it ends\<close>

text \<open>The final event of the body: usage and cost, an error, or nothing because nobody listens.\<close>

datatype stream_tail = Usage ChatUsage money string | NodeError | Silent

definition finalise_partial :: "instant \<Rightarrow> uuid \<Rightarrow> uuid \<Rightarrow> money \<Rightarrow> money \<Rightarrow> Settings \<Rightarrow> db \<Rightarrow> db" where
  "finalise_partial now developer_id provider_id held actual settings d =
     (if actual > 0 then
        (case settle_reservation now developer_id provider_id held actual settings d of Inl _ \<Rightarrow> d | Inr (_, d) \<Rightarrow> d)
      else (case release_reservation now developer_id held d of Inl _ \<Rightarrow> d | Inr d \<Rightarrow> d))"

definition chat_stream_body ::
    "instant \<Rightarrow> Settings \<Rightarrow> uuid \<Rightarrow> uuid \<Rightarrow> chat_hold \<Rightarrow> stream_event list \<Rightarrow> db \<Rightarrow> stream_tail \<times> string list \<times> db" where
  "chat_stream_body now settings developer_id provider_id h events d =
     (let (r, books, out) = read_stream h events new_accounting in
      case r of
        Finished \<Rightarrow>
          (case settle_reservation now developer_id provider_id (ch_held h) (billable h books) settings d of
             Inr (cost, d) \<Rightarrow>
               (let usage = \<lparr> cu_prompt_tokens = prompt_billed h books, cu_completion_tokens = completion_tokens h books \<rparr>
                in (Usage usage cost (finish_reason usage (ch_max_output h)), out, d))
           | Inl _ \<Rightarrow>
               (Silent, out, finalise_partial now developer_id provider_id (ch_held h) (partial_billable h books) settings d))
      | Left \<Rightarrow> (Silent, out, finalise_partial now developer_id provider_id (ch_held h) (partial_billable h books) settings d)
      | _ \<Rightarrow>
          (case release_reservation now developer_id (ch_held h) d of
             Inr d \<Rightarrow> (NodeError, out, d)
           | Inl _ \<Rightarrow>
               (Silent, out, finalise_partial now developer_id provider_id (ch_held h) (partial_billable h books) settings d)))"

section \<open>Facts\<close>

lemma billable_bounds:
  assumes "hold_ok h"
  shows "0 \<le> billable h books" "quantize_usdc (billable h books) \<le> ch_held h"
    "0 \<le> partial_billable h books" "quantize_usdc (partial_billable h books) \<le> ch_held h"
proof -
  have w: "spec_ok (ch_spec h)" "0 \<le> ch_worst_case h" "ch_held h = quantize_usdc (ch_worst_case h)"
    using assms unfolding hold_ok_def by blast+
  show b: "0 \<le> billable h books" using chat_cost_nonneg [OF w(1)] w(2) by (simp add: billable_def)
  have le: "billable h books \<le> ch_worst_case h" by (simp add: billable_def)
  show "quantize_usdc (billable h books) \<le> ch_held h" unfolding w(3) by (rule quantize_usdc_mono [OF le])
  show "0 \<le> partial_billable h books" using b by (simp add: partial_billable_def)
  show "quantize_usdc (partial_billable h books) \<le> ch_held h"
    unfolding w(3) using le w(2) by (intro quantize_usdc_mono) (simp add: partial_billable_def)
qed

lemma settle_reservation_resolves:
  assumes "a_hold held" "valid_settings s" "quantize_usdc actual \<le> held" "0 \<le> developer_balance dev d"
  obtains d' where "settle_reservation now dev p held actual s d = Inr (max 0 (quantize_usdc actual), d')"
    "hold_resolved dev p held (max 0 (quantize_usdc actual)) s d d'"
proof -
  have "quantize_usdc actual \<le> developer_balance dev d + held" using assms(3,4) by simp
  from settle_resolves [OF assms(1-3) this] show ?thesis using that by (auto simp: settle_on_session_Inr)
qed

lemma finalise_partial_resolves:
  assumes "a_hold held" "valid_settings s" "quantize_usdc actual \<le> held" "0 \<le> developer_balance dev d" "0 \<le> actual"
  shows "hold_resolved dev p held (max 0 (quantize_usdc actual)) s d (finalise_partial now dev p held actual s d)"
proof (cases "actual > 0")
  case True
  obtain d' where "settle_reservation now dev p held actual s d = Inr (max 0 (quantize_usdc actual), d')"
    "hold_resolved dev p held (max 0 (quantize_usdc actual)) s d d'"
    by (rule settle_reservation_resolves [OF assms(1-4)])
  then show ?thesis using True by (simp add: finalise_partial_def)
next
  case False
  then have "actual = 0" using assms(5) by simp
  then show ?thesis using release_resolves [OF assms(1), of now dev d p s] by (auto simp: finalise_partial_def)
qed

text \<open>However a stream ends, its hold goes back once and the charge is within it.\<close>

lemma stream_resolves:
  assumes h: "hold_ok h" and s: "valid_settings s" and bal: "0 \<le> developer_balance dev d"
    and r: "chat_stream_body now s dev p h events d = (tail, out, d')"
  shows "\<exists>cost. 0 \<le> cost \<and> cost \<le> ch_held h \<and> hold_resolved dev p (ch_held h) cost s d d'
     \<and> (tail = NodeError \<longrightarrow> cost = 0) \<and> (\<forall>u x f. tail = Usage u x f \<longrightarrow> cost = x)"
proof -
  have hold: "a_hold (ch_held h)" "0 \<le> ch_held h" using h by (simp_all add: hold_ok_def a_hold_def)
  obtain e books out' where e: "read_stream h events new_accounting = (e, books, out')" by (metis prod_cases3)
  note b = billable_bounds [OF h, of books]
  show ?thesis
  proof (cases e)
    case Finished
    obtain d1 where "settle_reservation now dev p (ch_held h) (billable h books) s d = Inr (max 0 (quantize_usdc (billable h books)), d1)"
      "hold_resolved dev p (ch_held h) (max 0 (quantize_usdc (billable h books))) s d d1"
      by (rule settle_reservation_resolves [OF hold(1) s b(2) bal])
    then show ?thesis using r e Finished b(2) hold(2)
      by (intro exI [of _ "max 0 (quantize_usdc (billable h books))"]) (auto simp: chat_stream_body_def Let_def)
  next
    case Left
    then show ?thesis using r e finalise_partial_resolves [OF hold(1) s b(4) bal b(3)] b(4) hold(2)
      by (intro exI [of _ "max 0 (quantize_usdc (partial_billable h books))"]) (auto simp: chat_stream_body_def)
  qed (use r e release_resolves [OF hold(1), of now dev d p s] hold(2) in \<open>auto simp: chat_stream_body_def\<close>)
qed

text \<open>A stream that ends with the node's report is billed as the same reply would be without streaming.\<close>

fun deltas :: "jdict list \<Rightarrow> string list" where
  "deltas [] = []"
| "deltas (f # fs) = (case jget f ''delta'' of JStr delta \<Rightarrow> if delta = [] then deltas fs else delta # deltas fs | _ \<Rightarrow> deltas fs)"

lemma read_chunks:
  assumes "\<forall>f \<in> set cs. jget f ''type'' = JStr ''chunk''"
  shows "\<exists>b'. read_stream h (map Frame cs @ fs) b = (let (r, b'', out) = read_stream h fs b' in (r, b'', deltas cs @ out))"
  using assms
proof (induction cs arbitrary: b)
  case Nil
  show ?case by (intro exI [of _ b]) (simp split: prod.split)
next
  case (Cons f cs)
  let ?b = "case jget f ''delta'' of JStr delta \<Rightarrow> if delta = [] then b else saw_chunk h f b | _ \<Rightarrow> b"
  obtain b' where "read_stream h (map Frame cs @ fs) ?b = (let (r, b'', out) = read_stream h fs b' in (r, b'', deltas cs @ out))"
    using Cons by fastforce
  then show ?case
    using Cons.prems by (intro exI [of _ b'], cases "jget f ''delta''") (auto simp: Let_def split: prod.split if_splits)
qed

lemma stream_as_unary:
  assumes "\<forall>f \<in> set cs. jget f ''type'' = JStr ''chunk''" "jget fr ''type'' = JStr ''response''"
    "frame_status fr = Some st" "st < 400" "jget fr ''payload'' = JObj p"
  shows "\<exists>books. read_stream h (map Frame cs @ [Frame fr]) b = (Finished, books, deltas cs)
     \<and> bk_final books = Some (usage_from p (ch_prompt_tokens h) (ch_max_output h))
     \<and> billable h books = chat_billed h (usage_from p (ch_prompt_tokens h) (ch_max_output h))"
proof -
  obtain b' where "read_stream h (map Frame cs @ [Frame fr]) b = (let (r, b'', out) = read_stream h [Frame fr] b' in (r, b'', deltas cs @ out))"
    using read_chunks [OF assms(1)] by blast
  then show ?thesis
    using assms(2-5) by (simp add: Let_def billable_def chat_billed_def prompt_billed_def completion_tokens_def usage_from_def)
qed

lemma serve_as_stream:
  assumes serve: "chat_serve post c now s tok body dev h d = (Inr (Completed resp), d')"
    and pick: "pick_node c now s (cr_model body) (cr_data_tier body) d = Inr pid"
    and reply: "dispatch post pid ''chat.completions'' (chat_payload body (ch_max_output h)) None = Inr reply"
    and stream: "\<forall>f \<in> set cs. jget f ''type'' = JStr ''chunk''" "jget fr ''type'' = JStr ''response''"
      "frame_status fr = Some st" "st < 400" "jget fr ''payload'' = JObj reply"
  shows "chat_stream_body now s dev pid h (map Frame cs @ [Frame fr]) d
     = (Usage (cc_usage resp) (cc_cost_usdc resp) (cc_finish_reason resp), deltas cs, d')"
proof -
  let ?u = "usage_from reply (ch_prompt_tokens h) (ch_max_output h)"
  obtain books where books: "read_stream h (map Frame cs @ [Frame fr]) new_accounting = (Finished, books, deltas cs)"
    "bk_final books = Some ?u" "billable h books = chat_billed h ?u"
    using stream_as_unary [OF stream] by blast
  have u: "cu_completion_tokens ?u \<le> ch_max_output h" by (simp add: usage_from_def Let_def)
  have unary: "\<not> cr_stream body"
  proof
    assume "cr_stream body"
    then show False using serve by (simp add: chat_serve_def pick)
  qed
  obtain r e where set: "settle_on_session now dev pid (ch_held h) (chat_billed h ?u) s d = (r, e)" by fastforce
  have "\<exists>cost. r = Inr cost"
  proof (cases r)
    case (Inl x)
    then show ?thesis
      using serve by (simp add: chat_serve_def pick reply unary set abandon_def Let_def split: sum.splits)
  qed simp
  then obtain cost where r: "r = Inr cost" by blast
  have resp: "e = d'" "cc_cost_usdc resp = cost" "cc_usage resp = ?u" "cc_finish_reason resp = finish_reason ?u (ch_max_output h)"
    using serve by (auto simp: chat_serve_def pick reply unary set r Let_def)
  have "settle_reservation now dev pid (ch_held h) (billable h books) s d = Inr (cost, d')"
    using set r resp(1) by (simp add: books settle_on_session_Inr)
  moreover have "\<lparr> cu_prompt_tokens = prompt_billed h books, cu_completion_tokens = completion_tokens h books \<rparr> = ?u"
    using u by (simp add: prompt_billed_def completion_tokens_def books(2))
  ultimately show ?thesis by (simp add: chat_stream_body_def books(1) Let_def resp)
qed

text \<open>A stream that breaks while it is being read is not told apart from one that never started: the reader has
  every chunk, the whole hold goes back and the provider is paid nothing.\<close>

lemma broken_midway:
  assumes "hold_ok h" "\<forall>f \<in> set cs. jget f ''type'' = JStr ''chunk''"
  shows "\<exists>d'. chat_stream_body now s dev p h (node_events (cs, Some e)) d = (NodeError, deltas cs, d')
           \<and> hold_resolved dev p (ch_held h) 0 s d d'"
proof -
  have "a_hold (ch_held h)" using assms(1) unfolding hold_ok_def by blast
  then obtain d' where d': "release_reservation now dev (ch_held h) d = Inr d'" "hold_resolved dev p (ch_held h) 0 s d d'"
    using release_resolves by blast
  obtain b' where "read_stream h (map Frame cs @ [Raised e]) new_accounting = (NotHad, b', deltas cs)"
    using read_chunks [OF assms(2), of h "[Raised e]" new_accounting] by auto
  then show ?thesis using d' by (simp add: chat_stream_body_def node_events_def)
qed

text \<open>A charge that the balance cannot cover leaves the hold where it is.\<close>

lemma settle_reservation_short:
  assumes "a_hold held" "0 < quantize_usdc actual" "developer_balance dev d + held < quantize_usdc actual"
  shows "settle_reservation now dev p held actual s d = Inl (InsufficientBalanceError (developer_balance dev d + held) (quantize_usdc actual))"
proof -
  obtain e where e: "return_hold now dev held d = Inr e" using return_hold_total by blast
  have "max 0 (quantize_usdc held) = held" using assms(1) by (simp add: a_hold_def max_absorb2)
  then have "developer_balance dev e = developer_balance dev d + held"
    using return_hold_Inr(2) [OF e] by (simp add: developer_balance_def)
  then show ?thesis using e assms(2,3) by (simp add: settle_reservation_def charge_usage_def Let_def)
qed

lemma stream_strands:
  assumes h: "hold_ok h" and r: "read_stream h events new_accounting = (Finished, books, out)"
    and q: "q = quantize_usdc (billable h books)" "0 < q" "developer_balance dev d + ch_held h < q" "0 < completion_tokens h books"
  shows "chat_stream_body now s dev p h events d = (Silent, out, d)"
proof -
  have "a_hold (ch_held h)" using h unfolding hold_ok_def by blast
  from settle_reservation_short [OF this, of "billable h books" dev d now p s] q(2,3)
  have f: "settle_reservation now dev p (ch_held h) (billable h books) s d = Inl (InsufficientBalanceError (developer_balance dev d + ch_held h) q)"
    unfolding q(1) by blast
  have "partial_billable h books = billable h books" using q(4) by (simp add: partial_billable_def)
  moreover have "billable h books \<noteq> 0" using q(1,2) by (auto simp: quantize_usdc_def)
  then have "0 < billable h books" using billable_bounds(1) [OF h, of books] by simp
  ultimately show ?thesis using r f by (simp add: chat_stream_body_def finalise_partial_def)
qed

section \<open>What enters the books\<close>

text \<open>Token counts stay within the ceiling of the request, whatever the frames say.\<close>

definition books_ok :: "chat_hold \<Rightarrow> Accounting \<Rightarrow> bool" where
  "books_ok h books \<longleftrightarrow> 0 \<le> bk_emitted books \<and> bk_emitted books \<le> ch_max_output h
     \<and> (\<forall>u. bk_final books = Some u \<longrightarrow> 0 \<le> cu_prompt_tokens u \<and> 0 \<le> cu_completion_tokens u \<and> cu_completion_tokens u \<le> ch_max_output h)"

lemma saw_chunk_ok: "0 \<le> ch_max_output h \<Longrightarrow> books_ok h books \<Longrightarrow> books_ok h (saw_chunk h frame books)"
  by (auto simp: books_ok_def saw_chunk_def Let_def chunk_tokens_def split: option.splits json.splits)

lemma final_ok:
  "0 \<le> ch_prompt_tokens h \<Longrightarrow> 0 \<le> ch_max_output h \<Longrightarrow> books_ok h books
     \<Longrightarrow> books_ok h (books\<lparr>bk_final := Some (usage_from p (ch_prompt_tokens h) (ch_max_output h))\<rparr>)"
  using usage_bounds by (simp add: books_ok_def)

lemma read_frame:
  assumes "read_stream h (Frame f # events) books = (e, books', out)"
  shows "books' = books \<or> (\<exists>p. books' = books\<lparr>bk_final := Some (usage_from p (ch_prompt_tokens h) (ch_max_output h))\<rparr>)
    \<or> (\<exists>b out'. (b = books \<or> b = saw_chunk h f books) \<and> read_stream h events b = (e, books', out'))"
  using assms by (auto simp: Let_def split: if_splits json.splits option.splits prod.splits)

lemma read_stream_ok:
  assumes "0 \<le> ch_prompt_tokens h" "0 \<le> ch_max_output h" "books_ok h books" "read_stream h events books = (e, books', out)"
  shows "books_ok h books'"
  using assms(3,4)
proof (induction events arbitrary: books out)
  case (Cons ev events)
  show ?case
  proof (cases ev)
    case (Frame f)
    from read_frame [OF Cons.prems(2) [unfolded Frame]] Cons.IH Cons.prems(1) final_ok [OF assms(1,2)] saw_chunk_ok [OF assms(2)]
    show ?thesis by blast
  qed (use Cons.prems in simp_all)
qed simp

end
