(* ===== verification/Tunnel.thy ===== *)
theory Tunnel
  imports Stdlib
begin

text \<open>
  A provider's tunnel (class \<open>Tunnel\<close> of \<open>api/app/relay.py\<close>): the correlation of requests with the frames a node
  sends back over one WebSocket.  A unary request waits on a future, a streamed one on a bounded queue; the queue
  outlives its registration, because the consumer still drains it.  Frames are JSON objects; what the relay sends is
  recorded in order.
\<close>

definition MAX_STREAM_QUEUE_FRAMES :: nat where
  "MAX_STREAM_QUEUE_FRAMES = 1024"

section \<open>State\<close>

datatype future = Waiting | Answered jdict | Broken string

record tunnel =
  tn_pending :: "string \<Rightarrow> future option"
  tn_streams :: "string set"
  tn_queues :: "string \<Rightarrow> jdict list"
  tn_sent :: "jdict list"

definition new_tunnel :: tunnel where
  "new_tunnel = \<lparr> tn_pending = (\<lambda>_. None), tn_streams = {}, tn_queues = (\<lambda>_. []), tn_sent = [] \<rparr>"

definition send_json :: "jdict \<Rightarrow> tunnel \<Rightarrow> tunnel" where
  "send_json frame t = t\<lparr>tn_sent := tn_sent t @ [frame]\<rparr>"

definition request_frame :: "string \<Rightarrow> string option \<Rightarrow> string \<Rightarrow> jdict \<Rightarrow> bool \<Rightarrow> jdict" where
  "request_frame rid job_id meth payload streamed =
     [(''type'', JStr ''request''), (''request_id'', JStr rid), (''job_id'', jopt job_id), (''method'', JStr meth),
      (''payload'', JObj payload), (''stream'', JBool streamed)]"

definition error_frame :: "string \<Rightarrow> jdict" where
  "error_frame msg = [(''type'', JStr ''error''), (''error'', JStr msg)]"

section \<open>Unary calls\<close>

text \<open>A call registers its future and sends; it ends with the reply, the tunnel's end, or the timer, and forgets the future.\<close>

definition call_begin :: "string \<Rightarrow> string option \<Rightarrow> string \<Rightarrow> jdict \<Rightarrow> tunnel \<Rightarrow> tunnel" where
  "call_begin rid job_id meth payload t =
     send_json (request_frame rid job_id meth payload False) (t\<lparr>tn_pending := (tn_pending t)(rid \<mapsto> Waiting)\<rparr>)"

datatype call_outcome = Reply jdict | TimedOut | TunnelClosed

definition call_outcome_of :: "string \<Rightarrow> tunnel \<Rightarrow> call_outcome" where
  "call_outcome_of rid t =
     (case tn_pending t rid of Some (Answered f) \<Rightarrow> Reply f | Some (Broken _) \<Rightarrow> TunnelClosed | _ \<Rightarrow> TimedOut)"

definition call_end :: "string \<Rightarrow> tunnel \<Rightarrow> call_outcome \<times> tunnel" where
  "call_end rid t = (call_outcome_of rid t, t\<lparr>tn_pending := (tn_pending t)(rid := None)\<rparr>)"

section \<open>Streamed calls\<close>

definition stream_begin :: "string \<Rightarrow> string option \<Rightarrow> string \<Rightarrow> jdict \<Rightarrow> tunnel \<Rightarrow> tunnel" where
  "stream_begin rid job_id meth payload t =
     send_json (request_frame rid job_id meth payload True)
       (t\<lparr>tn_streams := insert rid (tn_streams t), tn_queues := (tn_queues t)(rid := [])\<rparr>)"

text \<open>The next frame and whether it ends the stream; \<open>None\<close> while the queue is empty.\<close>

definition stream_next :: "string \<Rightarrow> tunnel \<Rightarrow> (jdict \<times> bool \<times> tunnel) option" where
  "stream_next rid t =
     (case tn_queues t rid of
        [] \<Rightarrow> None
      | frame # rest \<Rightarrow> Some (frame, jget frame ''type'' \<noteq> JStr ''chunk'', t\<lparr>tn_queues := (tn_queues t)(rid := rest)\<rparr>))"

definition cancel_frame :: "string \<Rightarrow> jdict" where
  "cancel_frame rid = [(''type'', JStr ''cancel''), (''request_id'', JStr rid)]"

text \<open>The \<open>finally\<close> of a stream; \<open>alive\<close> says whether the socket still takes the cancellation.\<close>

definition stream_end :: "bool \<Rightarrow> string \<Rightarrow> bool \<Rightarrow> tunnel \<Rightarrow> tunnel" where
  "stream_end alive rid finished t =
     (let t = t\<lparr>tn_streams := tn_streams t - {rid}\<rparr>
      in if \<not> finished \<and> alive then send_json (cancel_frame rid) t else t)"

section \<open>Frames from the node\<close>

definition OVERFLOW :: string where
  "OVERFLOW = ''stream exceeded the relay'' @ [char_of (39::int)] @ ''s buffer''"

definition offer :: "string \<Rightarrow> jdict \<Rightarrow> tunnel \<Rightarrow> tunnel" where
  "offer rid frame t =
     (let q = tn_queues t rid in
      if length q < MAX_STREAM_QUEUE_FRAMES then t\<lparr>tn_queues := (tn_queues t)(rid := q @ [frame])\<rparr>
      else t\<lparr>tn_streams := tn_streams t - {rid},
             tn_queues := (tn_queues t)(rid := tl q @ [error_frame OVERFLOW])\<rparr>)"

text \<open>\<open>None\<close> is the \<open>TypeError\<close> of a request id that cannot be a key.\<close>

definition handle_incoming :: "json \<Rightarrow> tunnel \<Rightarrow> tunnel option" where
  "handle_incoming msg t =
     (case msg of
        JObj m \<Rightarrow>
          (let kind = jget m ''type'' in
           if kind = JStr ''ping'' then Some (send_json [(''type'', JStr ''pong'')] t)
           else if kind \<noteq> JStr ''chunk'' \<and> kind \<noteq> JStr ''response'' then Some t
           else
             (case jget m ''request_id'' of
                JStr rid \<Rightarrow>
                  if rid \<in> tn_streams t then Some (offer rid m t)
                  else if kind = JStr ''response'' \<and> tn_pending t rid = Some Waiting
                  then Some (t\<lparr>tn_pending := (tn_pending t)(rid \<mapsto> Answered m)\<rparr>)
                  else Some t
              | JList _ \<Rightarrow> None
              | JObj _ \<Rightarrow> None
              | _ \<Rightarrow> Some t))
      | _ \<Rightarrow> Some t)"

definition fail_all :: "string \<Rightarrow> tunnel \<Rightarrow> tunnel" where
  "fail_all exc t =
     t\<lparr>tn_pending := (\<lambda>rid. case tn_pending t rid of Some Waiting \<Rightarrow> Some (Broken exc) | f \<Rightarrow> f),
       tn_streams := {},
       tn_queues := (\<lambda>rid. if rid \<in> tn_streams t \<and> length (tn_queues t rid) < MAX_STREAM_QUEUE_FRAMES
                           then tn_queues t rid @ [error_frame (if exc = [] then ''tunnel closed'' else exc)]
                           else tn_queues t rid)\<rparr>"

section \<open>Correlation and bounds\<close>

text \<open>A queued frame is the relay's own error or names the request it waits for, and so does an answer.\<close>

definition belongs :: "string \<Rightarrow> jdict \<Rightarrow> bool" where
  "belongs rid f \<longleftrightarrow> jget f ''request_id'' = JStr rid \<or> jget f ''type'' = JStr ''error''"

definition tunnel_ok :: "tunnel \<Rightarrow> bool" where
  "tunnel_ok t \<longleftrightarrow>
     (\<forall>rid. length (tn_queues t rid) \<le> MAX_STREAM_QUEUE_FRAMES \<and> (\<forall>f \<in> set (tn_queues t rid). belongs rid f))
     \<and> (\<forall>rid f. tn_pending t rid = Some (Answered f) \<longrightarrow> jget f ''request_id'' = JStr rid \<and> jget f ''type'' = JStr ''response'')"

lemma error_belongs [simp]: "belongs rid (error_frame m)"
  by (simp add: belongs_def error_frame_def jget_def)

lemma new_tunnel_ok: "tunnel_ok new_tunnel"
  by (simp add: tunnel_ok_def new_tunnel_def)

lemma send_ok: "tunnel_ok (send_json f t) \<longleftrightarrow> tunnel_ok t"
  by (simp add: tunnel_ok_def send_json_def)

lemma call_begin_ok: "tunnel_ok t \<Longrightarrow> tunnel_ok (call_begin rid j m p t)"
  by (simp add: call_begin_def send_ok) (simp add: tunnel_ok_def)

lemma call_end_ok: "tunnel_ok t \<Longrightarrow> tunnel_ok (snd (call_end rid t))"
  by (simp add: call_end_def tunnel_ok_def)

lemma stream_begin_ok: "tunnel_ok t \<Longrightarrow> tunnel_ok (stream_begin rid j m p t)"
  by (simp add: stream_begin_def send_ok) (simp add: tunnel_ok_def)

lemma stream_next_ok:
  assumes "tunnel_ok t" "stream_next rid t = Some (f, fin, t')"
  shows "tunnel_ok t'" "belongs rid f"
proof -
  obtain rest where q: "tn_queues t rid = f # rest" and t': "t' = t\<lparr>tn_queues := (tn_queues t)(rid := rest)\<rparr>"
    using assms(2) by (auto simp: stream_next_def split: list.splits)
  have "length (tn_queues t rid) \<le> MAX_STREAM_QUEUE_FRAMES" "\<forall>f \<in> set (tn_queues t rid). belongs rid f"
    using assms(1) by (simp_all add: tunnel_ok_def)
  then have r: "length rest \<le> MAX_STREAM_QUEUE_FRAMES" "\<forall>f \<in> set rest. belongs rid f" "belongs rid f" by (simp_all add: q)
  then show "tunnel_ok t'" using assms(1) by (simp add: tunnel_ok_def t')
  show "belongs rid f" by (rule r(3))
qed

lemma stream_end_ok: "tunnel_ok t \<Longrightarrow> tunnel_ok (stream_end a rid fin t)"
  by (simp add: stream_end_def Let_def send_ok) (simp add: tunnel_ok_def)

lemma offer_ok:
  assumes "tunnel_ok t" "jget m ''request_id'' = JStr rid"
  shows "tunnel_ok (offer rid m t)"
proof -
  have q: "length (tn_queues t rid) \<le> MAX_STREAM_QUEUE_FRAMES" "\<forall>f \<in> set (tn_queues t rid). belongs rid f"
    using assms(1) by (simp_all add: tunnel_ok_def)
  then have "\<forall>f \<in> set (tl (tn_queues t rid)). belongs rid f" by (cases "tn_queues t rid") auto
  moreover have "Suc (length (tn_queues t rid) - Suc 0) \<le> MAX_STREAM_QUEUE_FRAMES" using q(1) by (simp add: MAX_STREAM_QUEUE_FRAMES_def)
  ultimately show ?thesis using assms q by (auto simp: offer_def Let_def tunnel_ok_def belongs_def [of rid m])
qed

lemma handle_incoming_cases:
  assumes "handle_incoming msg t = Some t'"
  obtains (skipped) "t' = t" | (ping) "t' = send_json [(''type'', JStr ''pong'')] t"
    | (queued) m rid where "msg = JObj m" "jget m ''request_id'' = JStr rid" "t' = offer rid m t"
    | (answered) m rid where "msg = JObj m" "jget m ''request_id'' = JStr rid" "jget m ''type'' = JStr ''response''"
        "t' = t\<lparr>tn_pending := (tn_pending t)(rid \<mapsto> Answered m)\<rparr>"
  using assms by (cases msg) (auto simp: handle_incoming_def Let_def split: json.splits if_splits)

lemma handle_incoming_ok:
  assumes "tunnel_ok t" "handle_incoming msg t = Some t'"
  shows "tunnel_ok t'"
  using assms(2)
proof (cases rule: handle_incoming_cases)
  case (answered m rid)
  then show ?thesis using assms(1) by (simp add: tunnel_ok_def)
qed (use assms(1) in \<open>simp_all add: send_ok offer_ok\<close>)

lemma fail_all_ok: "tunnel_ok t \<Longrightarrow> tunnel_ok (fail_all exc t)"
  by (auto simp: fail_all_def tunnel_ok_def split: option.splits future.splits)

text \<open>A frame for one request leaves every other alone.\<close>

lemma handle_incoming_other:
  assumes "handle_incoming (JObj m) t = Some t'" "jget m ''request_id'' \<noteq> JStr rid"
  shows "tn_pending t' rid = tn_pending t rid" "tn_queues t' rid = tn_queues t rid" "rid \<in> tn_streams t' \<longleftrightarrow> rid \<in> tn_streams t"
  using assms
  by (auto simp: handle_incoming_def offer_def send_json_def Let_def split: json.splits if_splits)

text \<open>After the tunnel dropped nothing waits for it: every call has an outcome and every stream that still had room an end.\<close>

lemma fail_all_answers:
  "call_outcome_of rid (fail_all exc t) = (case tn_pending t rid of Some (Answered f) \<Rightarrow> Reply f | Some _ \<Rightarrow> TunnelClosed | None \<Rightarrow> TimedOut)"
  by (auto simp: call_outcome_of_def fail_all_def split: option.splits future.splits)

lemma fail_all_ends:
  assumes "rid \<in> tn_streams t" "length (tn_queues t rid) < MAX_STREAM_QUEUE_FRAMES"
  shows "\<exists>m. tn_queues (fail_all exc t) rid = tn_queues t rid @ [error_frame m]"
  using assms by (auto simp: fail_all_def)

text \<open>A full queue has no room for the end: the consumer drains it and then waits for its timer.\<close>

lemma fail_all_full: "length (tn_queues t rid) = MAX_STREAM_QUEUE_FRAMES \<Longrightarrow> tn_queues (fail_all exc t) rid = tn_queues t rid"
  by (simp add: fail_all_def)

end
