(* ===== verification/Rate_Limits.thy ===== *)
theory Rate_Limits
  imports Calendar Config Stdlib Models Systems
begin

text \<open>
  What bounds callers that do not pay: the fixed-window counters of \<open>api/app/ratelimit.py\<close>, the daily allowance
  of \<open>api/app/free_tier.py\<close> and the slots of \<open>api/app/free_capacity.py\<close>.  Redis is a map from keys to counts with
  an expiry, reachable or not at each call; time is in whole seconds.
\<close>

section \<open>Counters\<close>

record limiter =
  lm_redis :: "string \<Rightarrow> (int \<times> int option) option"
  lm_local :: "string \<times> int \<Rightarrow> int option"

definition redis_get :: "int \<Rightarrow> string \<Rightarrow> limiter \<Rightarrow> int" where
  "redis_get now key st =
     (case lm_redis st key of
        None \<Rightarrow> 0
      | Some (n, None) \<Rightarrow> n
      | Some (n, Some until) \<Rightarrow> if now < until then n else 0)"

text \<open>\<open>INCR\<close>, and \<open>EXPIRE\<close> when the count is new.\<close>

definition redis_bump :: "int \<Rightarrow> string \<Rightarrow> int \<Rightarrow> limiter \<Rightarrow> int \<times> limiter" where
  "redis_bump now key window_seconds st =
     (let n = redis_get now key st + 1;
          ttl = (if n = 1 then Some (now + window_seconds)
                 else (case lm_redis st key of None \<Rightarrow> None | Some (_, t) \<Rightarrow> t))
      in (n, st\<lparr>lm_redis := (lm_redis st)(key \<mapsto> (n, ttl))\<rparr>))"

definition bump_local :: "string \<Rightarrow> int \<Rightarrow> limiter \<Rightarrow> int \<times> limiter" where
  "bump_local identity window st =
     (let kept = (\<lambda>k. if snd k < window - 1 then None else lm_local st k);
          n = (case kept (identity, window) of None \<Rightarrow> 0 | Some m \<Rightarrow> m) + 1
      in (n, st\<lparr>lm_local := kept((identity, window) \<mapsto> n)\<rparr>))"

definition check_local :: "string \<Rightarrow> int \<Rightarrow> int \<Rightarrow> limiter \<Rightarrow> bool \<times> limiter" where
  "check_local identity window limit st = (let (n, st) = bump_local identity window st in (n \<le> limit, st))"

definition rate_key :: "string \<Rightarrow> int \<Rightarrow> string" where
  "rate_key identity window = ''gridix:ratelimit:'' @ identity @ '':'' @ int_str window"

definition check_rate_limit :: "bool \<Rightarrow> int \<Rightarrow> string \<Rightarrow> int \<Rightarrow> int \<Rightarrow> limiter \<Rightarrow> bool \<times> limiter" where
  "check_rate_limit redis_up now identity limit window_seconds st =
     (let window = now div window_seconds in
      if redis_up then (let (n, st) = redis_bump now (rate_key identity window) window_seconds st in (n \<le> limit, st))
      else check_local identity window limit st)"

section \<open>The failed-authentication budget\<close>

definition fail_key :: "string \<Rightarrow> int \<Rightarrow> string" where
  "fail_key identity window = ''gridix:authfail:'' @ identity @ '':'' @ int_str window"

definition record_auth_failure :: "bool \<Rightarrow> int \<Rightarrow> string \<Rightarrow> int \<Rightarrow> limiter \<Rightarrow> limiter" where
  "record_auth_failure redis_up now identity window_seconds st =
     (let window = now div window_seconds in
      if redis_up then snd (redis_bump now (fail_key identity window) window_seconds st)
      else snd (bump_local (fail_key identity 0) window st))"

definition auth_failures_exceeded :: "bool \<Rightarrow> int \<Rightarrow> string \<Rightarrow> int \<Rightarrow> int \<Rightarrow> limiter \<Rightarrow> bool" where
  "auth_failures_exceeded redis_up now identity limit window_seconds st =
     (let window = now div window_seconds;
          n = (if redis_up then redis_get now (fail_key identity window) st
               else (case lm_local st (fail_key identity 0, window) of None \<Rightarrow> 0 | Some m \<Rightarrow> m))
      in n \<ge> limit)"

section \<open>The middlewares\<close>

definition RATE_LIMITED :: "int \<times> string" where
  "RATE_LIMITED = (429, ''rate_limited'')"

text \<open>A middleware answers an error, or \<open>None\<close> when it passes the request on.\<close>

definition RateLimitMiddleware :: "bool \<Rightarrow> int \<Rightarrow> Settings \<Rightarrow> string \<Rightarrow> limiter \<Rightarrow> (int \<times> string) option \<times> limiter" where
  "RateLimitMiddleware redis_up now settings identity st =
     (let (allowed, st) = check_rate_limit redis_up now identity (rate_limit_per_minute settings) 60 st
      in (if \<not> allowed then Some RATE_LIMITED else None, st))"

definition isdigit :: "string \<Rightarrow> bool" where
  "isdigit s \<longleftrightarrow> s \<noteq> [] \<and> list_all (\<lambda>c. let n = (of_char c :: int) in 48 \<le> n \<and> n \<le> 57) s"

definition dec_val :: "string \<Rightarrow> int" where
  "dec_val s = foldl (\<lambda>acc c. acc * 10 + (of_char c - 48)) 0 s"

definition RequestSizeLimitMiddleware :: "Settings \<Rightarrow> string option \<Rightarrow> (int \<times> string) option" where
  "RequestSizeLimitMiddleware settings content_length =
     (case content_length of
        None \<Rightarrow> None
      | Some v \<Rightarrow> if isdigit v \<and> dec_val v > max_request_bytes settings then Some (413, ''payload_too_large'') else None)"

section \<open>The daily allowance\<close>

definition FREE_CHAT_MODEL :: string where
  "FREE_CHAT_MODEL = ''llama3.2-3b''"

definition is_free_chat_model :: "string option \<Rightarrow> bool" where
  "is_free_chat_model model \<longleftrightarrow> model = Some FREE_CHAT_MODEL"

definition FREE_IMAGE_MODEL :: string where
  "FREE_IMAGE_MODEL = ''sdxl-turbo''"

definition is_free_image_model :: "string option \<Rightarrow> bool" where
  "is_free_image_model model \<longleftrightarrow> model = Some FREE_IMAGE_MODEL"

definition anchor_hash :: "string \<Rightarrow> string \<Rightarrow> string" where
  "anchor_hash kind v = take 64 (sha256 (utf8 (''gridix-free-tier:'' @ kind @ '':'' @ v)))"

definition wallet_anchor :: "string \<Rightarrow> string" where
  "wallet_anchor address = anchor_hash ''wallet'' (to_lower (strip address))"

definition utc_day :: "instant \<Rightarrow> string" where
  "utc_day now = date_iso (epoch_days now)"

definition usage_row :: "string \<Rightarrow> string \<Rightarrow> string \<Rightarrow> db \<Rightarrow> FreeTierUsage option" where
  "usage_row anchor kind day d =
     find (\<lambda>r. fu_anchor r = anchor \<and> fu_kind r = kind \<and> fu_day r = day) (free_tier_usage d)"

definition open_row :: "string \<Rightarrow> string \<Rightarrow> string \<Rightarrow> db \<Rightarrow> FreeTierUsage \<times> db" where
  "open_row anchor kind day d =
     (case usage_row anchor kind day d of
        Some row \<Rightarrow> (row, d)
      | None \<Rightarrow> (let row = \<lparr> fu_id = next_id d, fu_anchor = anchor, fu_kind = kind, fu_day = day, fu_count = 0 \<rparr>
                 in (row, d\<lparr>free_tier_usage := free_tier_usage d @ [row], next_id := Suc (next_id d)\<rparr>)))"

text \<open>The answer and the session: a refused charge has at most added the empty row, and its caller rolls back.\<close>

definition consume_daily :: "string \<Rightarrow> string \<Rightarrow> int \<Rightarrow> instant \<Rightarrow> db \<Rightarrow> bool \<times> db" where
  "consume_daily anchor kind limit now d =
     (let (row, d) = open_row anchor kind (utc_day now) d in
      if fu_count row \<ge> limit then (False, d)
      else (True, d\<lparr>free_tier_usage := tput fu_id (row\<lparr>fu_count := fu_count row + 1\<rparr>) (free_tier_usage d)\<rparr>))"

definition used_today :: "string \<Rightarrow> string \<Rightarrow> instant \<Rightarrow> db \<Rightarrow> int" where
  "used_today anchor kind now d = (case usage_row anchor kind (utc_day now) d of None \<Rightarrow> 0 | Some row \<Rightarrow> fu_count row)"

section \<open>Slots\<close>

text \<open>The semaphore's free slots, its queue, and the requests that generate; \<open>_waiting\<close> is the length of the queue, because
  a free slot is taken without suspending.  A released slot goes to the first that still waits.\<close>

record FreeCapacity =
  fc_slots :: nat
  fc_queue_depth :: nat
  fc_free :: nat
  fc_waiting :: "nat list"
  fc_holding :: "nat list"

definition new_capacity :: "nat \<Rightarrow> nat \<Rightarrow> FreeCapacity" where
  "new_capacity slots queue_depth =
     \<lparr> fc_slots = slots, fc_queue_depth = queue_depth, fc_free = slots, fc_waiting = [], fc_holding = [] \<rparr>"

text \<open>\<open>None\<close> is \<open>CapacityFull\<close>.\<close>

definition slot_enter :: "nat \<Rightarrow> FreeCapacity \<Rightarrow> FreeCapacity option" where
  "slot_enter req c =
     (if length (fc_waiting c) \<ge> fc_queue_depth c then None
      else if fc_free c > 0 then Some (c\<lparr>fc_free := fc_free c - 1, fc_holding := req # fc_holding c\<rparr>)
      else Some (c\<lparr>fc_waiting := fc_waiting c @ [req]\<rparr>))"

definition slot_cancel :: "nat \<Rightarrow> FreeCapacity \<Rightarrow> FreeCapacity" where
  "slot_cancel req c = c\<lparr>fc_waiting := remove1 req (fc_waiting c)\<rparr>"

definition slot_release :: "nat \<Rightarrow> FreeCapacity \<Rightarrow> FreeCapacity" where
  "slot_release req c =
     (if req \<notin> set (fc_holding c) then c
      else (case fc_waiting c of
              [] \<Rightarrow> c\<lparr>fc_holding := remove1 req (fc_holding c), fc_free := fc_free c + 1\<rparr>
            | w # ws \<Rightarrow> c\<lparr>fc_holding := w # remove1 req (fc_holding c), fc_waiting := ws\<rparr>))"

inductive slot_step :: "FreeCapacity \<Rightarrow> FreeCapacity \<Rightarrow> bool" where
  "slot_enter req c = Some c' \<Longrightarrow> slot_step c c'"
| "slot_step c (slot_cancel req c)"
| "slot_step c (slot_release req c)"

section \<open>The window counter is exact\<close>

text \<open>A request: whether Redis answers, the second, and who asks.\<close>

type_synonym request = "bool \<times> int \<times> string"

fun run_requests :: "int \<Rightarrow> int \<Rightarrow> request list \<Rightarrow> limiter \<Rightarrow> bool list \<times> limiter" where
  "run_requests limit width [] st = ([], st)"
| "run_requests limit width ((up, now, who) # rs) st =
     (let (ok, st) = check_rate_limit up now who limit width st;
          (oks, st) = run_requests limit width rs st
      in (ok # oks, st))"

definition new_limiter :: limiter where
  "new_limiter = \<lparr> lm_redis = (\<lambda>_. None), lm_local = (\<lambda>_. None) \<rparr>"

lemma rate_key_inj: "rate_key a w = rate_key b w \<longleftrightarrow> a = b"
  by (simp add: rate_key_def)

text \<open>Within a window each store's count is the number of requests it has seen, and what expires lies beyond the window.\<close>

definition counted_as :: "int \<Rightarrow> int \<Rightarrow> int \<Rightarrow> (int \<times> int option) option \<Rightarrow> bool" where
  "counted_as width w n entry \<longleftrightarrow> 0 \<le> n \<and>
     (case entry of
        None \<Rightarrow> n = 0
      | Some (k, until) \<Rightarrow> k = n \<and> 0 < k \<and> (case until of None \<Rightarrow> True | Some t \<Rightarrow> (w + 1) * width \<le> t))"

definition window_counts :: "int \<Rightarrow> int \<Rightarrow> (string \<Rightarrow> int) \<Rightarrow> (string \<Rightarrow> int) \<Rightarrow> limiter \<Rightarrow> bool" where
  "window_counts width w n m st \<longleftrightarrow>
     (\<forall>who. counted_as width w (n who) (lm_redis st (rate_key who w)))
     \<and> (\<forall>who. 0 \<le> m who \<and> lm_local st (who, w) = (if m who = 0 then None else Some (m who)))"

lemma window_end:
  fixes now :: int
  assumes "now div width = w" "0 < width"
  shows "now < (w + 1) * width" "(w + 1) * width \<le> now + width"
proof -
  have "w * width + now mod width = now" "0 \<le> now mod width" "now mod width < width" using assms by auto
  then show "now < (w + 1) * width" "(w + 1) * width \<le> now + width" unfolding distrib_right mult_1 by linarith+
qed

lemma redis_get_count:
  assumes "counted_as width w n (lm_redis st key)" "now < (w + 1) * width"
  shows "redis_get now key st = n"
  using assms by (auto simp: counted_as_def redis_get_def split: option.splits prod.splits)

lemma redis_bump_count:
  assumes c: "counted_as width w n (lm_redis st key)" and t: "now div width = w" "0 < width"
  obtains e where "redis_bump now key width st = (n + 1, st\<lparr>lm_redis := (lm_redis st)(key \<mapsto> e)\<rparr>)" "counted_as width w (n + 1) (Some e)"
proof
  let ?e = "(n + 1, if n + 1 = 1 then Some (now + width) else (case lm_redis st key of None \<Rightarrow> None | Some (_, t) \<Rightarrow> t))"
  show "redis_bump now key width st = (n + 1, st\<lparr>lm_redis := (lm_redis st)(key \<mapsto> ?e)\<rparr>)"
    using redis_get_count [OF c window_end(1) [OF t]] by (simp add: redis_bump_def Let_def)
  show "counted_as width w (n + 1) (Some ?e)"
    using c window_end(2) [OF t] by (auto simp: counted_as_def split: option.splits)
qed

lemma check_counts:
  assumes c: "window_counts width w n m st" and t: "now div width = w" "0 < width"
  shows "\<exists>st'. check_rate_limit up now who limit width st = ((if up then n who else m who) + 1 \<le> limit, st')
     \<and> window_counts width w (if up then n(who := n who + 1) else n) (if up then m else m(who := m who + 1)) st'"
proof (cases up)
  case True
  have "counted_as width w (n who) (lm_redis st (rate_key who w))" using c by (simp add: window_counts_def)
  then obtain e where "redis_bump now (rate_key who w) width st = (n who + 1, st\<lparr>lm_redis := (lm_redis st)(rate_key who w \<mapsto> e)\<rparr>)"
    "counted_as width w (n who + 1) (Some e)" by (rule redis_bump_count [OF _ t])
  then show ?thesis using True c t(1) by (simp add: check_rate_limit_def window_counts_def rate_key_inj)
next
  case False
  have loc: "lm_local st (x, w) = (if m x = 0 then None else Some (m x))" and pos: "0 \<le> m x" for x
    using c by (simp_all add: window_counts_def)
  let ?kept = "\<lambda>k. if snd k < w - 1 then None else lm_local st k"
  let ?st = "st\<lparr>lm_local := ?kept((who, w) \<mapsto> m who + 1)\<rparr>"
  have "check_rate_limit up now who limit width st = (m who + 1 \<le> limit, ?st)"
    using False t(1) loc [of who] by (simp add: check_rate_limit_def check_local_def bump_local_def Let_def)
  moreover have "window_counts width w n (m(who := m who + 1)) ?st"
    unfolding window_counts_def
  proof (intro conjI allI)
    show "counted_as width w (n x) (lm_redis ?st (rate_key x w))" for x using c by (simp add: window_counts_def)
    show "0 \<le> (m(who := m who + 1)) x" for x using pos [of x] by (cases "x = who") auto
    show "lm_local ?st (x, w) = (if (m(who := m who + 1)) x = 0 then None else Some ((m(who := m who + 1)) x))" for x
      using loc [of x] pos [of who] by (cases "x = who") auto
  qed
  ultimately show ?thesis using False by simp
qed

definition asked :: "bool \<Rightarrow> string \<Rightarrow> request list \<Rightarrow> int" where
  "asked up who rs = int (length (filter (\<lambda>r. fst r = up \<and> snd (snd r) = who) rs))"

definition granted :: "string \<Rightarrow> request list \<Rightarrow> bool list \<Rightarrow> int" where
  "granted who rs oks = int (length (filter (\<lambda>(r, ok). snd (snd r) = who \<and> ok) (zip rs oks)))"

lemma granted_Cons: "granted who ((up, now, x) # rs) (ok # oks) = granted who rs oks + (if x = who \<and> ok then 1 else 0)"
  by (simp add: granted_def)

lemma asked_Cons: "asked b who ((up, now, x) # rs) = asked b who rs + (if up = b \<and> x = who then 1 else 0)"
  by (simp add: asked_def)

lemma granted_run:
  assumes "window_counts width w n m st" "\<forall>r \<in> set rs. fst (snd r) div width = w" "0 < width" "0 \<le> limit"
  shows "granted who rs (fst (run_requests limit width rs st))
     = (min limit (n who + asked True who rs) - min limit (n who)) + (min limit (m who + asked False who rs) - min limit (m who))"
  using assms(1,2)
proof (induction rs arbitrary: n m st)
  case Nil
  then show ?case by (simp add: granted_def asked_def)
next
  case (Cons r rs)
  obtain up now x where r: "r = (up, now, x)" by (cases r)
  have t: "now div width = w" using Cons.prems(2) by (simp add: r)
  let ?n = "if up then n(x := n x + 1) else n" and ?m = "if up then m else m(x := m x + 1)"
  obtain st' where st': "check_rate_limit up now x limit width st = ((if up then n x else m x) + 1 \<le> limit, st')" "window_counts width w ?n ?m st'"
    using check_counts [OF Cons.prems(1) t assms(3)] by blast
  have "0 \<le> n x" "0 \<le> m x" using Cons.prems(1) by (auto simp: window_counts_def counted_as_def)
  moreover have "granted who rs (fst (run_requests limit width rs st'))
     = (min limit (?n who + asked True who rs) - min limit (?n who)) + (min limit (?m who + asked False who rs) - min limit (?m who))"
    using Cons.IH [OF st'(2)] Cons.prems(2) by simp
  moreover have "fst (run_requests limit width (r # rs) st) = ((if up then n x else m x) + 1 \<le> limit) # fst (run_requests limit width rs st')"
    by (simp add: r st'(1) split: prod.split)
  moreover have "0 \<le> asked b who rs" for b by (simp add: asked_def)
  ultimately show ?case using assms(4)
    by (cases up; cases "x = who") (auto simp: r granted_Cons asked_Cons min_def)
qed

lemma new_window: "window_counts width w (\<lambda>_. 0) (\<lambda>_. 0) new_limiter"
  by (simp add: window_counts_def counted_as_def new_limiter_def)

section \<open>The allowance is exact\<close>

definition usage_ok :: "db \<Rightarrow> bool" where
  "usage_ok d \<longleftrightarrow> distinct (map fu_id (free_tier_usage d)) \<and> (\<forall>r \<in> set (free_tier_usage d). fu_id r < next_id d)"

lemma find_tput:
  assumes "\<forall>r \<in> set rs. fu_id r = fu_id row \<longrightarrow> r = row" "fu_id row' = fu_id row" "P row' \<longleftrightarrow> P row"
  shows "find P (tput fu_id row' rs) = (case find P rs of None \<Rightarrow> None | Some r \<Rightarrow> Some (if r = row then row' else r))"
  using assms(1)
proof (induction rs)
  case (Cons r rs)
  then have i: "find P (tput fu_id row' rs) = (case find P rs of None \<Rightarrow> None | Some r \<Rightarrow> Some (if r = row then row' else r))" by simp
  show ?case
  proof (cases "r = row")
    case True
    then show ?thesis using i assms(2,3) by (simp add: tput_def)
  next
    case False
    then have "fu_id r \<noteq> fu_id row" using Cons.prems by simp
    then show ?thesis using i False assms(2) by (simp add: tput_def)
  qed
qed (simp add: tput_def)

lemma usage_row_put:
  assumes "usage_ok d" "row \<in> set (free_tier_usage d)" "usage_row (fu_anchor row) (fu_kind row) (fu_day row) d = Some row"
  shows "usage_row a k day (d\<lparr>free_tier_usage := tput fu_id (row\<lparr>fu_count := n\<rparr>) (free_tier_usage d)\<rparr>)
     = (if (a, k, day) = (fu_anchor row, fu_kind row, fu_day row) then Some (row\<lparr>fu_count := n\<rparr>) else usage_row a k day d)"
proof -
  have one: "\<forall>r \<in> set (free_tier_usage d). fu_id r = fu_id row \<longrightarrow> r = row"
    using assms(1,2) by (auto simp: usage_ok_def distinct_map dest: inj_onD)
  note f = find_tput [OF one, of "row\<lparr>fu_count := n\<rparr>" "\<lambda>r. fu_anchor r = a \<and> fu_kind r = k \<and> fu_day r = day"]
  show ?thesis
  proof (cases "(a, k, day) = (fu_anchor row, fu_kind row, fu_day row)")
    case True
    then show ?thesis using f assms(3) by (simp add: usage_row_def)
  next
    case False
    then have "usage_row a k day d \<noteq> Some row" by (auto simp: usage_row_def find_Some_iff)
    then show ?thesis using f False by (auto simp: usage_row_def split: option.split)
  qed
qed

lemma open_row_all:
  assumes "usage_ok d" "open_row anchor kind day d = (row, e)"
  shows "usage_ok e \<and> row \<in> set (free_tier_usage e) \<and> (fu_anchor row, fu_kind row, fu_day row) = (anchor, kind, day)
    \<and> usage_row anchor kind day e = Some row \<and> ((a, k, t) \<noteq> (anchor, kind, day) \<longrightarrow> usage_row a k t e = usage_row a k t d)
    \<and> fu_count row = (case usage_row anchor kind day d of None \<Rightarrow> 0 | Some r \<Rightarrow> fu_count r)"
proof (cases "usage_row anchor kind day d")
  case (Some r)
  then have "e = d" "row = r" using assms(2) by (simp_all add: open_row_def)
  then show ?thesis
    using Some find_SomeD [OF Some [unfolded usage_row_def]] assms(1) by simp
next
  case None
  let ?row = "\<lparr> fu_id = next_id d, fu_anchor = anchor, fu_kind = kind, fu_day = day, fu_count = 0 \<rparr>"
  have e: "row = ?row" "e = d\<lparr>free_tier_usage := free_tier_usage d @ [?row], next_id := Suc (next_id d)\<rparr>"
    using assms(2) None by (auto simp: open_row_def Let_def)
  have "usage_ok e" using assms(1) by (auto simp: e(2) usage_ok_def less_Suc_eq)
  then show ?thesis
    using None by (auto simp: e usage_row_def find_append split: option.split)
qed

lemma open_row_sel:
  assumes "usage_ok d" "open_row anchor kind day d = (row, e)"
  shows "usage_ok e" "row \<in> set (free_tier_usage e)" "(fu_anchor row, fu_kind row, fu_day row) = (anchor, kind, day)"
    "usage_row anchor kind day e = Some row"
    "(a, k, t) \<noteq> (anchor, kind, day) \<Longrightarrow> usage_row a k t e = usage_row a k t d"
    "fu_count row = (case usage_row anchor kind day d of None \<Rightarrow> 0 | Some r \<Rightarrow> fu_count r)"
  using open_row_all [OF assms] by blast+

lemma consume_counts:
  assumes ok: "usage_ok d"
  shows "\<exists>d'. consume_daily anchor kind limit now d = (used_today anchor kind now d < limit, d') \<and> usage_ok d'
     \<and> (used_today anchor kind now d < limit \<longrightarrow> used_today anchor kind now d' = used_today anchor kind now d + 1)
     \<and> (\<forall>a k t. (a, k, utc_day t) \<noteq> (anchor, kind, utc_day now) \<longrightarrow> used_today a k t d' = used_today a k t d)"
proof -
  obtain row e where o: "open_row anchor kind (utc_day now) d = (row, e)" by force
  note r = open_row_sel [OF ok o]
  have n: "used_today anchor kind now d = fu_count row" using r(6) by (simp add: used_today_def split: option.split)
  have c: "consume_daily anchor kind limit now d =
    (if fu_count row \<ge> limit then (False, e)
     else (True, e\<lparr>free_tier_usage := tput fu_id (row\<lparr>fu_count := fu_count row + 1\<rparr>) (free_tier_usage e)\<rparr>))"
    by (simp add: consume_daily_def o)
  have other: "used_today a k t e = used_today a k t d" if "(a, k, utc_day t) \<noteq> (anchor, kind, utc_day now)" for a k t
    using r(5) [OF that] by (simp add: used_today_def)
  show ?thesis
  proof (cases "fu_count row \<ge> limit")
    case True
    then show ?thesis using c n r(1) other by auto
  next
    case False
    let ?d' = "e\<lparr>free_tier_usage := tput fu_id (row\<lparr>fu_count := fu_count row + 1\<rparr>) (free_tier_usage e)\<rparr>"
    have row: "usage_row (fu_anchor row) (fu_kind row) (fu_day row) e = Some row" using r(3,4) by simp
    note p = usage_row_put [OF r(1,2) row]
    have "usage_ok ?d'" using r(1,2) by (auto simp: usage_ok_def dest!: subsetD [OF set_tput])
    moreover have "used_today anchor kind now ?d' = fu_count row + 1" using p r(3) by (simp add: used_today_def)
    moreover have "used_today a k t ?d' = used_today a k t d" if "(a, k, utc_day t) \<noteq> (anchor, kind, utc_day now)" for a k t
      using p r(3) that other [OF that] by (auto simp: used_today_def)
    ultimately show ?thesis using c n False by auto
  qed
qed

section \<open>Slots are bounded\<close>

definition slots_ok :: "nat \<Rightarrow> nat \<Rightarrow> FreeCapacity \<Rightarrow> bool" where
  "slots_ok slots depth c \<longleftrightarrow> fc_slots c = slots \<and> fc_queue_depth c = depth
     \<and> length (fc_holding c) + fc_free c = slots \<and> length (fc_waiting c) \<le> depth \<and> (fc_waiting c \<noteq> [] \<longrightarrow> fc_free c = 0)"

interpretation slots: system "\<lambda>c. c = new_capacity slots depth" slot_step "slots_ok slots depth" for slots depth
proof
  show "slots_ok slots depth t" if "slots_ok slots depth c" "slot_step c t" for c t
    using that(2,1)
  proof cases
    case (1 req)
    then show ?thesis using that(1) by (auto simp: slot_enter_def slots_ok_def split: if_splits)
  next
    case (2 req)
    then show ?thesis using that(1) by (auto simp: slot_cancel_def slots_ok_def length_remove1)
  next
    case (3 req)
    have "length (fc_holding c) = Suc (length (remove1 req (fc_holding c)))" if "req \<in> set (fc_holding c)"
      using length_pos_if_in_set [OF that] that by (simp add: length_remove1)
    then show ?thesis using that(1) 3
      by (cases "fc_waiting c") (auto simp: slot_release_def slots_ok_def)
  qed
qed (auto simp: slots_ok_def new_capacity_def)

text \<open>A queue of depth zero refuses everybody, free slots or not.\<close>

lemma depth_zero: "fc_queue_depth c = 0 \<Longrightarrow> slot_enter req c = None"
  by (simp add: slot_enter_def)

end
