(* ===== verification/Relay.thy ===== *)
theory Relay
  imports Tunnel Auth Dispatch Rate_Limits
begin

text \<open>
  The relay server of \<open>api/app/relay.py\<close>.  A socket goes through the phases between two suspensions of its
  coroutine: it authenticates, is registered, publishes its models, serves, and unwinds (unregister, look whether
  the provider is connected, retract its models).  Sockets interleave at these points.  \<open>authenticate\<close> is the
  injectable argument of \<open>create_relay_app\<close>, \<open>resolve_provider\<close> in production; the coercion of the reply's status
  to an integer is pydantic's and an argument.  The timers of a silent socket are steps that may happen at any time.
\<close>

section \<open>What a node declares\<close>

definition MAX_MODELS :: nat where
  "MAX_MODELS = 64"

definition MAX_MODEL_NAME :: nat where
  "MAX_MODEL_NAME = 128"

definition MAX_CONNECTIONS :: int where
  "MAX_CONNECTIONS = 512"

definition sort_strings :: "string list \<Rightarrow> string list" where
  "sort_strings xs = map fst (sort_pairs (map (\<lambda>x. (x, ())) xs))"

definition clean_models :: "json \<Rightarrow> string list" where
  "clean_models raw =
     (case raw of
        JList xs \<Rightarrow>
          sort_strings (remdups (filter (\<lambda>m. m \<noteq> [])
            (List.map_filter (\<lambda>item. case item of
                 JStr s \<Rightarrow> if 0 < length s \<and> length s \<le> MAX_MODEL_NAME then Some (strip s) else None
               | _ \<Rightarrow> None) (take MAX_MODELS xs))))
      | _ \<Rightarrow> [])"

definition clear_models :: "uuid \<Rightarrow> db \<Rightarrow> db" where
  "clear_models provider_id d = d\<lparr>provider_models := filter (\<lambda>m. pm_provider_id m \<noteq> provider_id) (provider_models d)\<rparr>"

fun add_models :: "uuid \<Rightarrow> string list \<Rightarrow> db \<Rightarrow> db" where
  "add_models provider_id [] d = d"
| "add_models provider_id (m # ms) d =
     add_models provider_id ms
       (d\<lparr>provider_models := provider_models d @ [\<lparr> pm_id = next_id d, pm_provider_id = provider_id, pm_model = m \<rparr>],
          next_id := Suc (next_id d)\<rparr>)"

definition record_models :: "uuid \<Rightarrow> string list \<Rightarrow> db \<Rightarrow> db" where
  "record_models provider_id models d = add_models provider_id models (clear_models provider_id d)"

definition mark_provider_seen :: "Settings \<Rightarrow> instant \<Rightarrow> uuid \<Rightarrow> db \<Rightarrow> db" where
  "mark_provider_seen settings now provider_id d =
     (case get_provider provider_id d of
        None \<Rightarrow> d
      | Some p \<Rightarrow> put_provider (mark_seen p now (connection_timeout_seconds settings)) d)"

definition resolve_provider :: "Settings \<Rightarrow> string \<Rightarrow> db \<Rightarrow> uuid option" where
  "resolve_provider settings token d =
     (case hash_api_key token (api_hmac_key settings) of
        Inl _ \<Rightarrow> None
      | Inr digest \<Rightarrow>
          (case find (\<lambda>k. ak_key_hash k = digest) (api_keys d) of
             None \<Rightarrow> None
           | Some key \<Rightarrow>
               if ak_revoked key \<or> ak_owner_type key \<noteq> ot_provider then None
               else (case ak_provider_id key of
                       None \<Rightarrow> None
                     | Some pid \<Rightarrow> map_option pr_id (get_provider pid d))))"

definition relay_allowed_origins_list :: "Settings \<Rightarrow> string list" where
  "relay_allowed_origins_list s =
     filter (\<lambda>o1. o1 \<noteq> [] \<and> o1 \<noteq> ''*'') (map strip (split_on (CHR '','') (relay_allowed_origins s)))"

section \<open>The bridge\<close>

definition require_relay :: "Settings \<Rightarrow> string option \<Rightarrow> err + unit" where
  "require_relay settings authorization =
     (let (scheme, token) = partition_space (case authorization of None \<Rightarrow> [] | Some h \<Rightarrow> h);
          refused = Inl (HTTPException 401 ''internal only'')
      in if to_lower scheme \<noteq> ''bearer'' then refused
         else (case compare_digest (strip token) (relay_key settings) of
                 None \<Rightarrow> Inl TypeError | Some True \<Rightarrow> Inr () | Some False \<Rightarrow> refused))"

text \<open>\<open>RelayResponse(status=frame.get("status", 200), payload=frame.get("payload"))\<close>\<close>

definition relay_reply :: "(json \<Rightarrow> int option) \<Rightarrow> jdict \<Rightarrow> err + RelayResponse" where
  "relay_reply coerce_int frame =
     (case coerce_int (case map_of frame ''status'' of None \<Rightarrow> JInt 200 | Some v \<Rightarrow> v) of
        None \<Rightarrow> Inl (ValueError ''status'')
      | Some st \<Rightarrow>
          (case jget frame ''payload'' of
             JNull \<Rightarrow> Inr \<lparr> rr_status = st, rr_payload = None \<rparr>
           | JObj p \<Rightarrow> Inr \<lparr> rr_status = st, rr_payload = Some p \<rparr>
           | _ \<Rightarrow> Inl (ValueError ''payload'')))"

definition not_connected :: err where
  "not_connected = HTTPException 503 ''provider not connected''"

definition bridge_outcome :: "(json \<Rightarrow> int option) \<Rightarrow> call_outcome \<Rightarrow> err + RelayResponse" where
  "bridge_outcome coerce_int r =
     (case r of
        TimedOut \<Rightarrow> Inl (HTTPException 504 ''provider did not respond'')
      | TunnelClosed \<Rightarrow> Inl (HTTPException 503 ''tunnel closed'')
      | Reply frame \<Rightarrow> relay_reply coerce_int frame)"

section \<open>Sockets and the registry\<close>

datatype phase = Opening | Claiming | Announcing | Serving | Unwinding | Departed | Clearing | Closed

record socket =
  sk_phase :: phase
  sk_ip :: string
  sk_provider :: "uuid option"
  sk_models :: "string list"
  sk_tunnel :: tunnel

record relay =
  ry_sockets :: "socket list"
  ry_registry :: "uuid \<Rightarrow> nat option"
  ry_connections :: int
  ry_db :: db
  ry_limiter :: limiter

definition new_socket :: "string \<Rightarrow> socket" where
  "new_socket ip = \<lparr> sk_phase = Opening, sk_ip = ip, sk_provider = None, sk_models = [], sk_tunnel = new_tunnel \<rparr>"

definition set_socket :: "nat \<Rightarrow> socket \<Rightarrow> relay \<Rightarrow> relay" where
  "set_socket k s st = st\<lparr>ry_sockets := (ry_sockets st)[k := s]\<rparr>"

text \<open>The end of a socket's coroutine gives its connection back.\<close>

definition finish :: "nat \<Rightarrow> relay \<Rightarrow> relay" where
  "finish k st = (set_socket k ((ry_sockets st ! k)\<lparr>sk_phase := Closed\<rparr>) st)\<lparr>ry_connections := ry_connections st - 1\<rparr>"

definition ip_identity :: "string \<Rightarrow> string" where
  "ip_identity ip = ''relay-auth:ip:'' @ ip"

text \<open>The close code of a refused handshake, or the new socket.\<close>

definition relay_accept :: "Settings \<Rightarrow> bool \<Rightarrow> int \<Rightarrow> string option \<Rightarrow> string \<Rightarrow> relay \<Rightarrow> int + relay" where
  "relay_accept settings redis_up clock origin ip st =
     (if (case origin of None \<Rightarrow> False | Some o1 \<Rightarrow> o1 \<notin> set (relay_allowed_origins_list settings)) then Inl 1008
      else if ry_connections st \<ge> MAX_CONNECTIONS then Inl 1013
      else if auth_failures_exceeded redis_up clock (ip_identity ip) (relay_auth_failures_per_minute settings) 60 (ry_limiter st)
      then Inl 1008
      else Inr (st\<lparr>ry_sockets := ry_sockets st @ [new_socket ip], ry_connections := ry_connections st + 1\<rparr>))"

text \<open>\<open>registry.register\<close>; the superseded tunnel's socket is closed and unwinds by itself.\<close>

definition register :: "uuid \<Rightarrow> nat \<Rightarrow> relay \<Rightarrow> relay" where
  "register provider_id k st = st\<lparr>ry_registry := (ry_registry st)(provider_id \<mapsto> k)\<rparr>"

definition unregister :: "uuid \<Rightarrow> nat \<Rightarrow> relay \<Rightarrow> relay" where
  "unregister provider_id k st =
     (if ry_registry st provider_id = Some k then st\<lparr>ry_registry := (ry_registry st)(provider_id := None)\<rparr> else st)"

definition relay_auth ::
    "(string \<Rightarrow> db \<Rightarrow> uuid option) \<Rightarrow> bool \<Rightarrow> int \<Rightarrow> nat \<Rightarrow> json \<Rightarrow> relay \<Rightarrow> relay" where
  "relay_auth authenticate redis_up clock k frame st =
     (case frame of
        JObj m \<Rightarrow>
          if jget m ''type'' \<noteq> JStr ''auth'' \<or> \<not> truthy (jget m ''key'') then finish k st
          else
            (case jget m ''key'' of
               JStr token \<Rightarrow>
                 (case authenticate token (ry_db st) of
                    None \<Rightarrow>
                      finish k (st\<lparr>ry_limiter := record_auth_failure redis_up clock (ip_identity (sk_ip (ry_sockets st ! k))) 60 (ry_limiter st)\<rparr>)
                  | Some pid \<Rightarrow>
                      set_socket k ((ry_sockets st ! k)\<lparr>sk_phase := Claiming, sk_provider := Some pid,
                                                       sk_models := clean_models (jget m ''models'')\<rparr>)
                        (register pid k st))
             | _ \<Rightarrow> finish k st)
      | _ \<Rightarrow> finish k st)"

definition relay_publish :: "nat \<Rightarrow> uuid \<Rightarrow> relay \<Rightarrow> relay" where
  "relay_publish k pid st =
     set_socket k ((ry_sockets st ! k)\<lparr>sk_phase := Announcing\<rparr>)
       (st\<lparr>ry_db := record_models pid (sk_models (ry_sockets st ! k)) (ry_db st)\<rparr>)"

definition relay_confirm :: "Settings \<Rightarrow> instant \<Rightarrow> nat \<Rightarrow> uuid \<Rightarrow> relay \<Rightarrow> relay" where
  "relay_confirm settings now k pid st =
     (let s = ry_sockets st ! k in
      set_socket k (s\<lparr>sk_phase := Serving,
                      sk_tunnel := send_json [(''type'', JStr ''auth_ok''), (''provider_id'', JStr (uuid_str pid))] (sk_tunnel s)\<rparr>)
        (st\<lparr>ry_db := mark_provider_seen settings now pid (ry_db st)\<rparr>))"

text \<open>One turn of the receive loop; a frame that raises sends the socket to its \<open>finally\<close>.\<close>

definition relay_drop :: "nat \<Rightarrow> relay \<Rightarrow> relay" where
  "relay_drop k st =
     (let s = ry_sockets st ! k in set_socket k (s\<lparr>sk_phase := Unwinding, sk_tunnel := fail_all ''tunnel closed'' (sk_tunnel s)\<rparr>) st)"

definition relay_receive :: "Settings \<Rightarrow> instant \<Rightarrow> nat \<Rightarrow> uuid \<Rightarrow> json \<Rightarrow> relay \<Rightarrow> relay" where
  "relay_receive settings now k pid msg st =
     (let s = ry_sockets st ! k;
          st = (case msg of
                  JObj m \<Rightarrow> if jget m ''type'' = JStr ''ping'' then st\<lparr>ry_db := mark_provider_seen settings now pid (ry_db st)\<rparr> else st
                | _ \<Rightarrow> st)
      in case handle_incoming msg (sk_tunnel s) of
           None \<Rightarrow> relay_drop k st
         | Some t \<Rightarrow> set_socket k (s\<lparr>sk_tunnel := t\<rparr>) st)"

definition relay_unregister :: "nat \<Rightarrow> uuid \<Rightarrow> relay \<Rightarrow> relay" where
  "relay_unregister k pid st = unregister pid k (set_socket k ((ry_sockets st ! k)\<lparr>sk_phase := Departed\<rparr>) st)"

definition relay_check :: "nat \<Rightarrow> uuid \<Rightarrow> relay \<Rightarrow> relay" where
  "relay_check k pid st =
     (if ry_registry st pid = None then set_socket k ((ry_sockets st ! k)\<lparr>sk_phase := Clearing\<rparr>) st else finish k st)"

definition relay_clear :: "nat \<Rightarrow> uuid \<Rightarrow> relay \<Rightarrow> relay" where
  "relay_clear k pid st = finish k (st\<lparr>ry_db := clear_models pid (ry_db st)\<rparr>)"

text \<open>A request of the coordinator uses the tunnel that is registered for the provider.\<close>

definition on_tunnel :: "uuid \<Rightarrow> (tunnel \<Rightarrow> tunnel) \<Rightarrow> relay \<Rightarrow> err + relay" where
  "on_tunnel pid f st =
     (case ry_registry st pid of
        None \<Rightarrow> Inl not_connected
      | Some k \<Rightarrow> Inr (let s = ry_sockets st ! k in set_socket k (s\<lparr>sk_tunnel := f (sk_tunnel s)\<rparr>) st))"

section \<open>The relay as a transition system\<close>

inductive tunnel_use :: "tunnel \<Rightarrow> tunnel \<Rightarrow> bool" where
  "tunnel_use t (snd (call_end rid t))"
| "stream_next rid t = Some (f, fin, t') \<Longrightarrow> tunnel_use t t'"
| "tunnel_use t (stream_end alive rid fin t)"

inductive relay_step :: "(string \<Rightarrow> db \<Rightarrow> uuid option) \<Rightarrow> Settings \<Rightarrow> relay \<Rightarrow> relay \<Rightarrow> bool"
  for auth :: "string \<Rightarrow> db \<Rightarrow> uuid option" and s :: Settings where
  accept: "relay_accept s up clock origin ip st = Inr st' \<Longrightarrow> relay_step auth s st st'"
| auth: "k < length (ry_sockets st) \<Longrightarrow> sk_phase (ry_sockets st ! k) = Opening
     \<Longrightarrow> relay_step auth s st (relay_auth auth up clock k frame st)"
| silent: "k < length (ry_sockets st) \<Longrightarrow> sk_phase (ry_sockets st ! k) = Opening \<Longrightarrow> relay_step auth s st (finish k st)"
| publish: "k < length (ry_sockets st) \<Longrightarrow> sk_phase (ry_sockets st ! k) = Claiming \<Longrightarrow> sk_provider (ry_sockets st ! k) = Some pid
     \<Longrightarrow> relay_step auth s st (relay_publish k pid st)"
| confirm: "k < length (ry_sockets st) \<Longrightarrow> sk_phase (ry_sockets st ! k) = Announcing \<Longrightarrow> sk_provider (ry_sockets st ! k) = Some pid
     \<Longrightarrow> relay_step auth s st (relay_confirm s now k pid st)"
| lost: "k < length (ry_sockets st) \<Longrightarrow> sk_phase (ry_sockets st ! k) \<in> {Claiming, Announcing} \<Longrightarrow> relay_step auth s st (finish k st)"
| receive: "k < length (ry_sockets st) \<Longrightarrow> sk_phase (ry_sockets st ! k) = Serving \<Longrightarrow> sk_provider (ry_sockets st ! k) = Some pid
     \<Longrightarrow> relay_step auth s st (relay_receive s now k pid msg st)"
| drop: "k < length (ry_sockets st) \<Longrightarrow> sk_phase (ry_sockets st ! k) = Serving \<Longrightarrow> relay_step auth s st (relay_drop k st)"
| unregister: "k < length (ry_sockets st) \<Longrightarrow> sk_phase (ry_sockets st ! k) = Unwinding \<Longrightarrow> sk_provider (ry_sockets st ! k) = Some pid
     \<Longrightarrow> relay_step auth s st (relay_unregister k pid st)"
| check: "k < length (ry_sockets st) \<Longrightarrow> sk_phase (ry_sockets st ! k) = Departed \<Longrightarrow> sk_provider (ry_sockets st ! k) = Some pid
     \<Longrightarrow> relay_step auth s st (relay_check k pid st)"
| clear: "k < length (ry_sockets st) \<Longrightarrow> sk_phase (ry_sockets st ! k) = Clearing \<Longrightarrow> sk_provider (ry_sockets st ! k) = Some pid
     \<Longrightarrow> relay_step auth s st (relay_clear k pid st)"
| call: "on_tunnel pid (call_begin rid job meth payload) st = Inr st' \<Longrightarrow> relay_step auth s st st'"
| stream: "on_tunnel pid (stream_begin rid job meth payload) st = Inr st' \<Longrightarrow> relay_step auth s st st'"
| consume: "k < length (ry_sockets st) \<Longrightarrow> tunnel_use (sk_tunnel (ry_sockets st ! k)) t
     \<Longrightarrow> relay_step auth s st (set_socket k ((ry_sockets st ! k)\<lparr>sk_tunnel := t\<rparr>) st)"

definition new_relay :: "db \<Rightarrow> relay" where
  "new_relay d = \<lparr> ry_sockets = [], ry_registry = (\<lambda>_. None), ry_connections = 0, ry_db = d, ry_limiter = new_limiter \<rparr>"

section \<open>Invariant\<close>

definition live :: "socket list \<Rightarrow> int" where
  "live ss = int (length (filter (\<lambda>s. sk_phase s \<noteq> Closed) ss))"

definition relay_ok :: "relay \<Rightarrow> bool" where
  "relay_ok st \<longleftrightarrow>
     ry_connections st = live (ry_sockets st) \<and> ry_connections st \<le> MAX_CONNECTIONS
     \<and> (\<forall>s \<in> set (ry_sockets st). tunnel_ok (sk_tunnel s) \<and> (sk_phase s = Opening \<longrightarrow> sk_provider s = None))
     \<and> (\<forall>pid k. ry_registry st pid = Some k \<longrightarrow> k < length (ry_sockets st) \<and> sk_provider (ry_sockets st ! k) = Some pid)"

lemma live_Cons: "live (a # ss) = live ss + (if sk_phase a = Closed then 0 else 1)"
  by (simp add: live_def)

lemma live_update:
  "k < length ss \<Longrightarrow> live (ss[k := s]) = live ss + (if sk_phase s = Closed then 0 else 1) - (if sk_phase (ss ! k) = Closed then 0 else 1)"
proof (induction ss arbitrary: k)
  case (Cons a ss)
  then show ?case by (cases k) (simp_all add: live_Cons)
qed simp

lemma set_socket_sel [simp]:
  "ry_sockets (set_socket k s st) = (ry_sockets st)[k := s]" "ry_registry (set_socket k s st) = ry_registry st"
  "ry_connections (set_socket k s st) = ry_connections st" "ry_db (set_socket k s st) = ry_db st"
  by (simp_all add: set_socket_def)

text \<open>Changing a socket that stays open, with its provider and a good tunnel, keeps the invariant.\<close>

lemma set_socket_ok:
  assumes ok: "relay_ok st" and k: "k < length (ry_sockets st)"
    and s: "sk_phase s \<noteq> Closed" "sk_phase (ry_sockets st ! k) \<noteq> Closed" "tunnel_ok (sk_tunnel s)" "sk_phase s \<noteq> Opening \<or> sk_provider s = None"
      "\<And>pid. ry_registry st pid = Some k \<Longrightarrow> sk_provider s = Some pid"
  shows "relay_ok (set_socket k s st)"
  using assms set_update_subset_insert [of "ry_sockets st" k s]
  by (auto simp: relay_ok_def live_update nth_list_update)

lemma finish_ok:
  assumes ok: "relay_ok st" and k: "k < length (ry_sockets st)" "sk_phase (ry_sockets st ! k) \<noteq> Closed"
  shows "relay_ok (finish k st)"
  using assms set_update_subset_insert [of "ry_sockets st" k "(ry_sockets st ! k)\<lparr>sk_phase := Closed\<rparr>"]
  by (auto simp: relay_ok_def finish_def live_update nth_list_update)

lemma relay_ok_db: "relay_ok (st\<lparr>ry_db := d\<rparr>) \<longleftrightarrow> relay_ok st"
  by (simp add: relay_ok_def)

lemma relay_ok_limiter: "relay_ok (st\<lparr>ry_limiter := l\<rparr>) \<longleftrightarrow> relay_ok st"
  by (simp add: relay_ok_def)

text \<open>Every reachable state is bounded, and a registered tunnel was authenticated as its provider.\<close>

lemma relay_accept_Inr:
  assumes "relay_accept s up clock origin ip st = Inr st'"
  shows "ry_connections st < MAX_CONNECTIONS"
    "st' = st\<lparr>ry_sockets := ry_sockets st @ [new_socket ip], ry_connections := ry_connections st + 1\<rparr>"
  using assms unfolding relay_accept_def by (simp_all only: split: if_splits, auto)

lemma relay_accept_ok:
  assumes ok: "relay_ok st" and a: "relay_accept s up clock origin ip st = Inr st'"
  shows "relay_ok st'"
proof -
  have "live (ry_sockets st @ [new_socket ip]) = live (ry_sockets st) + 1" by (simp add: live_def new_socket_def)
  then show ?thesis using ok relay_accept_Inr [OF a] new_tunnel_ok
    by (auto simp: relay_ok_def new_socket_def nth_append intro: less_SucI)
qed

lemma relay_auth_ok:
  assumes ok: "relay_ok st" and k: "k < length (ry_sockets st)" "sk_phase (ry_sockets st ! k) = Opening"
  shows "relay_ok (relay_auth auth up clock k frame st)"
proof -
  have fresh: "sk_provider (ry_sockets st ! k) = None" using ok k by (simp add: relay_ok_def)
  have f: "relay_ok (finish k (st\<lparr>ry_limiter := l\<rparr>))" for l using k by (intro finish_ok) (simp_all add: relay_ok_limiter ok)
  have f0: "relay_ok (finish k st)" using k by (intro finish_ok ok) simp_all
  have t: "tunnel_ok (sk_tunnel (ry_sockets st ! k))" using ok k(1) by (simp add: relay_ok_def)
  have none: "ry_registry st q \<noteq> Some k" for q using ok fresh by (force simp: relay_ok_def)
  have claim: "relay_ok (set_socket k ((ry_sockets st ! k)\<lparr>sk_phase := Claiming, sk_provider := Some pid, sk_models := ms\<rparr>) (register pid k st))" for pid ms
    using ok k t none set_update_subset_insert [of "ry_sockets st" k "(ry_sockets st ! k)\<lparr>sk_phase := Claiming, sk_provider := Some pid, sk_models := ms\<rparr>"]
    by (auto simp: relay_ok_def register_def live_update nth_list_update split: if_splits)
  show ?thesis unfolding relay_auth_def by (auto split: json.split option.split intro: f f0 claim)
qed

text \<open>A socket that only moves on keeps its provider.\<close>

lemma move_ok:
  assumes ok: "relay_ok st" and k: "k < length (ry_sockets st)" "sk_phase (ry_sockets st ! k) \<noteq> Closed"
    and s: "sk_phase s \<noteq> Closed" "sk_phase s \<noteq> Opening" "sk_provider s = sk_provider (ry_sockets st ! k)" "tunnel_ok (sk_tunnel s)"
  shows "relay_ok (set_socket k s st)"
  using ok s by (intro set_socket_ok [OF ok k(1)]) (auto simp: k relay_ok_def)

lemma same_socket_ok:
  assumes ok: "relay_ok st" and k: "k < length (ry_sockets st)" and t: "tunnel_ok t"
  shows "relay_ok (set_socket k ((ry_sockets st ! k)\<lparr>sk_tunnel := t\<rparr>) st)"
proof -
  have "(ry_sockets st ! k) \<in> set (ry_sockets st)" using k by simp
  then show ?thesis using assms set_update_subset_insert [of "ry_sockets st" k "(ry_sockets st ! k)\<lparr>sk_tunnel := t\<rparr>"]
    by (auto simp: relay_ok_def live_update nth_list_update)
qed

lemma tunnel_use_ok: "tunnel_use t t' \<Longrightarrow> tunnel_ok t \<Longrightarrow> tunnel_ok t'"
  by (induction rule: tunnel_use.induct) (auto intro: call_end_ok stream_end_ok dest: stream_next_ok)

lemma on_tunnel_ok:
  assumes ok: "relay_ok st" and r: "on_tunnel pid f st = Inr st'" and f: "\<And>t. tunnel_ok t \<Longrightarrow> tunnel_ok (f t)"
  shows "relay_ok st'"
proof -
  obtain k where k: "ry_registry st pid = Some k" and
    st': "st' = set_socket k ((ry_sockets st ! k)\<lparr>sk_tunnel := f (sk_tunnel (ry_sockets st ! k))\<rparr>) st"
    using r by (auto simp: on_tunnel_def Let_def split: option.splits)
  then have n: "k < length (ry_sockets st)" using ok by (simp add: relay_ok_def)
  have t: "tunnel_ok (f (sk_tunnel (ry_sockets st ! k)))" using ok n f by (simp add: relay_ok_def)
  show ?thesis unfolding st' by (rule same_socket_ok [OF ok n t])
qed

lemma relay_step_ok:
  assumes "relay_step auth s st st'" "relay_ok st"
  shows "relay_ok st'"
proof -
  have t: "tunnel_ok (sk_tunnel (ry_sockets st ! k))" if "k < length (ry_sockets st)" for k
    using assms(2) that by (simp add: relay_ok_def)
  from assms(1) show ?thesis
  proof cases
    case (accept up clock origin ip)
    then show ?thesis by (intro relay_accept_ok [OF assms(2)])
  next
    case (auth k up clock frame)
    then show ?thesis using relay_auth_ok [OF assms(2)] by simp
  next
    case (silent k)
    then show ?thesis using finish_ok [OF assms(2)] by simp
  next
    case (publish k pid)
    show ?thesis unfolding publish(1) relay_publish_def using publish(2-) t by (intro move_ok) (simp_all add: relay_ok_db assms(2))
  next
    case (confirm k pid now)
    show ?thesis unfolding confirm(1) relay_confirm_def Let_def using confirm(2-) t by (intro move_ok) (simp_all add: relay_ok_db send_ok assms(2))
  next
    case (lost k)
    then show ?thesis using finish_ok [OF assms(2)] by auto
  next
    case (receive k pid now msg)
    let ?st = "case msg of JObj m \<Rightarrow> if jget m ''type'' = JStr ''ping'' then st\<lparr>ry_db := mark_provider_seen s now pid (ry_db st)\<rparr> else st | _ \<Rightarrow> st"
    have st: "relay_ok ?st" "ry_sockets ?st = ry_sockets st" using assms(2) by (auto simp: relay_ok_db split: json.split)
    show ?thesis
    proof (cases "handle_incoming msg (sk_tunnel (ry_sockets st ! k))")
      case None
      then show ?thesis unfolding receive(1) relay_receive_def Let_def relay_drop_def
        using receive st t fail_all_ok by (simp add: move_ok)
    next
      case (Some t')
      then show ?thesis unfolding receive(1) relay_receive_def Let_def
        using receive st handle_incoming_ok [OF t Some] same_socket_ok [OF st(1), of k t'] by simp
    qed
  next
    case (drop k)
    show ?thesis unfolding drop(1) relay_drop_def Let_def using drop(2-) t fail_all_ok by (intro move_ok [OF assms(2)]) simp_all
  next
    case (unregister k pid)
    then have "relay_ok (set_socket k ((ry_sockets st ! k)\<lparr>sk_phase := Departed\<rparr>) st)" using t by (intro move_ok [OF assms(2)]) simp_all
    then show ?thesis unfolding unregister(1) relay_unregister_def unregister_def by (auto simp: relay_ok_def)
  next
    case (check k pid)
    show ?thesis unfolding check(1) relay_check_def using check(2-) t by (auto intro: move_ok [OF assms(2)] finish_ok [OF assms(2)])
  next
    case (clear k pid)
    show ?thesis unfolding clear(1) relay_clear_def using clear(2-) by (auto intro!: finish_ok simp: relay_ok_db assms(2))
  next
    case (call pid rid job meth payload)
    then show ?thesis using on_tunnel_ok [OF assms(2)] call_begin_ok by blast
  next
    case (stream pid rid job meth payload)
    then show ?thesis using on_tunnel_ok [OF assms(2)] stream_begin_ok by blast
  next
    case (consume k t')
    then show ?thesis using same_socket_ok [OF assms(2)] tunnel_use_ok t by blast
  qed
qed

interpretation relaying: system "\<lambda>st. \<exists>d. st = new_relay d" "relay_step auth s" relay_ok for auth s
proof
  show "\<exists>d. st = new_relay d \<Longrightarrow> relay_ok st" for st by (auto simp: new_relay_def relay_ok_def live_def MAX_CONNECTIONS_def)
qed (rule relay_step_ok)

section \<open>Declared models\<close>

lemma set_sort_strings [simp]: "set (sort_strings xs) = set xs"
  by (auto simp: sort_strings_def image_iff)

lemma length_insert_pair: "length (insert_pair p qs) = Suc (length qs)"
  by (induction qs) auto

lemma length_sort_strings [simp]: "length (sort_strings xs) = length xs"
proof -
  have "length (foldr insert_pair ps []) = length ps" for ps :: "(string \<times> unit) list"
    by (induction ps) (simp_all add: length_insert_pair)
  then show ?thesis by (simp add: sort_strings_def sort_pairs_def)
qed

lemma length_dropWhile: "length (dropWhile P xs) \<le> length xs"
  by (induction xs) auto

lemma length_strip: "length (strip s) \<le> length s"
  unfolding strip_def using length_dropWhile [of is_space s] length_dropWhile [of is_space "rev (dropWhile is_space s)"] by simp

lemma length_map_filter: "length (List.map_filter f xs) \<le> length xs"
  by (induction xs) (auto simp: List.map_filter_simps split: option.split)

lemma in_map_filterD: "y \<in> set (List.map_filter f xs) \<Longrightarrow> \<exists>x \<in> set xs. f x = Some y"
  by (induction xs) (auto simp: List.map_filter_simps split: option.splits)

lemma clean_models_bounds:
  "length (clean_models raw) \<le> MAX_MODELS" "distinct (clean_models raw)"
  "m \<in> set (clean_models raw) \<Longrightarrow> 0 < length m \<and> length m \<le> MAX_MODEL_NAME"
proof -
  let ?f = "\<lambda>item. case item of JStr s \<Rightarrow> if 0 < length s \<and> length s \<le> MAX_MODEL_NAME then Some (strip s) else None | _ \<Rightarrow> None"
  have n: "length (remdups (filter (\<lambda>m. m \<noteq> []) (List.map_filter ?f (take MAX_MODELS xs)))) \<le> MAX_MODELS" for xs
  proof -
    have "length (remdups (filter (\<lambda>m. m \<noteq> []) (List.map_filter ?f (take MAX_MODELS xs)))) \<le> length (List.map_filter ?f (take MAX_MODELS xs))"
      by (rule order_trans [OF length_remdups_leq length_filter_le])
    also have "\<dots> \<le> length (take MAX_MODELS xs)" by (rule length_map_filter)
    finally show ?thesis by simp
  qed
  then show "length (clean_models raw) \<le> MAX_MODELS" by (simp add: clean_models_def split: json.split)
  have "distinct (sort_strings (remdups xs))" for xs
    by (rule card_distinct) (simp add: length_remdups_card_conv)
  then show "distinct (clean_models raw)" by (simp add: clean_models_def split: json.split)
  show "0 < length m \<and> length m \<le> MAX_MODEL_NAME" if mem: "m \<in> set (clean_models raw)"
  proof -
    obtain xs where xs: "raw = JList xs" and m: "m \<noteq> []" "m \<in> set (List.map_filter ?f (take MAX_MODELS xs))"
      using mem by (cases raw) (auto simp: clean_models_def)
    then obtain x where "?f x = Some m" using in_map_filterD by meson
    then obtain s where "m = strip s" "length s \<le> MAX_MODEL_NAME" by (auto split: json.splits if_splits)
    then show ?thesis using m(1) length_strip [of s] by simp
  qed
qed

lemma add_models_rows:
  "set (map pm_model (filter (\<lambda>m. pm_provider_id m = pid) (provider_models (add_models p ms d))))
     = set (map pm_model (filter (\<lambda>m. pm_provider_id m = pid) (provider_models d))) \<union> (if pid = p then set ms else {})"
  by (induction p ms d rule: add_models.induct) auto

text \<open>Publishing replaces the claims of one provider and touches no other.\<close>

lemma record_models_rows:
  "set (map pm_model (filter (\<lambda>m. pm_provider_id m = pid) (provider_models (record_models p ms d))))
     = (if pid = p then set ms else set (map pm_model (filter (\<lambda>m. pm_provider_id m = pid) (provider_models d))))"
proof -
  have "filter (\<lambda>m. pm_provider_id m = pid) (provider_models (clear_models p d))
      = (if pid = p then [] else filter (\<lambda>m. pm_provider_id m = pid) (provider_models d))"
    by (auto simp: clear_models_def filter_empty_conv intro!: filter_cong)
  then show ?thesis unfolding record_models_def add_models_rows by simp
qed

section \<open>From the relay to the caller\<close>

text \<open>What the coordinator's HTTP client sees of a bridge answer, and what dispatch makes of it.\<close>

definition http_of :: "err + RelayResponse \<Rightarrow> http_answer" where
  "http_of r =
     (case r of
        Inr body \<Rightarrow> Answer 200 body
      | Inl (HTTPException st _) \<Rightarrow> Answer st \<lparr> rr_status = st, rr_payload = None \<rparr>
      | Inl _ \<Rightarrow> Answer 500 \<lparr> rr_status = 500, rr_payload = None \<rparr>)"

lemma dispatch_bridged:
  assumes "post pid (relay_body meth payload job) = http_of (bridge_outcome coerce r)"
  shows "dispatch post pid meth payload job =
    (case r of
       TimedOut \<Rightarrow> Inl (DispatchTimeoutError (''node '' @ uuid_str pid @ '' did not respond''))
     | TunnelClosed \<Rightarrow> Inl (DispatchError ''provider not connected'')
     | Reply frame \<Rightarrow>
         (case relay_reply coerce frame of
            Inl _ \<Rightarrow> Inl (DispatchError ''relay returned 500'')
          | Inr rr \<Rightarrow> if rr_status rr \<ge> 400 then Inl (DispatchError (''node returned status '' @ int_str (rr_status rr)))
                      else Inr (or_empty (rr_payload rr))))"
proof -
  have i: "int_str 500 = ''500''" by code_simp
  have e: "relay_reply coerce frame = Inl e \<Longrightarrow> \<exists>m. e = ValueError m" for frame e
    by (auto simp: relay_reply_def split: option.splits json.splits)
  show ?thesis using assms e
    by (cases r) (fastforce simp: dispatch_def call_provider_def relay_failure_def http_of_def bridge_outcome_def i split: sum.splits)+
qed

section \<open>Reconnecting while the old tunnel unwinds\<close>

definition claims :: "uuid \<Rightarrow> db \<Rightarrow> string set" where
  "claims pid d = set (map pm_model (filter (\<lambda>m. pm_provider_id m = pid) (provider_models d)))"

definition auth_frame :: "string \<Rightarrow> string list \<Rightarrow> json" where
  "auth_frame key models = JObj [(''type'', JStr ''auth''), (''key'', JStr key), (''models'', JList (map JStr models))]"

lemma claims_seen [simp]: "claims pid (mark_provider_seen s now p d) = claims pid d"
  by (simp add: claims_def mark_provider_seen_def put_provider_def split: option.split)

lemma claims_record: "claims pid (record_models p ms d) = (if pid = p then set ms else claims pid d)"
  unfolding claims_def by (rule record_models_rows)

text \<open>The relay's writes leave the keys and the set of providers alone, so a key that was good stays good.\<close>

definition same_nodes :: "db \<Rightarrow> db \<Rightarrow> bool" where
  "same_nodes d d' \<longleftrightarrow> api_keys d' = api_keys d \<and> map pr_id (providers d') = map pr_id (providers d)"

lemma same_nodes_seen: "same_nodes d e \<Longrightarrow> same_nodes d (mark_provider_seen s now p e)"
  by (auto simp: same_nodes_def mark_provider_seen_def put_provider_def split: option.split)

lemma same_nodes_record: "same_nodes d (record_models p ms d)"
proof -
  have "api_keys (add_models p ms e) = api_keys e \<and> providers (add_models p ms e) = providers e" for e
    by (induction ms arbitrary: e) simp_all
  then show ?thesis by (simp add: same_nodes_def record_models_def clear_models_def)
qed

lemma resolve_provider_stable:
  assumes "same_nodes d d'"
  shows "resolve_provider s key d' = resolve_provider s key d"
proof -
  have found: "map_option pr_id (tget pr_id k xs) = (if k \<in> set (map pr_id xs) then Some k else None)" for k and xs :: "Provider list"
    by (induction xs) auto
  have "set (map pr_id (providers d')) = set (map pr_id (providers d))" using assms by (simp add: same_nodes_def del: set_map)
  then have "(\<lambda>k. map_option pr_id (get_provider k d')) = (\<lambda>k. map_option pr_id (get_provider k d))"
    unfolding get_provider_def found by (simp del: set_map)
  moreover have "api_keys d' = api_keys d" using assms by (simp add: same_nodes_def)
  ultimately show ?thesis unfolding resolve_provider_def by metis
qed

lemma run3: "r a b \<Longrightarrow> r b c \<Longrightarrow> r c e \<Longrightarrow> r\<^sup>*\<^sup>* a e"
  by (intro converse_rtranclp_into_rtranclp [of r a b] converse_rtranclp_into_rtranclp [of r b c] r_into_rtranclp)

lemma run4: "r a b \<Longrightarrow> r b c \<Longrightarrow> r c e \<Longrightarrow> r e f \<Longrightarrow> r\<^sup>*\<^sup>* a f"
  by (rule converse_rtranclp_into_rtranclp [of r a b]) (assumption, rule run3)

text \<open>A node that connects with a good key ends up serving, with its models published.\<close>

lemma connects:
  assumes room: "ry_connections st < MAX_CONNECTIONS"
    and budget: "\<not> auth_failures_exceeded True clock (ip_identity ip) (relay_auth_failures_per_minute s) 60 (ry_limiter st)"
    and key: "key \<noteq> []" "auth key (ry_db st) = Some p"
  obtains st' where "(relay_step auth s)\<^sup>*\<^sup>* st st'" "ry_registry st' = (ry_registry st)(p \<mapsto> length (ry_sockets st))"
    "\<exists>n. ry_sockets st' = ry_sockets st @ [n] \<and> sk_phase n = Serving \<and> sk_provider n = Some p
         \<and> sk_models n = clean_models (JList (map JStr models))"
    "claims p (ry_db st') = set (clean_models (JList (map JStr models)))" "ry_connections st' = ry_connections st + 1"
    "ry_limiter st' = ry_limiter st" "same_nodes (ry_db st) (ry_db st')"
proof -
  let ?k = "length (ry_sockets st)" and ?ms = "clean_models (JList (map JStr models))"
  define st1 where "st1 = st\<lparr>ry_sockets := ry_sockets st @ [new_socket ip], ry_connections := ry_connections st + 1\<rparr>"
  have "relay_accept s True clock None ip st = Inr st1" using room budget by (simp add: relay_accept_def st1_def)
  then have s1: "relay_step auth s st st1" by (rule relay_step.accept)
  have k1: "?k < length (ry_sockets st1)" "ry_sockets st1 ! ?k = new_socket ip" by (simp_all add: st1_def)
  define st2 where "st2 = relay_auth auth True clock ?k (auth_frame key models) st1"
  have s2: "relay_step auth s st1 st2" unfolding st2_def using k1 by (intro relay_step.auth) (simp_all add: new_socket_def)
  define n2 where "n2 = (new_socket ip)\<lparr>sk_phase := Claiming, sk_provider := Some p, sk_models := ?ms\<rparr>"
  have st2: "st2 = set_socket ?k n2 (register p ?k st1)"
    using key k1(2) unfolding st2_def relay_auth_def auth_frame_def n2_def by (simp add: jget_def st1_def)
  have k2: "ry_sockets st2 = ry_sockets st @ [n2]" "ry_registry st2 = (ry_registry st)(p \<mapsto> ?k)" "ry_db st2 = ry_db st"
    "ry_connections st2 = ry_connections st + 1" "ry_limiter st2 = ry_limiter st"
    by (simp_all add: st2 register_def st1_def set_socket_def)
  define st3 where "st3 = relay_publish ?k p st2"
  have s3: "relay_step auth s st2 st3" unfolding st3_def by (rule relay_step.publish) (simp_all add: k2 n2_def)
  define n3 where "n3 = n2\<lparr>sk_phase := Announcing\<rparr>"
  have k3: "ry_sockets st3 = ry_sockets st @ [n3]" "ry_registry st3 = (ry_registry st)(p \<mapsto> ?k)" "ry_db st3 = record_models p ?ms (ry_db st)"
    "ry_connections st3 = ry_connections st + 1" "ry_limiter st3 = ry_limiter st"
    by (simp_all add: st3_def relay_publish_def set_socket_def k2 n3_def) (simp add: n2_def)
  define st4 where "st4 = relay_confirm s now ?k p st3"
  have s4: "relay_step auth s st3 st4" unfolding st4_def by (rule relay_step.confirm) (simp_all add: k3 n3_def n2_def)
  have k4: "\<exists>t. ry_sockets st4 = ry_sockets st @ [n3\<lparr>sk_phase := Serving, sk_tunnel := t\<rparr>]" "ry_registry st4 = (ry_registry st)(p \<mapsto> ?k)"
    "ry_db st4 = mark_provider_seen s now p (record_models p ?ms (ry_db st))" "ry_connections st4 = ry_connections st + 1" "ry_limiter st4 = ry_limiter st"
    by (simp_all add: st4_def relay_confirm_def Let_def set_socket_def k3) (rule exI, rule refl)
  show ?thesis
  proof (rule that)
    show "(relay_step auth s)\<^sup>*\<^sup>* st st4" by (rule run4 [of "relay_step auth s", OF s1 s2 s3 s4])
    show "\<exists>n. ry_sockets st4 = ry_sockets st @ [n] \<and> sk_phase n = Serving \<and> sk_provider n = Some p \<and> sk_models n = ?ms"
      using k4(1) by (auto simp: n3_def n2_def)
    show "same_nodes (ry_db st) (ry_db st4)" unfolding k4(3) by (rule same_nodes_seen [OF same_nodes_record])
  qed (use k4 claims_record in simp_all)
qed

text \<open>A dropped tunnel reaches the point where it has seen that nobody is connected and has not yet retracted.\<close>

lemma unwinds:
  assumes k: "k < length (ry_sockets st)" "sk_phase (ry_sockets st ! k) = Serving" "sk_provider (ry_sockets st ! k) = Some p"
    and reg: "ry_registry st p = Some k"
  obtains st' s' where "(relay_step auth s)\<^sup>*\<^sup>* st st'" "ry_registry st' = (ry_registry st)(p := None)"
    "ry_sockets st' = (ry_sockets st)[k := s']" "sk_phase s' = Clearing" "sk_provider s' = Some p"
    "ry_db st' = ry_db st" "ry_connections st' = ry_connections st" "ry_limiter st' = ry_limiter st"
proof -
  define n1 where "n1 = (ry_sockets st ! k)\<lparr>sk_phase := Unwinding, sk_tunnel := fail_all ''tunnel closed'' (sk_tunnel (ry_sockets st ! k))\<rparr>"
  define st1 where "st1 = relay_drop k st"
  have k1: "st1 = set_socket k n1 st" by (simp add: st1_def relay_drop_def Let_def n1_def)
  have s1: "relay_step auth s st st1" unfolding st1_def using k by (intro relay_step.drop)
  define st2 where "st2 = relay_unregister k p st1"
  have s2: "relay_step auth s st1 st2" unfolding st2_def using k by (intro relay_step.unregister) (simp_all add: k1 n1_def)
  have k2: "ry_sockets st2 = (ry_sockets st)[k := n1\<lparr>sk_phase := Departed\<rparr>]" "ry_registry st2 = (ry_registry st)(p := None)"
    "ry_db st2 = ry_db st" "ry_connections st2 = ry_connections st" "ry_limiter st2 = ry_limiter st"
    using k(1) reg by (simp_all add: st2_def relay_unregister_def unregister_def k1 set_socket_def)
  define st3 where "st3 = relay_check k p st2"
  have s3: "relay_step auth s st2 st3" unfolding st3_def using k by (intro relay_step.check) (simp_all add: k2 n1_def)
  have k3: "ry_sockets st3 = (ry_sockets st)[k := n1\<lparr>sk_phase := Clearing\<rparr>]" "ry_registry st3 = (ry_registry st)(p := None)"
    "ry_db st3 = ry_db st" "ry_connections st3 = ry_connections st" "ry_limiter st3 = ry_limiter st"
    using k(1) by (simp_all add: st3_def relay_check_def k2 set_socket_def)
  show ?thesis
  proof (rule that [of st3 "n1\<lparr>sk_phase := Clearing\<rparr>"])
    show "(relay_step auth s)\<^sup>*\<^sup>* st st3" by (rule run3 [of "relay_step auth s", OF s1 s2 s3])
  qed (use k3 k(3) in \<open>simp_all add: n1_def\<close>)
qed

text \<open>The late retraction erases what the new tunnel has published: the node serves and nobody can find it.\<close>

lemma reconnect_race:
  assumes s: "1 \<le> relay_auth_failures_per_minute s" and key: "key \<noteq> []" "auth key d = Some p" "\<And>e. same_nodes d e \<Longrightarrow> auth key e = auth key d"
  obtains st k where "(relay_step auth s)\<^sup>*\<^sup>* (new_relay d) st" "ry_registry st p = Some k" "k < length (ry_sockets st)"
    "sk_phase (ry_sockets st ! k) = Serving" "sk_models (ry_sockets st ! k) = clean_models (JList (map JStr models))" "claims p (ry_db st) = {}"
proof -
  have budget: "\<not> auth_failures_exceeded True 0 (ip_identity ip) (relay_auth_failures_per_minute s) 60 new_limiter" for ip
    using s by (simp add: auth_failures_exceeded_def redis_get_def new_limiter_def)
  have r0: "ry_connections (new_relay d) = 0" "ry_sockets (new_relay d) = []" "ry_limiter (new_relay d) = new_limiter"
    "ry_db (new_relay d) = d"
    by (simp_all add: new_relay_def)
  obtain st1 where c1: "(relay_step auth s)\<^sup>*\<^sup>* (new_relay d) st1" "ry_registry st1 = (ry_registry (new_relay d))(p \<mapsto> 0)"
    "\<exists>n. ry_sockets st1 = [n] \<and> sk_phase n = Serving \<and> sk_provider n = Some p" "ry_connections st1 = 1" "ry_limiter st1 = new_limiter"
    "same_nodes d (ry_db st1)"
    by (rule connects [of "new_relay d" 0 "''ip''" s key auth p models]) (use budget key r0 in \<open>auto simp: MAX_CONNECTIONS_def\<close>)
  obtain st2 s' where u: "(relay_step auth s)\<^sup>*\<^sup>* st1 st2" "ry_sockets st2 = [s']" "sk_phase s' = Clearing" "sk_provider s' = Some p"
    "ry_connections st2 = 1" "ry_limiter st2 = new_limiter" "ry_db st2 = ry_db st1"
    by (rule unwinds [of 0 st1 p auth s]) (use c1 in auto)
  have good: "auth key (ry_db st2) = Some p" using key c1(6) by (simp add: u(7))
  obtain st3 n where c2: "(relay_step auth s)\<^sup>*\<^sup>* st2 st3" "ry_registry st3 = (ry_registry st2)(p \<mapsto> 1)"
    "ry_sockets st3 = [s', n]" "sk_phase n = Serving" "sk_models n = clean_models (JList (map JStr models))"
    by (rule connects [of st2 0 "''ip''" s key auth p models]) (use budget key(1) good u in \<open>auto simp: MAX_CONNECTIONS_def\<close>)
  define st4 where "st4 = relay_clear 0 p st3"
  have "relay_step auth s st3 st4" unfolding st4_def using c2 u by (intro relay_step.clear) simp_all
  then have run: "(relay_step auth s)\<^sup>*\<^sup>* (new_relay d) st4" using c1(1) u(1) c2(1) by (meson rtranclp_trans rtranclp.rtrancl_into_rtrancl)
  have "ry_sockets st4 = [s'\<lparr>sk_phase := Closed\<rparr>, n]" "ry_registry st4 p = Some 1" "claims p (ry_db st4) = {}"
    using c2 by (simp_all add: st4_def relay_clear_def finish_def set_socket_def claims_def clear_models_def)
  then show ?thesis using that [of st4 1] run c2 by simp
qed

text \<open>A socket that breaks between its registration and \<open>auth_ok\<close> is outside the \<open>try\<close>: it stays registered.\<close>

lemma lost_stays_registered:
  assumes "k < length (ry_sockets st)" "sk_phase (ry_sockets st ! k) = Claiming" "ry_registry st p = Some k"
  shows "relay_step auth s st (finish k st)" "ry_registry (finish k st) p = Some k" "sk_phase (ry_sockets (finish k st) ! k) = Closed"
proof -
  show "relay_step auth s st (finish k st)" using assms by (intro relay_step.lost) simp_all
qed (use assms in \<open>simp_all add: finish_def set_socket_def\<close>)

end
