(* ===== verification/Gateway.thy ===== *)
theory Gateway
  imports Auth Streaming Relay
begin

text \<open>
  The gateway and the relay beside the coordinator.  Both write to the coordinator's database: the gateway holds,
  charges and returns money, the relay publishes what its nodes serve and stamps when they were seen.  Every one of
  their writes keeps the coordinator's invariant, whatever the node, the client or the clock does.
\<close>

section \<open>Money\<close>

lemma reserve_or_402_keeps: "reserve_or_402 ds now dev x d = Inr (held, d') \<Longrightarrow> coord_ok d \<Longrightarrow> keeps d d'"
  by (auto simp: reserve_or_402_def intro: reserve_balance_keeps split: sum.splits)

lemma chat_reserve_keeps: "chat_reserve ds now body dev d = Inr (h, d') \<Longrightarrow> coord_ok d \<Longrightarrow> keeps d d'"
  by (auto simp: chat_reserve_def bindE_Inr_iff Let_def intro: reserve_or_402_keeps split: if_splits)

lemma image_reserve_keeps: "image_reserve ds now body dev d = Inr (spec, held, d') \<Longrightarrow> coord_ok d \<Longrightarrow> keeps d d'"
  by (auto simp: image_reserve_def bindE_Inr_iff intro: reserve_or_402_keeps)

lemma settle_on_session_keeps: "settle_on_session now dev p held x s d = (r, d') \<Longrightarrow> coord_ok d \<Longrightarrow> keeps d d'"
  by (auto simp: settle_on_session_def keeps_refl intro: return_hold_keeps charge_usage_keeps
      keeps_trans [OF return_hold_keeps charge_usage_keeps] dest: return_hold_keeps [unfolded keeps_def] split: sum.splits prod.splits)

lemma release_keeps: "release_reservation now dev held d = Inr d' \<Longrightarrow> coord_ok d \<Longrightarrow> keeps d d'"
  by (auto simp: release_reservation_def intro: return_hold_keeps)

lemma abandon_keeps: "coord_ok d \<Longrightarrow> keeps d (snd (abandon now dev held e d))"
  by (auto simp: abandon_def keeps_refl intro: release_keeps split: sum.split)

text \<open>A settlement that raises is followed by the release of the \<open>finally\<close>.\<close>

lemma settled_or_abandoned:
  assumes "settle_on_session now dev p held x s d = (r, e)" "coord_ok d"
  shows "keeps d e" "keeps d (snd (abandon now dev held err e))"
proof -
  show e: "keeps d e" by (rule settle_on_session_keeps [OF assms])
  then have "coord_ok e" by (simp add: keeps_def)
  then show "keeps d (snd (abandon now dev held err e))" by (rule keeps_trans [OF e abandon_keeps])
qed

lemma chat_serve_keeps: "coord_ok d \<Longrightarrow> keeps d (snd (chat_serve post c now s tok body dev h d))"
  by (auto simp: chat_serve_def Let_def keeps_refl abandon_keeps intro: settled_or_abandoned split: sum.split prod.split)

lemma image_serve_keeps: "coord_ok d \<Longrightarrow> keeps d (snd (fst (image_serve put post c now s body dev spec held d st)))"
  by (auto simp: image_serve_def Let_def keeps_refl abandon_keeps intro: settled_or_abandoned split: sum.split prod.split)

lemma finalise_partial_keeps: "coord_ok d \<Longrightarrow> keeps d (finalise_partial now dev p held x s d)"
  by (auto simp: finalise_partial_def keeps_refl intro: settle_reservation_keeps release_keeps split: sum.split)

lemma chat_stream_body_keeps: "coord_ok d \<Longrightarrow> keeps d (snd (snd (chat_stream_body now s dev p h events d)))"
  by (auto simp: chat_stream_body_def Let_def intro: settle_reservation_keeps release_keeps finalise_partial_keeps
      split: prod.split stream_ending.split sum.split)

section \<open>Claims, presence and quotas\<close>

lemma add_models_sel:
  "jobs (add_models p ms d) = jobs d" "ledger_entries (add_models p ms d) = ledger_entries d"
  "disputes (add_models p ms d) = disputes d" "providers (add_models p ms d) = providers d" "next_id d \<le> next_id (add_models p ms d)"
proof (induction ms arbitrary: d)
  case (Cons m ms)
  { case 5 show ?case using Cons(5) [of "d\<lparr>provider_models := provider_models d @ [\<lparr> pm_id = next_id d, pm_provider_id = p, pm_model = m \<rparr>],
      next_id := Suc (next_id d)\<rparr>"] by simp }
qed simp_all

lemma clear_models_keeps: "coord_ok d \<Longrightarrow> keeps d (clear_models p d)"
  by (rule account_keeps) (simp_all add: clear_models_def)

lemma record_models_keeps: "coord_ok d \<Longrightarrow> keeps d (record_models p ms d)"
  using add_models_sel [where p = p and ms = ms and d = "clear_models p d"]
  by (intro account_keeps) (simp_all add: record_models_def clear_models_def)

lemma mark_provider_seen_keeps:
  assumes "coord_ok d"
  shows "keeps d (mark_provider_seen s now p d)"
proof (cases "get_provider p d")
  case (Some q)
  then have q: "get_provider (pr_id q) d = Some q" by (auto simp: get_provider_def dest: tget_SomeD)
  show ?thesis using Some
    by (intro own_row_keeps [OF assms q, of "mark_seen q now (connection_timeout_seconds s)"])
      (simp_all add: mark_provider_seen_def put_provider_def mark_seen_def Let_def)
qed (simp add: mark_provider_seen_def keeps_refl assms)

lemma consume_daily_keeps: "coord_ok d \<Longrightarrow> keeps d (snd (consume_daily anchor kind limit now d))"
  by (rule account_keeps) (auto simp: consume_daily_def open_row_def Let_def split: option.splits if_splits)

lemma finish_db [simp]: "ry_db (finish k st) = ry_db st"
  by (simp add: finish_def set_socket_def)

lemma set_socket_db [simp]: "ry_db (set_socket k x st) = ry_db st"
  by (simp add: set_socket_def)

lemma relay_step_keeps:
  assumes "relay_step auth s st st'" "coord_ok (ry_db st)"
  shows "keeps (ry_db st) (ry_db st')"
  using assms
proof cases
  case (auth k up clock frame)
  then show ?thesis using assms(2)
    by (auto simp: relay_auth_def register_def keeps_refl split: json.split option.split)
next
  case (receive k pid now msg)
  then show ?thesis using assms(2)
    by (auto simp: relay_receive_def relay_drop_def Let_def keeps_refl intro: mark_provider_seen_keeps split: json.split option.split)
qed (use assms(2) in \<open>auto simp: relay_accept_def relay_publish_def relay_confirm_def relay_drop_def relay_unregister_def
      unregister_def relay_check_def relay_clear_def on_tunnel_def Let_def
      intro: keeps_refl record_models_keeps mark_provider_seen_keeps clear_models_keeps split: if_splits option.splits\<close>)

section \<open>One write\<close>

inductive gateway_step :: "db \<Rightarrow> db \<Rightarrow> bool" where
  hold_chat: "chat_reserve ds now body dev d = Inr (h, d') \<Longrightarrow> gateway_step d d'"
| serve_chat: "gateway_step d (snd (chat_serve post c now s tok body dev h d))"
| stream_chat: "gateway_step d (snd (snd (chat_stream_body now s dev p h events d)))"
| hold_image: "image_reserve ds now body dev d = Inr (spec, held, d') \<Longrightarrow> gateway_step d d'"
| serve_image: "gateway_step d (snd (fst (image_serve LocalStorage_put post c now s body dev spec held d fs)))"
| quota: "gateway_step d (snd (consume_daily anchor kind limit now d))"
| relayed: "relay_step auth s st st' \<Longrightarrow> gateway_step (ry_db st) (ry_db st')"

lemma gateway_step_keeps: "gateway_step d d' \<Longrightarrow> coord_ok d \<Longrightarrow> keeps d d'"
  by (induction rule: gateway_step.induct)
    (auto intro: chat_reserve_keeps chat_serve_keeps chat_stream_body_keeps image_reserve_keeps image_serve_keeps
      consume_daily_keeps relay_step_keeps)

end
