(* ===== verification/Coordinator.thy ===== *)
theory Coordinator
  imports Auth Uploads Systems Chain_Workers Gateway
begin

text \<open>
  The coordinator as a transition system.  \<open>handler\<close> has one rule per request that commits a change to the
  database (a request that raises is rolled back and is no step); \<open>coord_step\<close> adds the submission of jobs
  and one iteration of each scheduler loop and of the chain worker's two loops, over the database and the
  queue.  A settlement cycle appears by what every cycle writes on any chain (\<open>tick_only\<close>), the inference gateway
  and the relay by each of their commits (\<open>gateway_step\<close>).  Requests and iterations
  interleave in any order, under any settings the process would start with.
\<close>

section \<open>The scheduler's iterations keep the invariant\<close>

lemma create_canary_keeps:
  assumes "create_canary_job now d = (job, d')" "coord_ok d"
  shows "keeps d d'"
proof -
  obtain dev e where sd: "system_developer now d = (dev, e)" by force
  then have e: "jobs e = jobs d" "next_id e = next_id d" "ledger_entries e = ledger_entries d" "disputes e = disputes d"
    "providers e = providers d"
    by (auto simp: system_developer_def Let_def split: option.splits)
  have d': "jobs d' = jobs d @ [job]" "next_id d' = Suc (next_id d)" "ledger_entries d' = ledger_entries d"
    "disputes d' = disputes d" "providers d' = providers d"
    and job: "j_id job = next_id d" "j_kind job = jk_canary" "j_escrow_amount job = None" "j_cost_final job = None" "j_redundancy job = 1"
    using assms(1) by (auto simp: create_canary_job_def sd Let_def e)
  have "ledger_ok d'" "held_ok d'"
    using assms(2) d' by (auto simp: coord_ok_def intro: ledger_ok_cong [of d' d] held_ok_same_ledger [of d d'])
  moreover have "reputations_ok d'" using assms(2) by (simp add: coord_ok_def reputations_ok_def d')
  moreover have "jobs_ok d'" using assms(2) by (fastforce simp: coord_ok_def jobs_ok_def d' job escrow_fits_def)
  moreover have "escrow_ok d'"
    using assms(2) job_balance_cong [OF d'(3)] by (fastforce simp: coord_ok_def escrow_ok_def d' job outstanding_def escrow_of_def)
  ultimately show ?thesis by (simp add: keeps_def coord_ok_def db_evolves_append [OF d'(1)])
qed

lemma canary_iteration_keeps: "coord_ok (sc_db st) \<Longrightarrow> keeps (sc_db st) (sc_db (canary_iteration now s draw st))"
proof -
  assume ok: "coord_ok (sc_db st)"
  obtain job d' where c: "create_canary_job now (sc_db st) = (job, d')" by force
  show ?thesis
    using create_canary_keeps [OF c ok] ok
    by (auto simp: canary_iteration_def c enqueue_job_def keeps_refl)
qed

lemma fold_enqueue: "sc_db (fold enqueue_job ks st) = sc_db st \<and> sc_queue (fold enqueue_job ks st) = sc_queue st @ ks"
  by (induction ks arbitrary: st) (auto simp: enqueue_job_def)

lemma assignment_iteration_keeps:
  assumes ok: "coord_ok (sc_db st)"
  shows "keeps (sc_db st) (sc_db (assignment_iteration C now s st))"
proof (cases "sc_queue st")
  case Nil
  then show ?thesis using ok by (simp add: assignment_iteration_def dequeue_job_def keeps_refl)
next
  case (Cons k ks)
  obtain ps d' where a: "assign_providers C now k s (sc_db st) = Inr (ps, d')" using assign_total by blast
  have "keeps (sc_db st) d'" using assign_coord [OF a ok] by (simp add: keeps_def)
  then show ?thesis
    using a by (auto simp: assignment_iteration_def dequeue_job_def Cons assign_job_def enqueue_job_def split: option.splits)
qed

lemma reaper_iteration_keeps:
  assumes ok: "coord_ok (sc_db st)" and s: "valid_settings s"
  shows "keeps (sc_db st) (sc_db (reaper_iteration now s st))"
proof (cases "reap_expired_attempts now s (sc_db st)")
  case (Inl e)
  then show ?thesis using ok by (simp add: reaper_iteration_def keeps_refl)
next
  case (Inr d1)
  have 1: "keeps (sc_db st) d1" using reap_expired_attempts_coord [OF Inr s ok] by (simp add: keeps_def)
  obtain r1 d2 where 2: "reap_expired_leases now s d1 = Inr (r1, d2)" "keeps d1 d2"
    using reap_expired_leases_coord [of d1 now s] 1 by (auto simp: keeps_def)
  obtain r2 d3 where 3: "drain_unreachable_providers now s d2 = Inr (r2, d3)" "keeps d2 d3"
    using drain_coord [of d2 now s] 2 by (auto simp: keeps_def)
  have "keeps (sc_db st) d3" using 1 2(2) 3(2) by (blast intro: keeps_trans)
  then show ?thesis by (simp add: reaper_iteration_def Inr 2 3 Let_def fold_enqueue)
qed

section \<open>The step relation\<close>

abbreviation registered :: "Provider \<Rightarrow> db \<Rightarrow> bool" where
  "registered p d \<equiv> get_provider (pr_id p) d = Some p"

inductive handler :: "db \<Rightarrow> db \<Rightarrow> bool" where
  poll: "registered p d \<Longrightarrow> handler d (poll_seen now s p d)"
| ping: "registered p d \<Longrightarrow> handler d (snd (ping now s p d))"
| report_path: "registered p d \<Longrightarrow> handler d (snd (report_path now s nat_type p d))"
| report_cache: "registered p d \<Longrightarrow> handler d (report_cache now s cached p d)"
| report_health: "registered p d \<Longrightarrow> handler d (snd (report_health now s body p d))"
| submit_attestation: "registered p d \<Longrightarrow> submit_attestation now s m sig p d = Inr (b, d') \<Longrightarrow> handler d d'"
| submit_benchmark: "registered p d \<Longrightarrow> submit_benchmark now s m sig key p d = Inr (r, d') \<Longrightarrow> handler d d'"
| download_input: "registered p d \<Longrightarrow> download_input blob now k p d = Inr (data, d') \<Longrightarrow> handler d d'"
| upload_result_blob: "registered p d \<Longrightarrow> upload_result_blob LocalStorage_put now data p fs d = Inr (ref, fs', d') \<Longrightarrow> handler d d'"
| heartbeat: "registered p d \<Longrightarrow> heartbeat now s k p d = Inr (lease, d') \<Longrightarrow> handler d d'"
| report_status: "registered p d \<Longrightarrow> report_status now s k p d = Inr (ack, d') \<Longrightarrow> handler d d'"
| submit_result: "valid_settings s \<Longrightarrow> registered p d \<Longrightarrow> submit_result now s k res p d = Inr (ack, d') \<Longrightarrow> handler d d'"
| contest: "contest now pid k d = Inr d' \<Longrightarrow> handler d d'"
| rule_on_dispute: "rule_on_dispute now k upheld reason d = Inr d' \<Longrightarrow> handler d d'"
| deposit_stake: "deposit_stake now pid x d = Inr (grp, d') \<Longrightarrow> handler d d'"
| reserve_balance: "reserve_balance now dev x d = Inr (held, d') \<Longrightarrow> handler d d'"
| settle_reservation: "settle_reservation now dev pid held actual s d = Inr (cost, d') \<Longrightarrow> handler d d'"
| release_reservation: "release_reservation now dev held d = Inr d' \<Longrightarrow> handler d d'"
| charge_usage: "charge_usage now dev pid cost s None reason d = Inr (charged, d') \<Longrightarrow> handler d d'"
| credit_deposit: "credit_deposit now dev x reason d = Inr (credited, d') \<Longrightarrow> handler d d'"
| issue_nonce: "issue_nonce E now s nonce address d = Inr (challenge, d') \<Longrightarrow> handler d d'"
| sign_in: "verify_sign_in E now s token address nonce sig d = Inr (session, d') \<Longrightarrow> handler d d'"
| create_api_key: "create_api_key now s token label developer d = Inr (created, d') \<Longrightarrow> handler d d'"
| revoke_api_key: "revoke_api_key k developer d = Inr d' \<Longrightarrow> handler d d'"
| onboard_provider: "onboard_provider now s token name region developer d = Inr (onboarded, d') \<Longrightarrow> handler d d'"
| update_me: "registered p d \<Longrightarrow> update_me caps p d = Inr (p', d') \<Longrightarrow> handler d d'"

inductive coord_step :: "sched \<Rightarrow> sched \<Rightarrow> bool" where
  request: "handler (sc_db st) d' \<Longrightarrow> coord_step st (st\<lparr>sc_db := d'\<rparr>)"
| submit: "valid_settings s \<Longrightarrow> valid_submit body \<Longrightarrow>
     submit_job blob_exists usdc redis_up now s dev body key st = Inr (job, st') \<Longrightarrow> coord_step st st'"
| assign: "coord_step st (assignment_iteration candidates now s st)"
| reap: "valid_settings s \<Longrightarrow> coord_step st (reaper_iteration now s st)"
| canary: "coord_step st (canary_iteration now s draw st)"
| watch: "coord_step st (st\<lparr>sc_db := snd (watcher_tick R now w (sc_db st))\<rparr>)"
| settle: "settlement_only (sc_db st) d' \<Longrightarrow> coord_step st (st\<lparr>sc_db := d'\<rparr>)"
| gateway: "gateway_step (sc_db st) d' \<Longrightarrow> coord_step st (st\<lparr>sc_db := d'\<rparr>)"

definition initial :: "sched \<Rightarrow> bool" where
  "initial st \<longleftrightarrow> sc_db st = empty_db \<and> sc_queue st = []"

lemma handler_keeps: "handler d d' \<Longrightarrow> coord_ok d \<Longrightarrow> keeps d d'"
proof (induction rule: handler.induct)
  case (release_reservation now dev held d d')
  then show ?case by (auto simp: release_reservation_def intro: return_hold_keeps)
qed (auto intro: agent_keeps contest_keeps rule_on_dispute_keeps deposit_stake_keeps reserve_balance_keeps
      settle_reservation_keeps charge_usage_keeps credit_deposit_keeps issue_nonce_keeps verify_sign_in_keeps
      create_api_key_keeps revoke_api_key_keeps onboard_provider_keeps update_me_keeps)

lemma coord_step_keeps: "coord_step st st' \<Longrightarrow> coord_ok (sc_db st) \<Longrightarrow> keeps (sc_db st) (sc_db st')"
  by (induction rule: coord_step.induct)
    (auto intro: handler_keeps submit_job_keeps assignment_iteration_keeps reaper_iteration_keeps canary_iteration_keeps
      watcher_tick_keeps settlement_only_keeps gateway_step_keeps)

lemma empty_coord_ok: "coord_ok empty_db"
proof -
  have "account_balance acc ref empty_db = 0" for acc ref by (simp add: balance_as_net empty_db_def)
  then show ?thesis
    by (simp add: coord_ok_def held_ok_def held_sum_def provider_stake_def reputations_ok_def jobs_ok_def escrow_ok_def
        job_balance_def empty_db_def) (simp flip: empty_db_def)
qed

interpretation coord: evolving initial coord_step "\<lambda>st. coord_ok (sc_db st)" "\<lambda>st st'. db_evolves (sc_db st) (sc_db st')"
proof
  show "initial s \<Longrightarrow> coord_ok (sc_db s)" for s by (simp add: initial_def empty_coord_ok)
  show "coord_ok (sc_db s) \<Longrightarrow> coord_step s t \<Longrightarrow> coord_ok (sc_db t)" for s t
    using coord_step_keeps by (simp add: keeps_def)
  show "coord_ok (sc_db s) \<Longrightarrow> coord_step s t \<Longrightarrow> db_evolves (sc_db s) (sc_db t)" for s t
    using coord_step_keeps by (simp add: keeps_def)
qed (auto intro: db_evolves_trans)

end
