(* ===== verification/Samples.thy ===== *)
theory Samples
  imports Coordinator
begin

text \<open>
  Concrete inputs at which the properties are instantiated: the settings the process starts with, a job
  request, a provider, and the states a short run reaches: a submitted job and an assigned one.
\<close>

definition sample_body :: SubmitJobRequest where
  "sample_body =
     \<lparr> sj_image_ref = ''ubuntu'', sj_input_ref = None,
       sj_resource_spec = \<lparr> rs_cpu_cores = Some 1, rs_memory_mb = Some 512, rs_gpu = Some False, rs_gpu_vram_mb = Some 0 \<rparr>,
       sj_args = None, sj_allow_egress = False, sj_timeout_seconds = 300, sj_is_high_value = False,
       sj_redundancy = 1, sj_exposed_port = None, sj_data_tier = dt_public, sj_wrapped_key = None \<rparr>"

definition sample_provider :: Provider where
  "sample_provider =
     \<lparr> pr_id = 7, pr_name = ''node'', pr_region = None, pr_gpu_model = None, pr_gpu_vram_mb = 0, pr_cpu_cores = 8,
       pr_memory_mb = 16384, pr_max_concurrent = 2, pr_reputation = 50, pr_enabled = True, pr_wallet_address = ''0x07'',
       pr_tee_attested = False, pr_degraded = False, pr_connected_at = Some 0, pr_last_seen = Some 0,
       pr_path_type = None, pr_path_established_at = None, pr_created_at = 0 \<rparr>"

definition sample_developer :: "uuid \<Rightarrow> Developer" where
  "sample_developer k = \<lparr> dv_id = k, dv_name = ''dev'', dv_wallet_address = None, dv_created_at = 0 \<rparr>"

text \<open>A wallet library that accepts every address as it is and recovers \<open>0xab\<close> from every signature.\<close>

definition sample_wallet :: eth where
  "sample_wallet = \<lparr> is_address = (\<lambda>_. True), to_checksum_address = (\<lambda>a. a), recover_message = (\<lambda>_ _. Some ''0xab'') \<rparr>"

definition start_sched :: sched where
  "start_sched = \<lparr> sc_db = empty_db\<lparr>providers := [sample_provider]\<rparr>, sc_queue = [] \<rparr>"

definition sample_job :: Job where
  "sample_job = new_job 0 1 sample_body (Some ''k1'') 5 0x10000"

abbreviation submit_sample :: "sched \<Rightarrow> err + (Job \<times> sched)" where
  "submit_sample \<equiv> submit_job (\<lambda>_. Inr True) None True 0 default_settings 1 sample_body (Some ''k1'')"

lemma sample_settings: "valid_settings default_settings"
  by code_simp

lemma sample_body_valid: "valid_submit sample_body"
  by code_simp

lemma ctx_whole: "\<bar>n\<bar> < 10 ^ 20 \<Longrightarrow> ctx (of_int n) = of_int n"
  by (rule ctx_grid [of 0]) (auto simp: on_grid_def simp flip: of_int_abs)

lemma ctx_numeral: "(numeral n :: int) < 10 ^ 20 \<Longrightarrow> ctx (numeral n) = numeral n"
  using ctx_whole [of "numeral n"] by simp

lemma ctx_one: "ctx 1 = 1"
  using ctx_whole [of 1] by simp

lemma quantize_whole: "quantize k (of_int n) = of_int n"
  by (rule quantize_id) (auto simp: on_grid_def intro!: exI [of _ "n * 10 ^ k"])

lemma sample_escrow: "escrow_estimate (sj_resource_spec sample_body) (sj_timeout_seconds sample_body) default_settings = 5"
  using quantize_whole [of 8 5]
  by (simp add: escrow_estimate_def compute_cost_def sample_body_def default_settings_def opt_get_def ctx_numeral ctx_one)

lemma start_ok: "coord_ok (sc_db start_sched)"
  using account_keeps [OF empty_coord_ok, of "sc_db start_sched"] by (simp add: start_sched_def sample_provider_def keeps_def)

lemma sample_submitted:
  obtains st where "submit_sample start_sched = Inr (sample_job, st)" "jobs (sc_db st) = [sample_job]"
    "coord_step start_sched st" "coord_ok (sc_db st)" "sc_queue st = [0x10000]" "providers (sc_db st) = [sample_provider]"
    "job_attempts (sc_db st) = []"
proof -
  have "next_id (sc_db start_sched) = 0x10000" "jobs (sc_db start_sched) = []" "sc_queue start_sched = []"
    "providers (sc_db start_sched) = [sample_provider]" "job_attempts (sc_db start_sched) = []"
    by (simp_all add: start_sched_def empty_db_def)
  then obtain st where st: "submit_sample start_sched = Inr (sample_job, st)" "jobs (sc_db st) = [sample_job]"
      "sc_queue st = [0x10000]" "providers (sc_db st) = [sample_provider]" "job_attempts (sc_db st) = []"
    using submit_job_accepts [of sample_body "Some ''k1''" 1 start_sched 5 default_settings "\<lambda>_. Inr True" True 0] sample_escrow
    by (auto simp: sample_job_def find_idempotent_def sample_body_def opt_get_def)
  have step: "coord_step start_sched st" by (rule coord_step.submit [OF sample_settings sample_body_valid st(1)])
  show ?thesis using coord_step_keeps [OF step start_ok] st step by (intro that) (simp_all add: keeps_def)
qed

definition assigned_job :: Job where
  "assigned_job = sample_job\<lparr>j_status := js_assigned, j_assigned_at := Some 10, j_assigned_provider_id := Some 7,
     j_lease_expires_at := Some (10 + seconds (lease_seconds default_settings)), j_attempt_count := 1\<rparr>"

lemma sample_assigned:
  obtains st where "coord_step\<^sup>*\<^sup>* start_sched st" "coord_ok (sc_db st)" "get_job 0x10000 (sc_db st) = Some assigned_job"
    "providers (sc_db st) = [sample_provider]" "\<exists>a. provider_attempt sample_provider 0x10000 (sc_db st) = Some a"
    "finished_attempts 0x10000 (sc_db st) = []"
proof -
  obtain st where st: "jobs (sc_db st) = [sample_job]" "coord_step start_sched st" "coord_ok (sc_db st)" "sc_queue st = [0x10000]"
    "providers (sc_db st) = [sample_provider]" "job_attempts (sc_db st) = []"
    by (rule sample_submitted)
  let ?st = "assignment_iteration (\<lambda>_ _ _ _. [sample_provider]) 10 default_settings st"
  have d: "jobs (sc_db ?st) = [assigned_job]" "providers (sc_db ?st) = [sample_provider]"
    "\<exists>a. job_attempts (sc_db ?st) = [a] \<and> at_job_id a = 0x10000 \<and> at_provider_id a = Some 7 \<and> at_finished_at a = None"
    using st(1,4,5,6)
    by (simp_all add: assignment_iteration_def dequeue_job_def assign_job_def assign_providers_def get_job_def tget_def
        sample_job_def assigned_job_def new_job_def transition_def can_transition_def
        sample_body_def select_first_def put_job_def sample_provider_def Let_def)
  have step: "coord_step st ?st" by (rule coord_step.assign)
  show ?thesis
    using d coord_step_keeps [OF step st(3)] st(2) step
    by (intro that [of ?st]) (auto simp: keeps_def get_job_def tget_def assigned_job_def sample_job_def new_job_def
        provider_attempt_def latest_def sample_provider_def finished_attempts_def)
qed

definition running_job :: Job where
  "running_job = assigned_job\<lparr>j_status := js_running, j_started_at := Some 20\<rparr>"

lemma running_sel:
  "j_id running_job = 0x10000" "j_escrow_amount running_job = Some 5" "j_kind running_job = jk_standard"
  "j_status running_job = js_running" "j_redundancy running_job = 1" "escrow_fits running_job" "j_cost_final running_job = None"
  "j_attempt_count running_job = 1" "j_developer_id running_job = 1"
  by (auto simp: running_job_def assigned_job_def sample_job_def new_job_def sample_body_def escrow_fits_def on_grid_def
      intro!: exI [of _ "5 * 10 ^ 8"])

lemma sample_running:
  obtains d where "coord_ok d" "get_job 0x10000 d = Some running_job" "finished_attempts 0x10000 d = []"
proof -
  obtain st :: sched where st: "coord_ok (sc_db st)" "get_job 0x10000 (sc_db st) = Some assigned_job"
    "finished_attempts 0x10000 (sc_db st) = []"
    by (rule sample_assigned)
  have id: "j_id running_job = 0x10000" "j_cost_final running_job = None" "j_cost_final assigned_job = None" "j_id assigned_job = 0x10000"
    by (simp_all add: running_job_def assigned_job_def sample_job_def new_job_def)
  have "transition 20 assigned_job js_running = Inr running_job"
    by (simp add: transition_def can_transition_def assigned_job_def running_job_def sample_job_def new_job_def)
  then have "coord_ok (put_job running_job (sc_db st))"
    using st(1,2) by (intro put_job_coord_same [of "sc_db st" running_job assigned_job]) (auto simp: id intro: transition_evolves)
  then show ?thesis
    using st by (intro that [of "put_job running_job (sc_db st)"]) (auto simp: get_job_def tget_tput id finished_attempts_def)
qed

lemma quantize_usdc_samples: "quantize_usdc 3 = 3" "quantize_usdc 2 = 2" "quantize_usdc 10 = 10"
  using quantize_whole [of 6 3] quantize_whole [of 6 2] quantize_whole [of 6 10] by (simp_all add: quantize_usdc_def)

lemma sample_reserved:
  obtains d e where "developer_balance 1 d = 10" "reserve_balance 1 1 3 d = Inr (3, e)"
proof -
  note q = quantize_usdc_samples
  obtain a d where d: "credit_deposit 0 1 10 ''top-up'' empty_db = Inr (a, d)"
    using post_transaction_ex [of "[Dr la_protocol 10 None, Cr la_developer 10 (Some 1)]" 0 "''top-up''" None None empty_db] q
    by (auto simp: credit_deposit_def)
  then have b: "developer_balance 1 d = 10"
    using credit_deposit_Inr(1) [OF d] credit_deposit_Inr(3) [OF d, of la_developer "Some 1"] q
    by (simp add: developer_balance_def balance_as_net empty_db_def)
  moreover obtain e where "reserve_balance 1 1 3 d = Inr (3, e)"
    using post_transaction_ex [of "[Dr la_developer 3 (Some 1), Cr la_escrow 3 (Some 1)]" 1 "''inference_hold''" None None d] q b
    by (auto simp: reserve_balance_def)
  ultimately show ?thesis by (rule that)
qed

lemma lower_0xab: "to_lower ''0xab'' = ''0xab''"
  by code_simp

lemma sample_challenge:
  obtains c d where "issue_nonce sample_wallet 0 default_settings ''n1'' ''0xab'' empty_db = Inr (c, d)" "nonces_ok d"
    "an_address c = ''0xab''" "10 < an_expires_at c"
proof -
  have n: "normalize_address sample_wallet ''0xab'' = Some ''0xab''"
    by (simp add: normalize_address_def sample_wallet_def lower_0xab)
  obtain c d where i: "issue_nonce sample_wallet 0 default_settings ''n1'' ''0xab'' empty_db = Inr (c, d)"
    by (simp add: issue_nonce_def n Let_def empty_db_def)
  then have "d = empty_db\<lparr>auth_nonces := [c], next_id := Suc 0x10000\<rparr>" "an_id c = 0x10000" "an_address c = ''0xab''"
      "an_expires_at c = seconds 300"
    by (auto simp: issue_nonce_def n Let_def empty_db_def challenge_expiry_def default_settings_def)
  with i show ?thesis by (intro that [of c d]) (simp_all add: nonces_ok_def seconds_def)
qed

lemma sample_signed_in:
  obtains d session d' where "nonces_ok d"
    "verify_sign_in sample_wallet 10 default_settings ''tok'' ''0xab'' ''n1'' ''sig'' d = Inr (session, d')"
proof -
  obtain c d where c: "issue_nonce sample_wallet 0 default_settings ''n1'' ''0xab'' empty_db = Inr (c, d)" "nonces_ok d"
    "an_address c = ''0xab''" "10 < an_expires_at c" by (rule sample_challenge)
  have "recover_signer sample_wallet (an_message c) ''sig'' = Some (an_address c)"
    by (simp add: recover_signer_def sample_wallet_def lower_0xab c(3))
  moreover obtain h where "hash_api_key (generate_api_key ''tok'') (api_hmac_key default_settings) = Inr h"
    by (simp add: hash_api_key_def generate_api_key_def utf8_def MAX_API_KEY_BYTES_def Let_def)
  ultimately show ?thesis
    using sign_in_succeeds [OF c(1) _ _ c(4), of "''sig''" "''tok''" h] that [OF c(2)] by (auto simp: nonces_ok_def empty_db_def)
qed

section \<open>Runs from the empty database\<close>

lemma empty_submitted:
  obtains st where "coord_step\<^sup>*\<^sup>* \<lparr> sc_db = empty_db, sc_queue = [] \<rparr> st" "jobs (sc_db st) = [sample_job]"
proof -
  let ?r = "\<lparr> sc_db = empty_db, sc_queue = [] \<rparr>"
  have "next_id (sc_db ?r) = 0x10000" "jobs (sc_db ?r) = []" by (simp_all add: empty_db_def)
  then obtain st where "submit_sample ?r = Inr (sample_job, st)" "jobs (sc_db st) = [sample_job]"
    using submit_job_accepts [of sample_body "Some ''k1''" 1 ?r 5 default_settings "\<lambda>_. Inr True" True 0] sample_escrow
    by (auto simp: sample_job_def find_idempotent_def sample_body_def opt_get_def)
  then show ?thesis using that coord_step.submit [OF sample_settings sample_body_valid] by blast
qed

lemma empty_staked:
  obtains st where "coord_step\<^sup>*\<^sup>* \<lparr> sc_db = empty_db, sc_queue = [] \<rparr> st" "provider_stake 7 (sc_db st) = 100"
proof -
  let ?r = "\<lparr> sc_db = empty_db, sc_queue = [] \<rparr>"
  obtain d grp where d: "deposit_stake 0 7 100 empty_db = Inr (grp, d)"
    using post_transaction_ex [of "[Dr la_protocol 100 None, Cr la_stake 100 (Some 7)]" 0 "''stake_deposit''" None None empty_db] by (auto simp: deposit_stake_def)
  then have "coord_step ?r (?r\<lparr>sc_db := d\<rparr>)" by (intro coord_step.request handler.deposit_stake) auto
  moreover have "provider_stake 7 empty_db = 0" by (simp add: provider_stake_def balance_as_net empty_db_def)
  ultimately show ?thesis using that [of "?r\<lparr>sc_db := d\<rparr>"] deposit_stake_Inr(2) [OF d, of 7] by auto
qed

end
