(* ===== verification/Escrow_Contract.thy ===== *)
theory Escrow_Contract
  imports Prelude Systems "HOL-Library.Word"
begin

text \<open>
  The developer escrow, \<open>contracts/src/GridixEscrow.sol\<close>.  Amounts are 256-bit words under Solidity's
  checked arithmetic; a revert is an \<open>Inl\<close> and leaves the state as it was.  The OpenZeppelin bases and the
  token are not part of the repository: whether the caller holds a role and whether the contract is paused
  come with the call (\<open>msg\<close>), the token is the argument \<open>T\<close>.  \<open>nonReentrant\<close> makes each call atomic.
\<close>

type_synonym address = "160 word"
type_synonym u256 = "256 word"

section \<open>Calls, reverts and the token\<close>

datatype role = DEFAULT_ADMIN_ROLE | COORDINATOR_ROLE | ARBITER_ROLE

datatype revert =
    ZeroAmount | ZeroAddress | InsufficientBalance u256 u256 | InsufficientStake u256 u256 | CooldownActive u256
  | NothingUnstaking | DisputeAlreadyOpen | NoOpenDispute | LengthMismatch | InsufficientSettlementFunds u256 u256
  | NothingToWithdraw | EnforcedPause | Unauthorized | Panic | TransferFailed

record msg =
  msg_sender :: address
  msg_self :: address
  msg_timestamp :: u256
  msg_roles :: "role list"
  msg_paused :: bool

record 't erc20 =
  tk_balance :: "'t \<Rightarrow> address \<Rightarrow> int"
  tk_transfer :: "address \<Rightarrow> address \<Rightarrow> u256 \<Rightarrow> 't \<Rightarrow> 't option"
  tk_transfer_from :: "address \<Rightarrow> address \<Rightarrow> address \<Rightarrow> u256 \<Rightarrow> 't \<Rightarrow> 't option"

text \<open>What a transfer of a standard token without a transfer fee does.\<close>

definition moved :: "'t erc20 \<Rightarrow> address \<Rightarrow> address \<Rightarrow> u256 \<Rightarrow> 't \<Rightarrow> 't \<Rightarrow> bool" where
  "moved T a b x t t' \<longleftrightarrow> (\<forall>c. tk_balance T t' c
     = tk_balance T t c - (if c = a then uint x else 0) + (if c = b then uint x else 0))"

definition token_ok :: "'t erc20 \<Rightarrow> bool" where
  "token_ok T \<longleftrightarrow> (\<forall>a b x t t'. tk_transfer T a b x t = Some t' \<longrightarrow> moved T a b x t t')
     \<and> (\<forall>s a b x t t'. tk_transfer_from T s a b x t = Some t' \<longrightarrow> moved T a b x t t')"

definition checked_add :: "u256 \<Rightarrow> u256 \<Rightarrow> revert + u256" where
  "checked_add a b = (if uint a + uint b < 2 ^ 256 then Inr (a + b) else Inl Panic)"

definition only_role :: "role \<Rightarrow> msg \<Rightarrow> revert + unit" where
  "only_role r m = (if r \<in> set (msg_roles m) then Inr () else Inl Unauthorized)"

definition when_not_paused :: "msg \<Rightarrow> revert + unit" where
  "when_not_paused m = (if msg_paused m then Inl EnforcedPause else Inr ())"

definition safe_transfer :: "'t erc20 \<Rightarrow> address \<Rightarrow> address \<Rightarrow> u256 \<Rightarrow> 't \<Rightarrow> revert + 't" where
  "safe_transfer T a b x t = (case tk_transfer T a b x t of None \<Rightarrow> Inl TransferFailed | Some t \<Rightarrow> Inr t)"

definition safe_transfer_from :: "'t erc20 \<Rightarrow> address \<Rightarrow> address \<Rightarrow> address \<Rightarrow> u256 \<Rightarrow> 't \<Rightarrow> revert + 't" where
  "safe_transfer_from T s a b x t = (case tk_transfer_from T s a b x t of None \<Rightarrow> Inl TransferFailed | Some t \<Rightarrow> Inr t)"

section \<open>The escrow\<close>

datatype escrow_event =
  Deposited address u256 | Withdrawn address u256 | Debited address u256 address | TreasuryUpdated address

record 't escrow =
  es_treasury :: address
  es_balances :: "address \<Rightarrow> u256"
  es_token :: 't
  es_log :: "escrow_event list"

definition GridixEscrow :: "address \<Rightarrow> address \<Rightarrow> address \<Rightarrow> address \<Rightarrow> 't \<Rightarrow> revert + 't escrow" where
  "GridixEscrow token' admin' coordinator' treasury' tok =
     (if token' = 0 \<or> admin' = 0 \<or> coordinator' = 0 \<or> treasury' = 0 then Inl ZeroAddress
      else Inr \<lparr> es_treasury = treasury', es_balances = (\<lambda>_. 0), es_token = tok, es_log = [] \<rparr>)"

definition Escrow_balanceOf :: "address \<Rightarrow> 't escrow \<Rightarrow> u256" where
  "Escrow_balanceOf developer s = es_balances s developer"

definition Escrow_deposit :: "'t erc20 \<Rightarrow> msg \<Rightarrow> u256 \<Rightarrow> 't escrow \<Rightarrow> revert + 't escrow" where
  "Escrow_deposit T m amount s =
     bindE (when_not_paused m) (\<lambda>_.
     if amount = 0 then Inl ZeroAmount
     else
       bindE (checked_add (es_balances s (msg_sender m)) amount) (\<lambda>bal.
       bindE (safe_transfer_from T (msg_self m) (msg_sender m) (msg_self m) amount (es_token s)) (\<lambda>tok.
         Inr (s\<lparr>es_balances := (es_balances s)(msg_sender m := bal),
                es_log := es_log s @ [Deposited (msg_sender m) amount], es_token := tok\<rparr>))))"

definition Escrow_withdraw :: "'t erc20 \<Rightarrow> msg \<Rightarrow> u256 \<Rightarrow> 't escrow \<Rightarrow> revert + 't escrow" where
  "Escrow_withdraw T m amount s =
     bindE (when_not_paused m) (\<lambda>_.
     if amount = 0 then Inl ZeroAmount
     else
       (let bal = es_balances s (msg_sender m) in
        if amount > bal then Inl (InsufficientBalance amount bal)
        else
          bindE (safe_transfer T (msg_self m) (msg_sender m) amount (es_token s)) (\<lambda>tok.
            Inr (s\<lparr>es_balances := (es_balances s)(msg_sender m := bal - amount),
                   es_log := es_log s @ [Withdrawn (msg_sender m) amount], es_token := tok\<rparr>))))"

definition Escrow_debit :: "'t erc20 \<Rightarrow> msg \<Rightarrow> address \<Rightarrow> u256 \<Rightarrow> 't escrow \<Rightarrow> revert + 't escrow" where
  "Escrow_debit T m developer amount s =
     bindE (when_not_paused m) (\<lambda>_.
     bindE (only_role COORDINATOR_ROLE m) (\<lambda>_.
     if amount = 0 then Inl ZeroAmount
     else
       (let bal = es_balances s developer; to = es_treasury s in
        if amount > bal then Inl (InsufficientBalance amount bal)
        else
          bindE (safe_transfer T (msg_self m) to amount (es_token s)) (\<lambda>tok.
            Inr (s\<lparr>es_balances := (es_balances s)(developer := bal - amount),
                   es_log := es_log s @ [Debited developer amount to], es_token := tok\<rparr>)))))"

definition Escrow_setTreasury :: "msg \<Rightarrow> address \<Rightarrow> 't escrow \<Rightarrow> revert + 't escrow" where
  "Escrow_setTreasury m treasury' s =
     bindE (only_role DEFAULT_ADMIN_ROLE m) (\<lambda>_.
     if treasury' = 0 then Inl ZeroAddress
     else Inr (s\<lparr>es_treasury := treasury', es_log := es_log s @ [TreasuryUpdated treasury']\<rparr>))"

section \<open>Solvency\<close>

text \<open>What the contract owes its developers in total, and what it holds.\<close>

definition owed :: "'t escrow \<Rightarrow> int" where
  "owed s = (\<Sum>a \<in> UNIV. uint (es_balances s a))"

definition solvent :: "'t erc20 \<Rightarrow> address \<Rightarrow> 't escrow \<Rightarrow> bool" where
  "solvent T self s \<longleftrightarrow> owed s \<le> tk_balance T (es_token s) self"

lemma sum_upd:
  fixes f :: "'a::finite \<Rightarrow> 256 word"
  shows "(\<Sum>a \<in> UNIV. uint (if a = x then v else f a)) = (\<Sum>a \<in> UNIV. uint (f a)) - uint (f x) + uint v"
proof -
  have "(\<Sum>a \<in> UNIV. uint (if a = x then v else f a)) = uint v + (\<Sum>a \<in> UNIV - {x}. uint (if a = x then v else f a))"
    by (subst sum.remove [of _ x]) auto
  also have "(\<Sum>a \<in> UNIV - {x}. uint (if a = x then v else f a)) = (\<Sum>a \<in> UNIV - {x}. uint (f a))"
    by (rule sum.cong) auto
  also have "(\<Sum>a \<in> UNIV - {x}. uint (f a)) = (\<Sum>a \<in> UNIV. uint (f a)) - uint (f x)"
    by (subst sum.remove [of UNIV x]) auto
  finally show ?thesis by simp
qed

lemma checked_add_Inr: "checked_add a b = Inr c \<longleftrightarrow> uint a + uint b < 2 ^ 256 \<and> c = a + b"
  by (auto simp: checked_add_def)

lemma checked_add_uint: "checked_add a b = Inr c \<Longrightarrow> uint c = uint a + uint b"
  by (auto simp: checked_add_Inr uint_add_lem [symmetric])

lemma word_sub_uint: "b \<le> a \<Longrightarrow> uint (a - b) = uint a - uint (b :: u256)"
  by (simp add: uint_sub_lem [symmetric] word_le_def)

lemma safe_transfer_moved: "token_ok T \<Longrightarrow> safe_transfer T a b x t = Inr t' \<Longrightarrow> moved T a b x t t'"
  by (auto simp: safe_transfer_def token_ok_def split: option.splits)

lemma safe_transfer_from_moved: "token_ok T \<Longrightarrow> safe_transfer_from T s a b x t = Inr t' \<Longrightarrow> moved T a b x t t'"
  by (auto simp: safe_transfer_from_def token_ok_def split: option.splits)

lemma GridixEscrow_Inr: "GridixEscrow tk adm coord tr tok = Inr s \<Longrightarrow> es_balances s = (\<lambda>_. 0) \<and> es_token s = tok"
  by (auto simp: GridixEscrow_def split: if_splits)

lemma Escrow_deposit_Inr:
  assumes "Escrow_deposit T m x s = Inr s'" "token_ok T"
  shows "uint (Escrow_balanceOf (msg_sender m) s') = uint (Escrow_balanceOf (msg_sender m) s) + uint x"
    "a \<noteq> msg_sender m \<Longrightarrow> Escrow_balanceOf a s' = Escrow_balanceOf a s" "owed s' = owed s + uint x"
    "moved T (msg_sender m) (msg_self m) x (es_token s) (es_token s')" "0 < x" "\<not> msg_paused m"
  using assms
  by (auto simp: Escrow_deposit_def bindE_Inr_iff Escrow_balanceOf_def owed_def sum_upd when_not_paused_def word_neq_0_conv
      dest: checked_add_uint safe_transfer_from_moved split: if_splits)

lemma Escrow_withdraw_Inr:
  assumes "Escrow_withdraw T m x s = Inr s'" "token_ok T"
  shows "uint (Escrow_balanceOf (msg_sender m) s') = uint (Escrow_balanceOf (msg_sender m) s) - uint x" "x \<le> Escrow_balanceOf (msg_sender m) s"
    "a \<noteq> msg_sender m \<Longrightarrow> Escrow_balanceOf a s' = Escrow_balanceOf a s" "owed s' = owed s - uint x"
    "moved T (msg_self m) (msg_sender m) x (es_token s) (es_token s')" "0 < x" "\<not> msg_paused m"
  using assms
  by (auto simp: Escrow_withdraw_def bindE_Inr_iff Escrow_balanceOf_def owed_def sum_upd when_not_paused_def word_neq_0_conv Let_def
      word_sub_uint not_less dest: safe_transfer_moved split: if_splits)

lemma Escrow_debit_Inr:
  assumes "Escrow_debit T m dev x s = Inr s'" "token_ok T"
  shows "uint (Escrow_balanceOf dev s') = uint (Escrow_balanceOf dev s) - uint x" "x \<le> Escrow_balanceOf dev s"
    "a \<noteq> dev \<Longrightarrow> Escrow_balanceOf a s' = Escrow_balanceOf a s" "owed s' = owed s - uint x"
    "moved T (msg_self m) (es_treasury s) x (es_token s) (es_token s')" "0 < x" "\<not> msg_paused m"
    "COORDINATOR_ROLE \<in> set (msg_roles m)"
  using assms
  by (auto simp: Escrow_debit_def bindE_Inr_iff Escrow_balanceOf_def owed_def sum_upd when_not_paused_def only_role_def word_neq_0_conv Let_def
      word_sub_uint not_less dest: safe_transfer_moved split: if_splits)

lemma Escrow_setTreasury_Inr:
  assumes "Escrow_setTreasury m a s = Inr s'"
  shows "es_balances s' = es_balances s" "es_token s' = es_token s" "es_treasury s' = a" "a \<noteq> 0"
    "DEFAULT_ADMIN_ROLE \<in> set (msg_roles m)"
  using assms by (auto simp: Escrow_setTreasury_def bindE_Inr_iff only_role_def split: if_splits)

text \<open>Anyone may call anything at any time, the contract itself apart; tokens of others move freely and may
  be sent to the contract unasked.\<close>

inductive escrow_step :: "'t erc20 \<times> address \<times> 't escrow \<Rightarrow> 't erc20 \<times> address \<times> 't escrow \<Rightarrow> bool" where
  deposit: "token_ok T \<Longrightarrow> msg_self m = self \<Longrightarrow> msg_sender m \<noteq> self \<Longrightarrow> Escrow_deposit T m x s = Inr s' \<Longrightarrow> escrow_step (T, self, s) (T, self, s')"
| withdraw: "token_ok T \<Longrightarrow> msg_self m = self \<Longrightarrow> msg_sender m \<noteq> self \<Longrightarrow> Escrow_withdraw T m x s = Inr s' \<Longrightarrow> escrow_step (T, self, s) (T, self, s')"
| debit: "token_ok T \<Longrightarrow> msg_self m = self \<Longrightarrow> msg_sender m \<noteq> self \<Longrightarrow> Escrow_debit T m dev x s = Inr s' \<Longrightarrow> escrow_step (T, self, s) (T, self, s')"
| set_treasury: "Escrow_setTreasury m a s = Inr s' \<Longrightarrow> escrow_step (T, self, s) (T, self, s')"
| outside: "tk_balance T (es_token s) self \<le> tk_balance T tok self \<Longrightarrow> escrow_step (T, self, s) (T, self, s\<lparr>es_token := tok\<rparr>)"

definition escrow_initial :: "'t erc20 \<times> address \<times> 't escrow \<Rightarrow> bool" where
  "escrow_initial = (\<lambda>(T, self, s). 0 \<le> tk_balance T (es_token s) self
     \<and> (\<exists>tk adm coord tr. GridixEscrow tk adm coord tr (es_token s) = Inr s))"

interpretation escrow: system escrow_initial escrow_step "\<lambda>(T, self, s). solvent T self s"
proof
  fix x :: "'t erc20 \<times> address \<times> 't escrow"
  assume i: "escrow_initial x"
  obtain T self s where x: "x = (T, self, s)" by (cases x)
  then have "es_balances s = (\<lambda>_. 0)" using i by (auto simp: escrow_initial_def dest: GridixEscrow_Inr)
  then show "case x of (T, self, s) \<Rightarrow> solvent T self s"
    using i by (simp add: x escrow_initial_def solvent_def owed_def)
next
  fix x y :: "'t erc20 \<times> address \<times> 't escrow"
  assume "case x of (T, self, s) \<Rightarrow> solvent T self s" "escrow_step x y"
  from this(2,1) show "case y of (T, self, s) \<Rightarrow> solvent T self s"
  proof (induction rule: escrow_step.induct)
    case (deposit T m self x s s')
    then show ?case using Escrow_deposit_Inr(3,4) [OF deposit(4,1)] by (auto simp: solvent_def moved_def)
  next
    case (withdraw T m self x s s')
    then show ?case using Escrow_withdraw_Inr(4,5) [OF withdraw(4,1)] by (auto simp: solvent_def moved_def)
  next
    case (debit T m self dev x s s')
    then show ?case using Escrow_debit_Inr(4,5) [OF debit(4,1)] by (auto simp: solvent_def moved_def intro: add_increasing2)
  next
    case (set_treasury m a s s' T self)
    then show ?case using Escrow_setTreasury_Inr(1,2) [OF set_treasury(1)] by (simp add: solvent_def owed_def)
  next
    case (outside T s self tok)
    then show ?case by (simp add: solvent_def owed_def)
  qed
qed

end
