(* ===== verification/Staking_Contract.thy ===== *)
theory Staking_Contract
  imports Escrow_Contract
begin

text \<open>
  Provider collateral, slashing and batch payouts, \<open>contracts/src/GridixStaking.sol\<close>, in the conventions of
  the escrow's theory.
\<close>

datatype staking_event =
    Staked address u256 | UnstakeRequested address u256 u256 | Unstaked address u256 | Slashed address u256 u256
  | DisputeResolved address bool u256 | Settled address u256 | EarningsWithdrawn address u256 | SettlementFunded address u256
  | MinStakeUpdated u256 | CooldownUpdated u256 | StakingTreasuryUpdated address

record Unstaking =
  un_amount :: u256
  un_unlockAt :: u256

record HeldDispute =
  hd_amount :: u256
  hd_evidenceHash :: u256
  hd_open :: bool

record 't staking =
  sk_minStake :: u256
  sk_cooldownPeriod :: u256
  sk_treasury :: address
  sk_settlementPool :: u256
  sk_stake :: "address \<Rightarrow> u256"
  sk_unstaking :: "address \<Rightarrow> Unstaking"
  sk_dispute :: "address \<Rightarrow> HeldDispute"
  sk_earnings :: "address \<Rightarrow> u256"
  sk_token :: 't
  sk_log :: "staking_event list"

definition no_unstaking :: Unstaking where
  "no_unstaking = \<lparr> un_amount = 0, un_unlockAt = 0 \<rparr>"

definition GridixStaking ::
    "address \<Rightarrow> address \<Rightarrow> address \<Rightarrow> address \<Rightarrow> address \<Rightarrow> u256 \<Rightarrow> u256 \<Rightarrow> 't \<Rightarrow> revert + 't staking" where
  "GridixStaking token' admin' coordinator' arbiter' treasury' minStake' cooldownPeriod' tok =
     (if token' = 0 \<or> admin' = 0 \<or> coordinator' = 0 \<or> arbiter' = 0 \<or> treasury' = 0 then Inl ZeroAddress
      else Inr \<lparr> sk_minStake = minStake', sk_cooldownPeriod = cooldownPeriod', sk_treasury = treasury', sk_settlementPool = 0,
                 sk_stake = (\<lambda>_. 0), sk_unstaking = (\<lambda>_. no_unstaking),
                 sk_dispute = (\<lambda>_. \<lparr> hd_amount = 0, hd_evidenceHash = 0, hd_open = False \<rparr>),
                 sk_earnings = (\<lambda>_. 0), sk_token = tok, sk_log = [] \<rparr>)"

section \<open>Views\<close>

definition stakeOf :: "address \<Rightarrow> 't staking \<Rightarrow> u256" where
  "stakeOf provider s = sk_stake s provider"

definition unstakingOf :: "address \<Rightarrow> 't staking \<Rightarrow> u256 \<times> u256" where
  "unstakingOf provider s = (un_amount (sk_unstaking s provider), un_unlockAt (sk_unstaking s provider))"

definition disputeOf :: "address \<Rightarrow> 't staking \<Rightarrow> u256 \<times> u256 \<times> bool" where
  "disputeOf provider s =
     (hd_amount (sk_dispute s provider), hd_evidenceHash (sk_dispute s provider), hd_open (sk_dispute s provider))"

definition earningsOf :: "address \<Rightarrow> 't staking \<Rightarrow> u256" where
  "earningsOf provider s = sk_earnings s provider"

definition hasMinimumStake :: "address \<Rightarrow> 't staking \<Rightarrow> bool" where
  "hasMinimumStake provider s \<longleftrightarrow> sk_stake s provider \<ge> sk_minStake s"

section \<open>Staking\<close>

definition Staking_stake :: "'t erc20 \<Rightarrow> msg \<Rightarrow> u256 \<Rightarrow> 't staking \<Rightarrow> revert + 't staking" where
  "Staking_stake T m amount s =
     bindE (when_not_paused m) (\<lambda>_.
     if amount = 0 then Inl ZeroAmount
     else
       bindE (checked_add (sk_stake s (msg_sender m)) amount) (\<lambda>stake.
       bindE (safe_transfer_from T (msg_self m) (msg_sender m) (msg_self m) amount (sk_token s)) (\<lambda>tok.
         Inr (s\<lparr>sk_stake := (sk_stake s)(msg_sender m := stake), sk_log := sk_log s @ [Staked (msg_sender m) amount],
                sk_token := tok\<rparr>))))"

definition unstake :: "msg \<Rightarrow> u256 \<Rightarrow> 't staking \<Rightarrow> revert + 't staking" where
  "unstake m amount s =
     bindE (when_not_paused m) (\<lambda>_.
     if amount = 0 then Inl ZeroAmount
     else
       (let active = sk_stake s (msg_sender m); u = sk_unstaking s (msg_sender m) in
        if amount > active then Inl (InsufficientStake amount active)
        else
          bindE (checked_add (un_amount u) amount) (\<lambda>cooling.
          bindE (checked_add (msg_timestamp m) (sk_cooldownPeriod s)) (\<lambda>unlockAt.
            Inr (s\<lparr>sk_stake := (sk_stake s)(msg_sender m := active - amount),
                   sk_unstaking := (sk_unstaking s)(msg_sender m := \<lparr> un_amount = cooling, un_unlockAt = unlockAt \<rparr>),
                   sk_log := sk_log s @ [UnstakeRequested (msg_sender m) amount unlockAt]\<rparr>)))))"

definition completeUnstake :: "'t erc20 \<Rightarrow> msg \<Rightarrow> 't staking \<Rightarrow> revert + 't staking" where
  "completeUnstake T m s =
     bindE (when_not_paused m) (\<lambda>_.
     let u = sk_unstaking s (msg_sender m); amount = un_amount u in
     if amount = 0 then Inl NothingUnstaking
     else if msg_timestamp m < un_unlockAt u then Inl (CooldownActive (un_unlockAt u))
     else
       bindE (safe_transfer T (msg_self m) (msg_sender m) amount (sk_token s)) (\<lambda>tok.
         Inr (s\<lparr>sk_unstaking := (sk_unstaking s)(msg_sender m := no_unstaking),
                sk_log := sk_log s @ [Unstaked (msg_sender m) amount], sk_token := tok\<rparr>)))"

section \<open>Slashing and the dispute hold\<close>

definition slash :: "msg \<Rightarrow> address \<Rightarrow> u256 \<Rightarrow> u256 \<Rightarrow> 't staking \<Rightarrow> revert + 't staking" where
  "slash m provider amount evidenceHash s =
     bindE (only_role COORDINATOR_ROLE m) (\<lambda>_.
     if amount = 0 then Inl ZeroAmount
     else if hd_open (sk_dispute s provider) then Inl DisputeAlreadyOpen
     else
       (let active = sk_stake s provider; cooling = un_amount (sk_unstaking s provider) in
        bindE (checked_add active cooling) (\<lambda>slashable.
        if amount > slashable then Inl (InsufficientStake amount slashable)
        else
          (let s = (if amount \<le> active then s\<lparr>sk_stake := (sk_stake s)(provider := active - amount)\<rparr>
                    else s\<lparr>sk_stake := (sk_stake s)(provider := 0),
                           sk_unstaking := (sk_unstaking s)(provider :=
                             (sk_unstaking s provider)\<lparr>un_amount := cooling - (amount - active)\<rparr>)\<rparr>)
           in Inr (s\<lparr>sk_dispute := (sk_dispute s)(provider :=
                        \<lparr> hd_amount = amount, hd_evidenceHash = evidenceHash, hd_open = True \<rparr>),
                     sk_log := sk_log s @ [Slashed provider amount evidenceHash]\<rparr>)))))"

definition resolveDispute :: "'t erc20 \<Rightarrow> msg \<Rightarrow> address \<Rightarrow> bool \<Rightarrow> 't staking \<Rightarrow> revert + 't staking" where
  "resolveDispute T m provider upheld s =
     bindE (only_role ARBITER_ROLE m) (\<lambda>_.
     let d = sk_dispute s provider in
     if \<not> hd_open d then Inl NoOpenDispute
     else
       (let amount = hd_amount d;
            s = s\<lparr>sk_dispute := (sk_dispute s)(provider := d\<lparr>hd_open := False\<rparr>),
                  sk_log := sk_log s @ [DisputeResolved provider upheld amount]\<rparr>
        in if upheld
           then bindE (safe_transfer T (msg_self m) (sk_treasury s) amount (sk_token s)) (\<lambda>tok. Inr (s\<lparr>sk_token := tok\<rparr>))
           else bindE (checked_add (sk_stake s provider) amount) (\<lambda>stake.
                  Inr (s\<lparr>sk_stake := (sk_stake s)(provider := stake)\<rparr>))))"

section \<open>Batch settlement\<close>

definition depositSettlement :: "'t erc20 \<Rightarrow> msg \<Rightarrow> u256 \<Rightarrow> 't staking \<Rightarrow> revert + 't staking" where
  "depositSettlement T m amount s =
     bindE (when_not_paused m) (\<lambda>_.
     if amount = 0 then Inl ZeroAmount
     else
       bindE (checked_add (sk_settlementPool s) amount) (\<lambda>pool.
       bindE (safe_transfer_from T (msg_self m) (msg_sender m) (msg_self m) amount (sk_token s)) (\<lambda>tok.
         Inr (s\<lparr>sk_settlementPool := pool, sk_log := sk_log s @ [SettlementFunded (msg_sender m) amount], sk_token := tok\<rparr>))))"

definition credit_earnings :: "address \<times> u256 \<Rightarrow> 't staking \<Rightarrow> revert + 't staking" where
  "credit_earnings = (\<lambda>(provider, amount) s.
     bindE (checked_add (sk_earnings s provider) amount) (\<lambda>earned.
       Inr (s\<lparr>sk_earnings := (sk_earnings s)(provider := earned), sk_log := sk_log s @ [Settled provider amount]\<rparr>)))"

definition settleBatch :: "msg \<Rightarrow> address list \<Rightarrow> u256 list \<Rightarrow> 't staking \<Rightarrow> revert + 't staking" where
  "settleBatch m providers amounts s =
     bindE (when_not_paused m) (\<lambda>_.
     bindE (only_role COORDINATOR_ROLE m) (\<lambda>_.
     if length providers \<noteq> length amounts then Inl LengthMismatch
     else
       bindE (foldE (\<lambda>amount total. checked_add total amount) amounts 0) (\<lambda>total.
       let pool = sk_settlementPool s in
       if total > pool then Inl (InsufficientSettlementFunds total pool)
       else foldE credit_earnings (zip providers amounts) (s\<lparr>sk_settlementPool := pool - total\<rparr>))))"

definition Staking_withdraw :: "'t erc20 \<Rightarrow> msg \<Rightarrow> 't staking \<Rightarrow> revert + 't staking" where
  "Staking_withdraw T m s =
     bindE (when_not_paused m) (\<lambda>_.
     let amount = sk_earnings s (msg_sender m) in
     if amount = 0 then Inl NothingToWithdraw
     else
       bindE (safe_transfer T (msg_self m) (msg_sender m) amount (sk_token s)) (\<lambda>tok.
         Inr (s\<lparr>sk_earnings := (sk_earnings s)(msg_sender m := 0),
                sk_log := sk_log s @ [EarningsWithdrawn (msg_sender m) amount], sk_token := tok\<rparr>)))"

section \<open>Administration\<close>

definition setMinStake :: "msg \<Rightarrow> u256 \<Rightarrow> 't staking \<Rightarrow> revert + 't staking" where
  "setMinStake m minStake' s =
     bindE (only_role DEFAULT_ADMIN_ROLE m) (\<lambda>_.
       Inr (s\<lparr>sk_minStake := minStake', sk_log := sk_log s @ [MinStakeUpdated minStake']\<rparr>))"

definition setCooldownPeriod :: "msg \<Rightarrow> u256 \<Rightarrow> 't staking \<Rightarrow> revert + 't staking" where
  "setCooldownPeriod m cooldownPeriod' s =
     bindE (only_role DEFAULT_ADMIN_ROLE m) (\<lambda>_.
       Inr (s\<lparr>sk_cooldownPeriod := cooldownPeriod', sk_log := sk_log s @ [CooldownUpdated cooldownPeriod']\<rparr>))"

definition Staking_setTreasury :: "msg \<Rightarrow> address \<Rightarrow> 't staking \<Rightarrow> revert + 't staking" where
  "Staking_setTreasury m treasury' s =
     bindE (only_role DEFAULT_ADMIN_ROLE m) (\<lambda>_.
     if treasury' = 0 then Inl ZeroAddress
     else Inr (s\<lparr>sk_treasury := treasury', sk_log := sk_log s @ [StakingTreasuryUpdated treasury']\<rparr>))"

section \<open>Solvency\<close>

text \<open>What the contract owes over its five buckets: active stake, cooling stake, stake held in open disputes,
  earnings and the settlement pool.\<close>

definition held_for :: "HeldDispute \<Rightarrow> u256" where
  "held_for d = (if hd_open d then hd_amount d else 0)"

definition liabilities :: "'t staking \<Rightarrow> int" where
  "liabilities s = (\<Sum>a \<in> UNIV. uint (sk_stake s a)) + (\<Sum>a \<in> UNIV. uint (un_amount (sk_unstaking s a)))
     + (\<Sum>a \<in> UNIV. uint (held_for (sk_dispute s a))) + (\<Sum>a \<in> UNIV. uint (sk_earnings s a)) + uint (sk_settlementPool s)"

definition staking_solvent :: "'t erc20 \<Rightarrow> address \<Rightarrow> 't staking \<Rightarrow> bool" where
  "staking_solvent T self s \<longleftrightarrow> liabilities s \<le> tk_balance T (sk_token s) self"

lemma sum_upd_field:
  fixes f :: "'b \<Rightarrow> 256 word" and g :: "'a::finite \<Rightarrow> 'b"
  shows "(\<Sum>a \<in> UNIV. uint (f (if a = x then v else g a))) = (\<Sum>a \<in> UNIV. uint (f (g a))) - uint (f (g x)) + uint (f v)"
proof -
  have "(\<Sum>a \<in> UNIV. uint (f (if a = x then v else g a))) = (\<Sum>a \<in> UNIV. uint (if a = x then f v else f (g a)))"
    by (rule sum.cong) auto
  then show ?thesis by (simp add: sum_upd)
qed

lemma held_for_simps [simp]:
  "held_for \<lparr> hd_amount = a, hd_evidenceHash = h, hd_open = True \<rparr> = a"
  "held_for \<lparr> hd_amount = a, hd_evidenceHash = h, hd_open = False \<rparr> = 0"
  "held_for (d\<lparr>hd_open := False\<rparr>) = 0" "hd_open d \<Longrightarrow> held_for d = hd_amount d" "\<not> hd_open d \<Longrightarrow> held_for d = 0"
  by (simp_all add: held_for_def)

lemmas bucket_simps = liabilities_def sum_upd sum_upd_field [of un_amount] sum_upd_field [of held_for] no_unstaking_def

lemma Staking_stake_Inr:
  assumes "Staking_stake T m x s = Inr s'" "token_ok T"
  shows "liabilities s' = liabilities s + uint x" "moved T (msg_sender m) (msg_self m) x (sk_token s) (sk_token s')"
    "uint (stakeOf (msg_sender m) s') = uint (stakeOf (msg_sender m) s) + uint x"
  using assms
  by (auto simp: Staking_stake_def bindE_Inr_iff bucket_simps stakeOf_def
      dest: checked_add_uint safe_transfer_from_moved split: if_splits)

lemma unstake_Inr:
  assumes "unstake m x s = Inr s'"
  shows "liabilities s' = liabilities s" "sk_token s' = sk_token s" "x \<le> stakeOf (msg_sender m) s"
    "uint (un_unlockAt (sk_unstaking s' (msg_sender m))) = uint (msg_timestamp m) + uint (sk_cooldownPeriod s)"
    "uint (un_amount (sk_unstaking s' (msg_sender m))) = uint (un_amount (sk_unstaking s (msg_sender m))) + uint x"
    "uint (stakeOf (msg_sender m) s') = uint (stakeOf (msg_sender m) s) - uint x"
  using assms
  by (auto simp: unstake_def bindE_Inr_iff bucket_simps stakeOf_def Let_def word_sub_uint not_less
      dest: checked_add_uint split: if_splits)

lemma completeUnstake_Inr:
  assumes "completeUnstake T m s = Inr s'" "token_ok T"
  shows "liabilities s' = liabilities s - uint (un_amount (sk_unstaking s (msg_sender m)))"
    "moved T (msg_self m) (msg_sender m) (un_amount (sk_unstaking s (msg_sender m))) (sk_token s) (sk_token s')"
    "un_unlockAt (sk_unstaking s (msg_sender m)) \<le> msg_timestamp m" "un_amount (sk_unstaking s' (msg_sender m)) = 0"
  using assms
  by (auto simp: completeUnstake_def bindE_Inr_iff bucket_simps Let_def not_less dest: safe_transfer_moved split: if_splits)

lemma slash_Inr:
  assumes "slash m p x h s = Inr s'"
  shows "liabilities s' = liabilities s" "sk_token s' = sk_token s" "\<not> hd_open (sk_dispute s p)"
    "uint (stakeOf p s') + uint (un_amount (sk_unstaking s' p)) = uint (stakeOf p s) + uint (un_amount (sk_unstaking s p)) - uint x"
    "sk_dispute s' p = \<lparr> hd_amount = x, hd_evidenceHash = h, hd_open = True \<rparr>" "COORDINATOR_ROLE \<in> set (msg_roles m)"
    "a \<noteq> p \<Longrightarrow> stakeOf a s' = stakeOf a s \<and> sk_unstaking s' a = sk_unstaking s a" "sk_earnings s' = sk_earnings s"
proof -
  from assms have r: "COORDINATOR_ROLE \<in> set (msg_roles m)" "\<not> hd_open (sk_dispute s p)"
    by (auto simp: slash_def bindE_Inr_iff only_role_def split: if_splits)
  obtain c where c: "checked_add (sk_stake s p) (un_amount (sk_unstaking s p)) = Inr c" "x \<le> c"
    using assms by (auto simp: slash_def bindE_Inr_iff Let_def not_less split: if_splits)
  have le: "uint x \<le> uint (sk_stake s p) + uint (un_amount (sk_unstaking s p))"
    using c checked_add_uint [OF c(1)] by (simp add: word_le_def)
  have "uint (un_amount (sk_unstaking s p) - (x - sk_stake s p))
      = uint (un_amount (sk_unstaking s p)) - (uint x - uint (sk_stake s p))" if "\<not> x \<le> sk_stake s p"
  proof -
    have "uint (x - sk_stake s p) = uint x - uint (sk_stake s p)" using that by (intro word_sub_uint) simp
    then show ?thesis using le by (subst word_sub_uint) (simp_all add: word_le_def)
  qed
  then show "liabilities s' = liabilities s"
    "uint (stakeOf p s') + uint (un_amount (sk_unstaking s' p)) = uint (stakeOf p s) + uint (un_amount (sk_unstaking s p)) - uint x"
    using assms r by (auto simp: slash_def bindE_Inr_iff bucket_simps stakeOf_def Let_def word_sub_uint split: if_splits)
  show "sk_token s' = sk_token s" "\<not> hd_open (sk_dispute s p)" "COORDINATOR_ROLE \<in> set (msg_roles m)"
    "sk_dispute s' p = \<lparr> hd_amount = x, hd_evidenceHash = h, hd_open = True \<rparr>" "sk_earnings s' = sk_earnings s"
    "a \<noteq> p \<Longrightarrow> stakeOf a s' = stakeOf a s \<and> sk_unstaking s' a = sk_unstaking s a"
    using assms r by (auto simp: slash_def bindE_Inr_iff stakeOf_def Let_def split: if_splits)
qed

lemma resolveDispute_Inr:
  assumes "resolveDispute T m p up s = Inr s'" "token_ok T"
  shows "hd_open (sk_dispute s p)" "\<not> hd_open (sk_dispute s' p)" "ARBITER_ROLE \<in> set (msg_roles m)"
    "liabilities s' = liabilities s - (if up then uint (hd_amount (sk_dispute s p)) else 0)"
    "if up then moved T (msg_self m) (sk_treasury s) (hd_amount (sk_dispute s p)) (sk_token s) (sk_token s') else sk_token s' = sk_token s"
    "uint (stakeOf p s') = uint (stakeOf p s) + (if up then 0 else uint (hd_amount (sk_dispute s p)))"
    "sk_unstaking s' = sk_unstaking s"
  using assms
  by (auto simp: resolveDispute_def bindE_Inr_iff bucket_simps stakeOf_def Let_def only_role_def
      dest: checked_add_uint safe_transfer_moved split: if_splits)

lemma depositSettlement_Inr:
  assumes "depositSettlement T m x s = Inr s'" "token_ok T"
  shows "liabilities s' = liabilities s + uint x" "moved T (msg_sender m) (msg_self m) x (sk_token s) (sk_token s')"
    "uint (sk_settlementPool s') = uint (sk_settlementPool s) + uint x" "sk_earnings s' = sk_earnings s"
  using assms
  by (auto simp: depositSettlement_def bindE_Inr_iff bucket_simps dest: checked_add_uint safe_transfer_from_moved split: if_splits)

lemma checked_total:
  "foldE (\<lambda>amount total. checked_add total amount) xs t = Inr t' \<Longrightarrow> uint t' = uint t + sum_list (map uint xs)"
  by (induction xs arbitrary: t) (auto simp: bindE_Inr_iff dest: checked_add_uint)

lemma credit_loop:
  assumes "foldE credit_earnings xs s = Inr s'"
  shows "liabilities s' = liabilities s + sum_list (map (uint \<circ> snd) xs) \<and> sk_token s' = sk_token s
     \<and> sk_settlementPool s' = sk_settlementPool s
     \<and> (\<forall>p. uint (earningsOf p s') = uint (earningsOf p s) + sum_list (map (uint \<circ> snd) (filter (\<lambda>x. fst x = p) xs)))
     \<and> sk_stake s' = sk_stake s \<and> sk_unstaking s' = sk_unstaking s \<and> sk_dispute s' = sk_dispute s
     \<and> sk_treasury s' = sk_treasury s"
  using assms
proof (induction xs arbitrary: s)
  case (Cons x xs)
  obtain p a where x: "x = (p, a)" by force
  from Cons.prems obtain e where e: "checked_add (sk_earnings s p) a = Inr e"
    "foldE credit_earnings xs (s\<lparr>sk_earnings := (sk_earnings s)(p := e), sk_log := sk_log s @ [Settled p a]\<rparr>) = Inr s'"
    by (auto simp: x credit_earnings_def bindE_Inr_iff)
  from Cons.IH [OF e(2)] checked_add_uint [OF e(1)] show ?case by (auto simp: x bucket_simps earningsOf_def)
qed simp

lemma settleBatch_Inr:
  assumes "settleBatch m ps xs s = Inr s'"
  shows "liabilities s' = liabilities s" "sk_token s' = sk_token s" "length ps = length xs"
    "uint (sk_settlementPool s') = uint (sk_settlementPool s) - sum_list (map uint xs)"
    "uint (earningsOf p s') = uint (earningsOf p s) + sum_list (map (uint \<circ> snd) (filter (\<lambda>x. fst x = p) (zip ps xs)))"
    "sum_list (map uint xs) \<le> uint (sk_settlementPool s)" "COORDINATOR_ROLE \<in> set (msg_roles m)"
proof -
  obtain t where len: "length ps = length xs" and r: "COORDINATOR_ROLE \<in> set (msg_roles m)"
    and t: "foldE (\<lambda>amount total. checked_add total amount) xs 0 = Inr t" "t \<le> sk_settlementPool s"
    and loop: "foldE credit_earnings (zip ps xs) (s\<lparr>sk_settlementPool := sk_settlementPool s - t\<rparr>) = Inr s'"
    using assms by (auto simp: settleBatch_def bindE_Inr_iff only_role_def Let_def not_less split: if_splits)
  have total: "uint t = sum_list (map uint xs)" using checked_total [OF t(1)] by simp
  have zip: "sum_list (map (uint \<circ> snd) (zip ps xs)) = sum_list (map uint xs)"
    using len by (simp flip: map_map)
  note c = credit_loop [OF loop]
  show "liabilities s' = liabilities s" "sk_token s' = sk_token s"
    "uint (sk_settlementPool s') = uint (sk_settlementPool s) - sum_list (map uint xs)"
    "uint (earningsOf p s') = uint (earningsOf p s) + sum_list (map (uint \<circ> snd) (filter (\<lambda>x. fst x = p) (zip ps xs)))"
    using c t(2) total zip by (auto simp: liabilities_def word_sub_uint earningsOf_def)
  show "length ps = length xs" "COORDINATOR_ROLE \<in> set (msg_roles m)" by fact+
  show "sum_list (map uint xs) \<le> uint (sk_settlementPool s)" using t(2) total by (simp add: word_le_def)
qed

lemma Staking_withdraw_Inr:
  assumes "Staking_withdraw T m s = Inr s'" "token_ok T"
  shows "liabilities s' = liabilities s - uint (earningsOf (msg_sender m) s)"
    "moved T (msg_self m) (msg_sender m) (earningsOf (msg_sender m) s) (sk_token s) (sk_token s')"
    "earningsOf (msg_sender m) s' = 0"
  using assms
  by (auto simp: Staking_withdraw_def bindE_Inr_iff bucket_simps Let_def earningsOf_def dest: safe_transfer_moved split: if_splits)

lemma admin_Inr:
  "setMinStake m x s = Inr s' \<Longrightarrow> liabilities s' = liabilities s \<and> sk_token s' = sk_token s"
  "setCooldownPeriod m x s = Inr s' \<Longrightarrow> liabilities s' = liabilities s \<and> sk_token s' = sk_token s"
  "Staking_setTreasury m a s = Inr s' \<Longrightarrow> liabilities s' = liabilities s \<and> sk_token s' = sk_token s"
  by (auto simp: setMinStake_def setCooldownPeriod_def Staking_setTreasury_def bindE_Inr_iff liabilities_def split: if_splits)

section \<open>Runs\<close>

inductive staking_step :: "'t erc20 \<times> address \<times> 't staking \<Rightarrow> 't erc20 \<times> address \<times> 't staking \<Rightarrow> bool" where
  stake: "token_ok T \<Longrightarrow> msg_self m = self \<Longrightarrow> msg_sender m \<noteq> self \<Longrightarrow> Staking_stake T m x s = Inr s' \<Longrightarrow> staking_step (T, self, s) (T, self, s')"
| unstake: "unstake m x s = Inr s' \<Longrightarrow> staking_step (T, self, s) (T, self, s')"
| complete_unstake: "token_ok T \<Longrightarrow> msg_self m = self \<Longrightarrow> msg_sender m \<noteq> self \<Longrightarrow> completeUnstake T m s = Inr s' \<Longrightarrow> staking_step (T, self, s) (T, self, s')"
| slash: "slash m p x h s = Inr s' \<Longrightarrow> staking_step (T, self, s) (T, self, s')"
| resolve: "token_ok T \<Longrightarrow> msg_self m = self \<Longrightarrow> resolveDispute T m p up s = Inr s' \<Longrightarrow> staking_step (T, self, s) (T, self, s')"
| fund: "token_ok T \<Longrightarrow> msg_self m = self \<Longrightarrow> msg_sender m \<noteq> self \<Longrightarrow> depositSettlement T m x s = Inr s' \<Longrightarrow> staking_step (T, self, s) (T, self, s')"
| settle: "settleBatch m ps xs s = Inr s' \<Longrightarrow> staking_step (T, self, s) (T, self, s')"
| withdraw: "token_ok T \<Longrightarrow> msg_self m = self \<Longrightarrow> msg_sender m \<noteq> self \<Longrightarrow> Staking_withdraw T m s = Inr s' \<Longrightarrow> staking_step (T, self, s) (T, self, s')"
| min_stake: "setMinStake m x s = Inr s' \<Longrightarrow> staking_step (T, self, s) (T, self, s')"
| cooldown: "setCooldownPeriod m x s = Inr s' \<Longrightarrow> staking_step (T, self, s) (T, self, s')"
| treasury: "Staking_setTreasury m a s = Inr s' \<Longrightarrow> staking_step (T, self, s) (T, self, s')"
| outside: "tk_balance T (sk_token s) self \<le> tk_balance T tok self \<Longrightarrow> staking_step (T, self, s) (T, self, s\<lparr>sk_token := tok\<rparr>)"

definition staking_initial :: "'t erc20 \<times> address \<times> 't staking \<Rightarrow> bool" where
  "staking_initial = (\<lambda>(T, self, s). 0 \<le> tk_balance T (sk_token s) self
     \<and> (\<exists>tk adm coord arb tr ms cd. GridixStaking tk adm coord arb tr ms cd (sk_token s) = Inr s))"

lemma GridixStaking_Inr: "GridixStaking tk adm coord arb tr ms cd tok = Inr s \<Longrightarrow> liabilities s = 0"
  by (auto simp: GridixStaking_def bucket_simps split: if_splits)

interpretation staking: system staking_initial staking_step "\<lambda>(T, self, s). staking_solvent T self s"
proof
  fix x :: "'t erc20 \<times> address \<times> 't staking"
  assume i: "staking_initial x"
  obtain T self s where "x = (T, self, s)" by (cases x)
  then show "case x of (T, self, s) \<Rightarrow> staking_solvent T self s"
    using i by (auto simp: staking_initial_def staking_solvent_def dest: GridixStaking_Inr)
next
  fix x y :: "'t erc20 \<times> address \<times> 't staking"
  assume "case x of (T, self, s) \<Rightarrow> staking_solvent T self s" "staking_step x y"
  from this(2,1) show "case y of (T, self, s) \<Rightarrow> staking_solvent T self s"
  proof (induction rule: staking_step.induct)
    case (stake T m self x s s')
    then show ?case using Staking_stake_Inr(1,2) [OF stake(4,1)] by (auto simp: staking_solvent_def moved_def)
  next
    case (complete_unstake T m self s s')
    then show ?case using completeUnstake_Inr(1,2) [OF complete_unstake(4,1)] by (auto simp: staking_solvent_def moved_def)
  next
    case (resolve T m self p up s s')
    then show ?case
      using resolveDispute_Inr(4,5) [OF resolve(3,1)]
      by (cases up) (auto simp: staking_solvent_def moved_def intro: add_increasing2)
  next
    case (fund T m self x s s')
    then show ?case using depositSettlement_Inr(1,2) [OF fund(4,1)] by (auto simp: staking_solvent_def moved_def)
  next
    case (withdraw T m self s s')
    then show ?case using Staking_withdraw_Inr(1,2) [OF withdraw(4,1)] by (auto simp: staking_solvent_def moved_def)
  next
    case (outside T s self tok)
    then show ?case by (simp add: staking_solvent_def liabilities_def)
  qed (auto simp: staking_solvent_def unstake_Inr(1,2) slash_Inr(1,2) settleBatch_Inr(1,2) dest: admin_Inr)
qed

end
