(* ===== verification/Settlement_Safety.thy ===== *)
theory Settlement_Safety
  imports Settlement
begin

text \<open>
  No payment is made twice: the sessions that record work (\<open>maybe_batch\<close>, \<open>maybe_debit\<close>) keep the invariant of
  \<open>Settlement\<close>, so it holds in every state the engine reaches, whatever the network, crashes and the
  coordinator do in between.  From it follow the bounds on what the chain has paid.
\<close>

section \<open>Recording work\<close>

lemma base_nonce_fresh:
  assumes "reserve_base_nonce C c d = Inr n" "r \<in> set (chain_settlements d)" "st_nonce r = Some m"
  shows "m < n"
proof -
  let ?ns = "List.map_filter st_nonce (chain_settlements d)"
  have m: "m \<in> set ?ns" using assms(2,3) by (force simp: map_filter_def)
  obtain x xs where x: "?ns = x # xs" using m by (cases ?ns) auto
  have "m \<le> Max (set (x # xs))" using m unfolding x by (intro Max_ge) auto
  moreover have "Max (set (x # xs)) + 1 \<le> n" using assms(1) x by (auto simp: reserve_base_nonce_def bindE_def split: sum.splits)
  ultimately show ?thesis by linarith
qed

lemma pending_row_sel:
  "st_id (pending_row now kind key n payload k) = k" "st_nonce (pending_row now kind key n payload k) = Some n"
  "st_status (pending_row now kind key n payload k) = cs_pending" "st_tx_hash (pending_row now kind key n payload k) = None"
  "st_kind (pending_row now kind key n payload k) = kind" "st_payload (pending_row now kind key n payload k) = Some payload"
  "st_batch_key (pending_row now kind key n payload k) = key"
  by (simp_all add: pending_row_def)

lemma pending_stands:
  "stands_for (pending_row now ck_settle_batch key n (PayBatch ps) k) n (SettleBatch (map fst ps) (map snd ps))"
  "stands_for (pending_row now ck_deposit_settlement key n (PayFund x) k) n (DepositSettlement x)"
  "stands_for (pending_row now ck_debit key n (PayDebit w x) k) n (Debit w x)"
  by (simp_all add: stands_for_def call_of_def pending_row_def)

lemma add_settlement_Inr:
  assumes "add_settlement row d = Inr d'"
  shows "d' = d\<lparr>chain_settlements := chain_settlements d @ [row], next_id := Suc (next_id d)\<rparr>"
  using assms by (simp add: add_settlement_def split: if_splits)

text \<open>A row without legs: a deposit to the pool, or a debit.\<close>

lemma add_plain_ok:
  assumes "rows_ok k d" "chain_agrees ok sent executed d c" "add_settlement row d = Inr d'"
    "row = pending_row now kind key n payload (next_id d)" "kind \<noteq> ck_settle_batch" "stands_for row n call"
    "\<forall>r \<in> set (chain_settlements d). \<forall>m. st_nonce r = Some m \<longrightarrow> m < n"
  shows "rows_ok k d' \<and> chain_agrees ok sent executed d' c \<and> chain_settlements d' = chain_settlements d @ [row]
    \<and> provider_settlements d' = provider_settlements d \<and> ledger_entries d' = ledger_entries d"
proof -
  note d' = add_settlement_Inr [OF assms(3)]
  have "reserved_by_provider d p \<le> earned_units k d p" for p using assms(1) unfolding rows_ok_def by blast
  then have "rows_ok k d'"
    using assms(4,5) by (intro rows_ok_add [OF assms(1) _ assms(6,7), where legs = "[]"]) (simp_all add: d' pending_row_sel)
  moreover have "chain_agrees ok sent executed d' c"
    by (rule agrees_add [OF assms(2), where row = row]) (simp_all add: d' assms(4) pending_row_sel)
  ultimately show ?thesis by (simp add: d')
qed

subsection \<open>The legs of a batch\<close>

fun legs_of :: "uuid \<Rightarrow> uuid \<Rightarrow> (uuid \<times> string \<times> int) list \<Rightarrow> ProviderSettlement list" where
  "legs_of sid k [] = []"
| "legs_of sid k ((pid, wallet, units) # ps) =
     \<lparr> ps_id = k, ps_provider_id = pid, ps_settlement_id = sid, ps_amount_units = units \<rparr> # legs_of sid (Suc k) ps"

lemma reserve_legs_eq:
  "reserve_legs sid ps d = d\<lparr>provider_settlements := provider_settlements d @ legs_of sid (next_id d) ps, next_id := next_id d + length ps\<rparr>"
  by (induction sid ps d rule: reserve_legs.induct) auto

lemma legs_of_sel:
  "map ps_amount_units (legs_of sid k ps) = map (snd \<circ> snd) ps"
  "sum_list (map ps_amount_units (filter (\<lambda>r. ps_provider_id r = p) (legs_of sid k ps)))
     = sum_list (map (snd \<circ> snd) (filter (\<lambda>x. fst x = p) ps))"
  "r \<in> set (legs_of sid k ps) \<Longrightarrow> ps_settlement_id r = sid \<and> ps_amount_units r \<in> set (map (snd \<circ> snd) ps)"
  by (induction sid k ps rule: legs_of.induct) auto

lemma sum_one_key:
  fixes f :: "'a \<Rightarrow> int"
  shows "distinct (map key xs) \<Longrightarrow> sum_list (map f (filter (\<lambda>x. key x = p) xs)) = 0
    \<or> (\<exists>x \<in> set xs. key x = p \<and> sum_list (map f (filter (\<lambda>x. key x = p) xs)) = f x)"
proof (induction xs)
  case (Cons x xs)
  then show ?case by (cases "key x = p") (auto simp: filter_empty_conv image_iff intro: sum_list_0)
qed simp

lemma earned_sel:
  "(p, b) \<in> set (earned_by_provider d) \<Longrightarrow> b = account_balance la_provider (Some p) d"
  "distinct (map fst (earned_by_provider d))"
proof -
  show "(p, b) \<in> set (earned_by_provider d) \<Longrightarrow> b = account_balance la_provider (Some p) d"
    by (auto simp: earned_by_provider_def)
  have sub: "distinct (map fst (filter P (map (\<lambda>r. (r, f r)) xs)))" if "distinct xs" for P and f :: "uuid \<Rightarrow> money" and xs
    using that by (induction xs) auto
  show "distinct (map fst (earned_by_provider d))" unfolding earned_by_provider_def by (rule sub) simp
qed

lemma unsettled_sel:
  assumes "unsettled eng d = (owed, skipped)"
  shows "distinct (map fst owed)"
    "(p, w, u) \<in> set owed \<Longrightarrow> 0 < u \<and> reserved_by_provider d p + u = units_of (account_balance la_provider (Some p) d) (eg_decimals eng)"
proof -
  have owed: "owed = concat (map (\<lambda>x. fst (unsettled_one eng d x)) (earned_by_provider d))"
    using assms by (simp add: unsettled_def Let_def comp_def)
  have one: "fst (unsettled_one eng d (p, b)) = [] \<or> (\<exists>w u. fst (unsettled_one eng d (p, b)) = [(p, w, u)]
      \<and> 0 < u \<and> reserved_by_provider d p + u = units_of b (eg_decimals eng))" for p b
    by (auto simp: unsettled_one_def Let_def split: option.split)
  have "distinct (map fst (concat (map (\<lambda>x. fst (unsettled_one eng d x)) xs)))
      \<and> set (map fst (concat (map (\<lambda>x. fst (unsettled_one eng d x)) xs))) \<subseteq> fst ` set xs" if "distinct (map fst xs)" for xs
    using that
  proof (induction xs)
    case (Cons x xs)
    then show ?case using one [of "fst x" "snd x"] by (auto simp: image_iff) force+
  qed simp
  then show "distinct (map fst owed)" unfolding owed using earned_sel(2) by blast
  show "0 < u \<and> reserved_by_provider d p + u = units_of (account_balance la_provider (Some p) d) (eg_decimals eng)" if mem: "(p, w, u) \<in> set owed"
  proof -
    obtain q b where q: "(q, b) \<in> set (earned_by_provider d)" "(p, w, u) \<in> set (fst (unsettled_one eng d (q, b)))"
      using mem by (auto simp: owed)
    then show ?thesis using one [of q b] earned_sel(1) [OF q(1)] by auto
  qed
qed

lemma batch_room:
  assumes "rows_ok (eg_decimals eng) d" "unsettled eng d = (owed, skipped)"
  shows "reserved_by_provider d p + sum_list (map (snd \<circ> snd) (filter (\<lambda>x. fst x = p) (sort_key fst owed))) \<le> earned_units (eg_decimals eng) d p"
proof -
  have old: "reserved_by_provider d p \<le> earned_units (eg_decimals eng) d p" using assms(1) unfolding rows_ok_def by blast
  have "distinct (map fst (sort_key fst owed))" using unsettled_sel(1) [OF assms(2)] by (simp add: distinct_map)
  from sum_one_key [OF this, of "snd \<circ> snd" p] show ?thesis
  proof
    assume "\<exists>x \<in> set (sort_key fst owed). fst x = p \<and> sum_list (map (snd \<circ> snd) (filter (\<lambda>x. fst x = p) (sort_key fst owed))) = (snd \<circ> snd) x"
    then obtain w u where "(p, w, u) \<in> set owed" "sum_list (map (snd \<circ> snd) (filter (\<lambda>x. fst x = p) (sort_key fst owed))) = u"
      by auto
    then show ?thesis using unsettled_sel(2) [OF assms(2)] by (simp add: earned_units_def)
  qed (use old in simp)
qed

lemma record_batch_ok:
  assumes J: "rows_ok k d" "chain_agrees ok sent executed d c"
    and fresh: "\<forall>r \<in> set (chain_settlements d). \<forall>m. st_nonce r = Some m \<longrightarrow> m < base"
    and room: "\<And>p. reserved_by_provider d p + sum_list (map (snd \<circ> snd) (filter (\<lambda>x. fst x = p) payees)) \<le> earned_units k d p"
    and pos: "\<forall>x \<in> set payees. 0 < snd (snd x)"
    and r: "record_batch now cycle base shortfall payees d = Inr d'"
  shows "rows_ok k d' \<and> chain_agrees ok sent executed d' c"
proof -
  let ?deposit = "pending_row now ck_deposit_settlement (''deposit:'' @ cycle) base (PayFund shortfall) (next_id d)"
  let ?n = "base + (if shortfall > 0 then 1 else 0)"
  obtain d1 where d1: "(if shortfall > 0 then add_settlement ?deposit d else Inr d) = Inr d1"
    using r by (auto simp: record_batch_def bindE_def split: sum.splits)
  let ?settle = "pending_row now ck_settle_batch (''settle:'' @ cycle) ?n (PayBatch (map snd payees)) (next_id d1)"
  obtain d2 where d2: "add_settlement ?settle d1 = Inr d2" and d': "d' = reserve_legs (next_id d1) payees d2"
    using r d1 by (auto simp: record_batch_def bindE_def Let_def pending_row_sel split: sum.splits)
  have J1: "rows_ok k d1" "chain_agrees ok sent executed d1 c" and fresh1: "\<forall>r \<in> set (chain_settlements d1). \<forall>m. st_nonce r = Some m \<longrightarrow> m < ?n"
    and room1: "\<And>p. reserved_by_provider d1 p + sum_list (map (snd \<circ> snd) (filter (\<lambda>x. fst x = p) payees)) \<le> earned_units k d1 p"
  proof (atomize (full), cases "shortfall > 0")
    case True
    then have a: "add_settlement ?deposit d = Inr d1" using d1 by simp
    note p = add_plain_ok [OF J a refl _ pending_stands(2) fresh, simplified]
    have "reserved_by_provider d1 q = reserved_by_provider d q" for q
    proof -
      have "\<forall>r \<in> set (provider_settlements d). ps_settlement_id r < next_id d" using J(1) unfolding rows_ok_def by blast
      then show ?thesis using p by (auto simp: reserved_by_provider_def pending_row_sel intro!: arg_cong [where f = sum_list] map_cong filter_cong)
    qed
    moreover have "earned_units k d1 q = earned_units k d q" for q using p by (simp add: earned_units_def account_balance_def sum_side_def)
    ultimately show "(rows_ok k d1 \<and> chain_agrees ok sent executed d1 c) \<and> (\<forall>r \<in> set (chain_settlements d1). \<forall>m. st_nonce r = Some m \<longrightarrow> m < ?n)
       \<and> (\<forall>p. reserved_by_provider d1 p + sum_list (map (snd \<circ> snd) (filter (\<lambda>x. fst x = p) payees)) \<le> earned_units k d1 p)"
      using p True fresh room by (fastforce simp: pending_row_sel)
  qed (use d1 J fresh room in simp)
  note e = add_settlement_Inr [OF d2]
  have S: "chain_settlements d' = chain_settlements d1 @ [?settle]" "provider_settlements d' = provider_settlements d1 @ legs_of (next_id d1) (Suc (next_id d1)) payees"
    "next_id d1 < next_id d'" "ledger_entries d' = ledger_entries d1"
    by (simp_all add: d' reserve_legs_eq e)
  have "\<forall>r \<in> set (legs_of (next_id d1) (Suc (next_id d1)) payees). ps_settlement_id r = next_id d1 \<and> 0 < ps_amount_units r"
  proof
    fix r assume "r \<in> set (legs_of (next_id d1) (Suc (next_id d1)) payees)"
    from legs_of_sel(3) [OF this] show "ps_settlement_id r = next_id d1 \<and> 0 < ps_amount_units r" using pos by auto
  qed
  then have "rows_ok k d'"
    using room1 by (intro rows_ok_add [OF J1(1) pending_row_sel(1) pending_stands(1) fresh1 _ S])
      (auto simp: pending_row_sel legs_of_sel)
  moreover have "chain_agrees ok sent executed d' c"
    by (rule agrees_add [OF J1(2) S(1)]) (simp_all add: pending_row_sel)
  ultimately show ?thesis ..
qed

lemma maybe_batch_ok:
  assumes J: "rows_ok (eg_decimals eng) d" "chain_agrees ok sent executed d c"
    and r: "maybe_batch C now cycle force eng d res c = (Inr d', res', eng')"
  shows "rows_ok (eg_decimals eng') d' \<and> chain_agrees ok sent executed d' c"
proof -
  obtain owed skipped where u: "unsettled eng d = (owed, skipped)" by force
  consider "d' = d" "eng' = eng" | base short where "reserve_base_nonce C c d = Inr base"
      "record_batch now cycle base short (sort_key fst owed) d = Inr d'" "eng' = eng\<lparr>eg_last_batch_at := Some now\<rparr>"
    using r u by (auto simp: maybe_batch_def bindE_def Let_def split: if_splits sum.splits)
  then show ?thesis
  proof cases
    case (2 base short)
    have "\<forall>x \<in> set (sort_key fst owed). 0 < snd (snd x)" using unsettled_sel(2) [OF u] by auto
    then show ?thesis
      using record_batch_ok [OF J _ batch_room [OF J(1) u] _ 2(2)] base_nonce_fresh [OF 2(1)] 2(3) by simp
  qed (use J in simp)
qed

lemma record_debits_ok:
  assumes "rows_ok k d" "chain_agrees ok sent executed d c" "\<forall>r \<in> set (chain_settlements d). \<forall>m. st_nonce r = Some m \<longrightarrow> m < base + offset"
    "record_debits now base debited wallets devs offset res d = (Inr d', res')"
  shows "rows_ok k d' \<and> chain_agrees ok sent executed d' c"
  using assms
proof (induction now base debited wallets devs offset res d rule: record_debits.induct)
  case (2 now base debited wallets dev_id units devs offset res d)
  let ?owed = "units - debited dev_id"
  show ?case
  proof (cases "\<exists>w. wallets dev_id = Some w \<and> \<not> (?owed \<le> 0 \<or> w = [])")
    case False
    then show ?thesis using 2 by (cases "wallets dev_id") (auto simp: Let_def)
  next
    case True
    then obtain w where w: "wallets dev_id = Some w" "\<not> (?owed \<le> 0 \<or> w = [])" by blast
    let ?row = "pending_row now ck_debit (''debit:'' @ uuid_str dev_id @ '':'' @ int_str units) (base + offset) (PayDebit w ?owed) (next_id d)"
    obtain d1 where a: "add_settlement ?row d = Inr d1"
      and rest: "record_debits now base debited wallets devs (offset + 1) (res\<lparr>cy_debited := cy_debited res + 1\<rparr>) d1 = (Inr d', res')"
      using "2.prems"(4) w by (auto simp: Let_def split: sum.splits)
    note p = add_plain_ok [OF "2.prems"(1,2) a refl _ pending_stands(3) "2.prems"(3), simplified]
    have "\<forall>r \<in> set (chain_settlements d1). \<forall>m. st_nonce r = Some m \<longrightarrow> m < base + (offset + 1)"
      using p "2.prems"(3) by (fastforce simp: pending_row_sel)
    then show ?thesis using "2.IH"(3) [OF refl w(1) w(2) a] p rest by blast
  qed
qed auto

lemma maybe_debit_ok:
  assumes "rows_ok k d" "chain_agrees ok sent executed d c" "maybe_debit C now force eng d res c = (Inr d', res')"
  shows "rows_ok k d' \<and> chain_agrees ok sent executed d' c"
proof (cases "d' = d")
  case False
  then obtain base where b: "reserve_base_nonce C c d = Inr base"
    "record_debits now base (onchain_debited_by_dev d) (dev_wallet d) (sort_key fst (settled_units_by_dev eng d)) 0 res d = (Inr d', res')"
    using assms(3) by (auto simp: maybe_debit_def Let_def split: if_splits sum.splits)
  show ?thesis by (rule record_debits_ok [OF assms(1,2) _ b(2)]) (use base_nonce_fresh [OF b(1)] in simp)
qed (use assms in simp)

section \<open>Every reachable state\<close>

text \<open>The engine starts with no row recorded and nothing broadcast.\<close>

definition engine_initial :: "('c \<Rightarrow> bool) \<Rightarrow> ('c \<Rightarrow> (string \<times> int \<times> Call) set) \<Rightarrow> engine \<times> db \<times> 'c \<Rightarrow> bool" where
  "engine_initial ok sent = (\<lambda>(eng, d, c).
     chain_settlements d = [] \<and> provider_settlements d = [] \<and> ok c \<and> sent c = {})"

definition paid_once ::
    "('c \<Rightarrow> bool) \<Rightarrow> ('c \<Rightarrow> (string \<times> int \<times> Call) set) \<Rightarrow> ('c \<Rightarrow> (string \<times> int \<times> Call \<times> int) list) \<Rightarrow> engine \<times> db \<times> 'c \<Rightarrow> bool" where
  "paid_once ok sent executed = (\<lambda>(eng, d, c). rows_ok (eg_decimals eng) d \<and> chain_agrees ok sent executed d c)"

lemma earned_units_mono:
  assumes "account_balance la_provider (Some p) d \<le> account_balance la_provider (Some p) d'"
  shows "earned_units k d p \<le> earned_units k d' p"
proof -
  let ?x = "ctx (account_balance la_provider (Some p) d * 10 ^ k)" and ?y = "ctx (account_balance la_provider (Some p) d' * 10 ^ k)"
  have "?x \<le> ?y" unfolding ctx_def using assms by (intro round_sig_mono) auto
  then have "max 0 (round_down ?x) \<le> max 0 (round_down ?y)" by (cases "0 \<le> ?x") (auto simp: round_down_def intro: floor_mono max.coboundedI2)
  then show ?thesis by (simp add: earned_units_def units_of_def)
qed

lemma rows_ok_ledger:
  assumes "rows_ok k d" "chain_settlements d' = chain_settlements d" "provider_settlements d' = provider_settlements d" "next_id d \<le> next_id d'"
    "\<forall>p. account_balance la_provider (Some p) d \<le> account_balance la_provider (Some p) d'"
  shows "rows_ok k d'"
proof -
  have "reserved_by_provider d' p = reserved_by_provider d p" for p by (simp add: reserved_by_provider_def assms(2,3))
  moreover have "reserved_by_provider d p \<le> earned_units k d p" for p using assms(1) unfolding rows_ok_def by blast
  ultimately have "\<forall>p. reserved_by_provider d' p \<le> earned_units k d' p" using earned_units_mono assms(5) by (metis order_trans)
  then show ?thesis using assms(1-4) by (auto simp: rows_ok_def intro: less_le_trans)
qed

context payout_chain
begin

lemma engine_start: "engine_initial ok sent s \<Longrightarrow> paid_once ok sent executed s"
  by (auto simp: engine_initial_def paid_once_def rows_ok_def chain_agrees_def reserved_by_provider_def earned_units_def split: prod.splits)

lemma engine_preserved: "engine_step C net s t \<Longrightarrow> paid_once ok sent executed s \<Longrightarrow> paid_once ok sent executed t"
proof (induction rule: engine_step.induct)
  case (recovered eng now d res c d' res' c')
  then have "rows_ok (eg_decimals eng) d" "agrees d c" by (simp_all add: paid_once_def)
  from recover_ok [OF this recovered.hyps] show ?case by (simp add: paid_once_def)
next
  case (interrupted eng now latest k d res c r res' c')
  then have J: "rows_ok (eg_decimals eng) d" "agrees d c" by (simp_all add: paid_once_def)
  from recover_rows_ok [OF J recovery_rows_sel [OF J(1)] interrupted.hyps] J(1) show ?case by (simp add: paid_once_def advances_def)
next
  case (batched now cycle force eng d res c d' res' eng')
  then have "rows_ok (eg_decimals eng) d" "agrees d c" by (simp_all add: paid_once_def)
  from maybe_batch_ok [OF this batched.hyps] show ?case by (simp add: paid_once_def)
next
  case (debited now force eng d res c d' res')
  then have "rows_ok (eg_decimals eng) d" "agrees d c" by (simp_all add: paid_once_def)
  from maybe_debit_ok [OF this debited.hyps] show ?case by (simp add: paid_once_def)
next
  case (network c c' eng d)
  then have J: "rows_ok (eg_decimals eng) d" "agrees d c" and "ok c" by (simp_all add: paid_once_def chain_agrees_def)
  note moved = net_ok [OF \<open>ok c\<close> network.hyps] net_sent [OF \<open>ok c\<close> network.hyps] finality [OF \<open>ok c\<close> network.hyps]
  have "agrees d c'" using J(2) moved by (auto simp: chain_agrees_def intro: row_agrees_mono [OF _ subset_refl])
  then show ?case using J(1) by (simp add: paid_once_def)
next
  case (ledger d' d eng c)
  then have "rows_ok (eg_decimals eng) d" "agrees d c" by (simp_all add: paid_once_def)
  from rows_ok_ledger [OF this(1) ledger.hyps] agrees_cong [OF this(2) ledger.hyps(1)] show ?case by (simp add: paid_once_def)
qed (simp add: paid_once_def)

end

sublocale payout_chain \<subseteq> engine: system "engine_initial ok sent" "engine_step C net" "paid_once ok sent executed"
  by unfold_locales (auto intro: engine_start engine_preserved)

text \<open>A tick is a run of such sessions.\<close>

lemma tick_steps:
  assumes "tick C now cycle force eng d c = (res, eng', d', c')"
  shows "(engine_step C world)\<^sup>*\<^sup>* (eng, d, c) (eng', d', c')"
proof -
  have stop: "engine_step C world (g, x, y) (g, x, y')" if err: "recover C g now x z y = (Inl e, z', y')" for g x y z e z' y'
  proof (cases "recovery_rows x = [] \<or> (\<exists>e. cl_latest_block C y = Inl e)")
    case True
    then have "y' = y" using err by (auto simp: recover_def recovery_rows_def [symmetric] Let_def split: sum.splits prod.splits if_splits)
    then show ?thesis using engine_step.interrupted [where k = 0] by fastforce
  next
    case False
    then obtain latest r z1 where "recover_rows C g now latest (recovery_rows x) x z y = (r, z1, y')"
      using err by (auto simp: recover_def recovery_rows_def [symmetric] Let_def split: sum.splits prod.splits if_splits)
    then show ?thesis by (intro engine_step.interrupted [where k = "length (recovery_rows x)"]) simp
  qed
  obtain r1 z1 c1 where 1: "recover C eng now d new_cycle c = (r1, z1, c1)" by (metis prod_cases3)
  show ?thesis
  proof (cases r1)
    case (Inl e)
    then show ?thesis using assms 1 stop by (auto simp: tick_def)
  next
    case (Inr d1)
    then have s1: "engine_step C world (eng, d, c) (eng, d1, c1)" using 1 by (auto intro: engine_step.recovered)
    obtain r2 z2 eng2 where 2: "maybe_batch C now cycle force eng d1 z1 c1 = (r2, z2, eng2)" by (metis prod_cases3)
    show ?thesis
    proof (cases r2)
      case (Inl e)
      moreover have "eng2 = eng" using 2 Inl by (auto simp: maybe_batch_def Let_def split: if_splits prod.splits sum.splits)
      ultimately show ?thesis using assms 1 2 s1 \<open>r1 = Inr d1\<close> by (auto simp: tick_def)
    next
      case (Inr d2)
      then have s2: "engine_step C world (eng, d1, c1) (eng2, d2, c1)" using 2 by (auto intro: engine_step.batched)
      obtain r3 z3 where 3: "maybe_debit C now force eng2 d2 z2 c1 = (r3, z3)" by force
      show ?thesis
      proof (cases r3)
        case (Inl e)
        then show ?thesis using assms 1 2 3 s1 s2 \<open>r1 = Inr d1\<close> \<open>r2 = Inr d2\<close> by (auto simp: tick_def)
      next
        case (Inr d3)
        then have s3: "engine_step C world (eng2, d2, c1) (eng2, d3, c1)" using 3 by (auto intro: engine_step.debited)
        obtain r4 z4 c4 where 4: "recover C eng2 now d3 z3 c1 = (r4, z4, c4)" by (metis prod_cases3)
        have "engine_step C world (eng2, d3, c1) (eng', d', c')"
          using assms 1 2 3 4 \<open>r1 = Inr d1\<close> \<open>r2 = Inr d2\<close> Inr stop by (cases r4) (auto simp: tick_def intro: engine_step.recovered)
        then show ?thesis using s1 s2 s3 by (meson converse_rtranclp_into_rtranclp r_into_rtranclp)
      qed
    qed
  qed
qed

section \<open>What the chain has paid\<close>

text \<open>A sum over keyed entries is bounded by a sum over the entries with the same keys.\<close>

lemma sum_matched:
  fixes w :: "'a \<Rightarrow> int" and v :: "'b \<Rightarrow> int"
  assumes "distinct (map f xs)" "\<forall>y \<in> set ys. 0 \<le> v y" "\<forall>x \<in> set xs. w x \<le> 0 \<or> (\<exists>y \<in> set ys. g y = f x \<and> w x \<le> v y)"
  shows "sum_list (map w xs) \<le> sum_list (map v ys)"
  using assms
proof (induction xs arbitrary: ys)
  case Nil
  then show ?case by (auto intro!: sum_list_nonneg)
next
  case (Cons x xs)
  show ?case
  proof (cases "w x \<le> 0")
    case True
    then show ?thesis using Cons.IH [of ys] Cons.prems by simp
  next
    case False
    then obtain y where y: "y \<in> set ys" "g y = f x" "w x \<le> v y" using Cons.prems(3) by auto
    have "\<exists>y' \<in> set (remove1 y ys). g y' = f x' \<and> w x' \<le> v y'" if x': "x' \<in> set xs" "\<not> w x' \<le> 0" for x'
    proof -
      obtain y' where y': "y' \<in> set ys" "g y' = f x'" "w x' \<le> v y'" using Cons.prems(3) x' by auto
      moreover have "y' \<noteq> y" using y(2) y'(2) Cons.prems(1) x'(1) by (auto simp: image_iff)
      ultimately show ?thesis by (auto simp: in_set_remove1)
    qed
    then have "sum_list (map w xs) \<le> sum_list (map v (remove1 y ys))"
      using Cons.prems(1,2) by (intro Cons.IH) (auto dest: notin_set_remove1)
    then show ?thesis using y(1,3) by (simp add: sum_list_map_remove1)
  qed
qed

text \<open>What the live rows say is paid to a wallet, and what they pay in all.\<close>

definition row_value :: "(Call \<Rightarrow> int) \<Rightarrow> ChainSettlement \<Rightarrow> int" where
  "row_value f row = (case call_of row of Inr call \<Rightarrow> f call | Inl _ \<Rightarrow> 0)"

definition live_value :: "(Call \<Rightarrow> int) \<Rightarrow> db \<Rightarrow> int" where
  "live_value f d = sum_list (map (row_value f) (filter (\<lambda>row. st_status row \<in> set LIVE) (chain_settlements d)))"

definition executed_value :: "(Call \<Rightarrow> int) \<Rightarrow> (string \<times> int \<times> Call \<times> int) list \<Rightarrow> int" where
  "executed_value f es = sum_list (map (\<lambda>(h, n, call, st). if st = 1 then f call else 0) es)"

fun batch_sum :: "Call \<Rightarrow> int" where
  "batch_sum (SettleBatch _ amounts) = sum_list amounts"
| "batch_sum _ = 0"

lemma paid_total_value: "paid_total a es = executed_value (paid_in a) es"
  by (simp add: paid_total_def executed_value_def)

lemma batch_legs:
  assumes "rows_ok k d" "row \<in> set (chain_settlements d)" "st_status row \<noteq> cs_failed" "st_kind row = ck_settle_batch"
  obtains ps where "call_of row = Inr (SettleBatch (map fst ps) (map snd ps))"
    "map snd ps = map ps_amount_units (filter (\<lambda>r. ps_settlement_id r = st_id row) (provider_settlements d))"
    "\<forall>u \<in> set (map snd ps). 0 < u"
proof -
  obtain ps where ps: "st_payload row = Some (PayBatch ps)"
    "map snd ps = map ps_amount_units (filter (\<lambda>r. ps_settlement_id r = st_id row) (provider_settlements d))"
    using assms unfolding rows_ok_def by blast
  moreover have "\<forall>u \<in> set (map snd ps). 0 < u" using assms(1) unfolding ps(2) rows_ok_def by auto
  ultimately show ?thesis using that [of ps] assms(4) by (simp add: call_of_def)
qed

lemma other_value: "st_kind row \<noteq> ck_settle_batch \<Longrightarrow> row_value (paid_in a) row = 0 \<and> row_value batch_sum row = 0"
  by (auto simp: row_value_def call_of_def split: ChainTxKind.split option.split Payload.split sum.split)

lemma row_value_nonneg:
  assumes "rows_ok k d" "row \<in> set (chain_settlements d)" "st_status row \<noteq> cs_failed"
  shows "0 \<le> row_value (paid_in a) row" "0 \<le> row_value batch_sum row"
proof -
  have "0 \<le> row_value (paid_in a) row \<and> 0 \<le> row_value batch_sum row"
  proof (cases "st_kind row = ck_settle_batch")
    case True
    obtain ps where ps: "call_of row = Inr (SettleBatch (map fst ps) (map snd ps))" "\<forall>u \<in> set (map snd ps). 0 < u"
      using batch_legs [OF assms True] .
    have "0 \<le> sum_list (map snd (filter (\<lambda>(p, _). to_lower p = a) (zip (map fst ps) (map snd ps))))"
      using ps(2) by (intro sum_list_nonneg) (force simp: zip_map_fst_snd)
    moreover have "0 \<le> sum_list (map snd ps)" using ps(2) by (intro sum_list_nonneg) (auto intro: less_imp_le)
    ultimately show ?thesis using ps(1) by (simp add: row_value_def)
  qed (simp add: other_value)
  then show "0 \<le> row_value (paid_in a) row" "0 \<le> row_value batch_sum row" by simp_all
qed

text \<open>The batches pay the legs, leg by leg.\<close>

lemma sum_by_owner:
  fixes f :: "'l \<Rightarrow> int"
  assumes "distinct (map key rows)"
  shows "sum_list (map (\<lambda>r. sum_list (map f (filter (\<lambda>l. owner l = key r) ls))) rows)
    = sum_list (map f (filter (\<lambda>l. owner l \<in> key ` set rows) ls))"
  using assms
proof (induction rows)
  case (Cons r rows)
  have "sum_list (map f (filter (\<lambda>l. owner l = key r) ls)) + sum_list (map f (filter (\<lambda>l. owner l \<in> key ` set rows) ls))
      = sum_list (map f (filter (\<lambda>l. owner l = key r \<or> owner l \<in> key ` set rows) ls))"
    using Cons.prems by (induction ls) auto
  then show ?case using Cons by simp
qed simp

lemma sum_by_payee:
  fixes f :: "'l \<Rightarrow> int"
  assumes "finite P" "grp ` set ls \<subseteq> P"
  shows "(\<Sum>p \<in> P. sum_list (map f (filter (\<lambda>l. grp l = p \<and> Q l) ls))) = sum_list (map f (filter Q ls))"
  using assms
proof (induction ls)
  case (Cons l ls)
  have "(\<Sum>p \<in> P. sum_list (map f (filter (\<lambda>x. grp x = p \<and> Q x) (l # ls))))
      = (\<Sum>p \<in> P. (if p = grp l then (if Q l then f l else 0) else 0) + sum_list (map f (filter (\<lambda>x. grp x = p \<and> Q x) ls)))"
    by (intro sum.cong) auto
  then show ?case using Cons by (simp add: sum.distrib)
qed simp

lemma live_batches:
  assumes "rows_ok k d"
  shows "live_value batch_sum d \<le> (\<Sum>p \<in> ps_provider_id ` set (provider_settlements d). earned_units k d p)"
proof -
  let ?live = "filter (\<lambda>row. st_status row \<in> set LIVE) (chain_settlements d)" and ?legs = "provider_settlements d"
  let ?paid = "\<lambda>row. sum_list (map ps_amount_units (filter (\<lambda>l. ps_settlement_id l = st_id row) ?legs))"
  have pos: "\<forall>l \<in> set ?legs. 0 < ps_amount_units l" using assms unfolding rows_ok_def by blast
  have "row_value batch_sum row \<le> ?paid row" if "row \<in> set ?live" for row
  proof (cases "st_kind row = ck_settle_batch")
    case True
    have row: "row \<in> set (chain_settlements d)" "st_status row \<noteq> cs_failed" using that by (auto simp: live_iff)
    obtain ps where "call_of row = Inr (SettleBatch (map fst ps) (map snd ps))"
      "map snd ps = map ps_amount_units (filter (\<lambda>r. ps_settlement_id r = st_id row) ?legs)" using batch_legs [OF assms row True] .
    then show ?thesis by (simp add: row_value_def)
  next
    case False
    have "0 \<le> ?paid row" using pos by (intro sum_list_nonneg) (auto intro: less_imp_le)
    then show ?thesis using other_value [OF False] by simp
  qed
  then have "live_value batch_sum d \<le> sum_list (map ?paid ?live)" unfolding live_value_def by (rule sum_list_mono)
  also have "\<dots> = sum_list (map ps_amount_units (filter (\<lambda>l. ps_settlement_id l \<in> st_id ` set ?live) ?legs))"
    using assms by (intro sum_by_owner) (simp add: rows_ok_def distinct_map_filter)
  also have "\<dots> = (\<Sum>p \<in> ps_provider_id ` set ?legs.
      sum_list (map ps_amount_units (filter (\<lambda>l. ps_provider_id l = p \<and> ps_settlement_id l \<in> st_id ` set ?live) ?legs)))"
    by (rule sum_by_payee [symmetric]) auto
  also have "\<dots> = (\<Sum>p \<in> ps_provider_id ` set ?legs. reserved_by_provider d p)"
    unfolding reserved_by_provider_def by (intro sum.cong refl arg_cong [where f = sum_list] arg_cong [where f = "map ps_amount_units"] filter_cong) (auto simp: image_iff)
  also have "\<dots> \<le> (\<Sum>p \<in> ps_provider_id ` set ?legs. earned_units k d p)"
    using assms unfolding rows_ok_def by (intro sum_mono) blast
  finally show ?thesis .
qed

context payout_chain
begin

lemma engine_reachable: "engine_initial ok sent s \<Longrightarrow> (engine_step C net)\<^sup>*\<^sup>* s t \<Longrightarrow> paid_once ok sent executed t"
  by (rule engine.reachable_inv)

lemma executed_row:
  assumes "paid_once ok sent executed (eng, d, c)" "(h, n, call, st) \<in> set (executed c)"
  obtains row where "row \<in> set (chain_settlements d)" "stands_for row n call" "st = 1 \<longrightarrow> st_status row \<noteq> cs_failed"
proof -
  have J: "agrees d c" and c: "ok c" using assms(1) by (simp_all add: paid_once_def chain_agrees_def)
  have "(h, n, call) \<in> sent c" by (rule executed_sent [OF c assms(2)])
  then obtain row where row: "row \<in> set (chain_settlements d)" "stands_for row n call"
    using J unfolding chain_agrees_def by blast
  have "st \<noteq> 1" if failed: "st_status row = cs_failed"
  proof -
    have "row_agrees (sent c) (set (executed c)) row" using J row(1) by (simp add: chain_agrees_def)
    then obtain h' n' call' st' where y: "stands_for row n' call'" "(h', n', call', st') \<in> set (executed c)" "st' \<noteq> 1"
      using failed unfolding row_agrees_def by blast
    have "n' = n" using row(2) y(1) by (simp add: stands_for_def)
    moreover have "inj_on (fst \<circ> snd) (set (executed c))" using one_per_nonce [OF c] by (simp add: distinct_map)
    ultimately have "(h', n', call', st') = (h, n, call, st)" using assms(2) y(2) by (intro inj_onD [of "fst \<circ> snd" "set (executed c)"]) auto
    then show ?thesis using y(3) by simp
  qed
  then show thesis using that row by blast
qed

text \<open>What the chain has executed is worth at most what the live rows stand for.\<close>

lemma value_bound:
  assumes J: "paid_once ok sent executed (eng, d, c)"
    and nonneg: "\<And>row. row \<in> set (chain_settlements d) \<Longrightarrow> st_status row \<noteq> cs_failed \<Longrightarrow> 0 \<le> row_value f row"
  shows "executed_value f (executed c) \<le> live_value f d"
  unfolding executed_value_def live_value_def
proof (rule sum_matched [where f = "Some \<circ> (fst \<circ> snd)" and g = st_nonce])
  let ?live = "filter (\<lambda>row. st_status row \<in> set LIVE) (chain_settlements d)"
  let ?w = "\<lambda>(h, n, call, st). if st = 1 then f call else 0"
  have "ok c" using J by (simp add: paid_once_def chain_agrees_def)
  then show "distinct (map (Some \<circ> (fst \<circ> snd)) (executed c))"
    using one_per_nonce by (simp add: distinct_map inj_on_def)
  show "\<forall>row \<in> set ?live. 0 \<le> row_value f row" using nonneg by (auto simp: live_iff)
  show "\<forall>x \<in> set (executed c). ?w x \<le> 0 \<or> (\<exists>row \<in> set ?live. st_nonce row = (Some \<circ> (fst \<circ> snd)) x \<and> ?w x \<le> row_value f row)"
  proof
    fix x assume x: "x \<in> set (executed c)"
    obtain h n call st where xs: "x = (h, n, call, st)" by (metis prod_cases4)
    obtain row where "row \<in> set (chain_settlements d)" "stands_for row n call" "st = 1 \<longrightarrow> st_status row \<noteq> cs_failed"
      using executed_row [OF J x [unfolded xs]] .
    then show "?w x \<le> 0 \<or> (\<exists>row \<in> set ?live. st_nonce row = (Some \<circ> (fst \<circ> snd)) x \<and> ?w x \<le> row_value f row)"
      using xs by (auto simp: live_iff stands_for_def row_value_def)
  qed
qed

text \<open>With nothing in flight it is worth exactly that.\<close>

lemma value_exact:
  assumes J: "paid_once ok sent executed (eng, d, c)" "inflight d = 0"
    and nonneg: "\<And>row. row \<in> set (chain_settlements d) \<Longrightarrow> st_status row \<noteq> cs_failed \<Longrightarrow> 0 \<le> row_value f row"
  shows "executed_value f (executed c) = live_value f d"
proof (rule antisym [OF value_bound [OF J(1) nonneg]])
  let ?live = "filter (\<lambda>row. st_status row \<in> set LIVE) (chain_settlements d)"
  let ?w = "\<lambda>(h, n, call, st). if st = 1 then f call else 0"
  have a: "agrees d c" and r: "rows_ok (eg_decimals eng) d" using J(1) by (simp_all add: paid_once_def)
  have "st_status row = cs_confirmed" if "row \<in> set ?live" for row
    using that J(2) by (auto simp: inflight_def row_in_flight_def LIVE_def filter_empty_conv)
  then have mined: "\<exists>h n call. stands_for row n call \<and> (h, n, call, 1) \<in> set (executed c)" if "row \<in> set ?live" for row
    using a that unfolding chain_agrees_def row_agrees_def by fastforce
  have pos: "0 \<le> ?w x" if x: "x \<in> set (executed c)" for x
  proof -
    obtain h n call st where xs: "x = (h, n, call, st)" by (metis prod_cases4)
    obtain row where row: "row \<in> set (chain_settlements d)" "stands_for row n call" "st = 1 \<longrightarrow> st_status row \<noteq> cs_failed"
      using executed_row [OF J(1) x [unfolded xs]] .
    then show ?thesis using nonneg [OF row(1)] xs by (auto simp: row_value_def stands_for_def)
  qed
  have "\<exists>x \<in> set (executed c). (Some \<circ> (fst \<circ> snd)) x = st_nonce row \<and> row_value f row \<le> ?w x" if row: "row \<in> set ?live" for row
  proof -
    obtain h n call where "stands_for row n call" "(h, n, call, 1) \<in> set (executed c)" using mined [OF row] by blast
    then show ?thesis by (intro bexI [of _ "(h, n, call, 1)"]) (auto simp: row_value_def stands_for_def)
  qed
  moreover have "distinct (map st_nonce ?live)" using r by (simp add: rows_ok_def distinct_map_filter)
  ultimately show "live_value f d \<le> executed_value f (executed c)"
    unfolding live_value_def executed_value_def using pos
    by (intro sum_matched [where f = st_nonce and g = "Some \<circ> (fst \<circ> snd)"]) auto
qed simp_all

lemma never_overpays:
  assumes J: "paid_once ok sent executed (eng, d, c)"
  shows "paid_total a (executed c) \<le> live_value (paid_in a) d"
    "inflight d = 0 \<Longrightarrow> paid_total a (executed c) = live_value (paid_in a) d"
    "executed_value batch_sum (executed c)
       \<le> (\<Sum>p \<in> ps_provider_id ` set (provider_settlements d). earned_units (eg_decimals eng) d p)"
proof -
  have r: "rows_ok (eg_decimals eng) d" using J by (simp add: paid_once_def)
  note nonneg = row_value_nonneg [OF r]
  show "paid_total a (executed c) \<le> live_value (paid_in a) d"
    unfolding paid_total_value by (rule value_bound [OF J nonneg(1)])
  show "inflight d = 0 \<Longrightarrow> paid_total a (executed c) = live_value (paid_in a) d"
    unfolding paid_total_value by (rule value_exact [OF J _ nonneg(1)])
  have "executed_value batch_sum (executed c) \<le> live_value batch_sum d" by (rule value_bound [OF J nonneg(2)])
  then show "executed_value batch_sum (executed c)
       \<le> (\<Sum>p \<in> ps_provider_id ` set (provider_settlements d). earned_units (eg_decimals eng) d p)"
    using live_batches [OF r] by linarith
qed

end

end
