(* ===== verification/Chain_Samples.thy ===== *)
theory Chain_Samples
  imports Samples Staking_Contract Settlement_Safety
begin

text \<open>
  Concrete chain states for the witnesses: a token that moves what its holder has, the two contracts freshly
  deployed, and a settlement engine on \<open>FakeChain\<close> with one provider who has earned five USDC.
\<close>

section \<open>The contracts\<close>

definition ledger_token :: "(address \<Rightarrow> int) erc20" where
  "ledger_token =
     (let move = (\<lambda>a b x t. if t a < uint x then None
                            else Some ((t(a := t a - uint x))(b := (t(a := t a - uint x)) b + uint x)))
      in \<lparr> tk_balance = (\<lambda>t a. t a), tk_transfer = move, tk_transfer_from = (\<lambda>_. move) \<rparr>)"

lemma ledger_token_ok: "token_ok ledger_token"
  by (auto simp: token_ok_def moved_def ledger_token_def Let_def split: if_splits)

definition call_by :: "address \<Rightarrow> u256 \<Rightarrow> role list \<Rightarrow> msg" where
  "call_by a now roles = \<lparr> msg_sender = a, msg_self = 99, msg_timestamp = now, msg_roles = roles, msg_paused = False \<rparr>"

definition holdings :: "address \<Rightarrow> int" where
  "holdings = (\<lambda>a. if a = 99 then 0 else 100)"

definition fresh_escrow :: "(address \<Rightarrow> int) escrow" where
  "fresh_escrow = \<lparr> es_treasury = 4, es_balances = (\<lambda>_. 0), es_token = holdings, es_log = [] \<rparr>"

definition fresh_staking :: "(address \<Rightarrow> int) staking" where
  "fresh_staking = \<lparr> sk_minStake = 5, sk_cooldownPeriod = 60, sk_treasury = 4, sk_settlementPool = 0, sk_stake = (\<lambda>_. 0),
     sk_unstaking = (\<lambda>_. no_unstaking), sk_dispute = (\<lambda>_. \<lparr> hd_amount = 0, hd_evidenceHash = 0, hd_open = False \<rparr>),
     sk_earnings = (\<lambda>_. 0), sk_token = holdings, sk_log = [] \<rparr>"

lemma escrow_deployed: "escrow_initial (ledger_token, 99, fresh_escrow)"
proof -
  have "GridixEscrow 1 2 3 4 holdings = Inr fresh_escrow" by (simp add: GridixEscrow_def fresh_escrow_def)
  moreover have "es_token fresh_escrow = holdings" "tk_balance ledger_token holdings 99 = 0"
    by (simp_all add: fresh_escrow_def ledger_token_def Let_def holdings_def)
  ultimately show ?thesis unfolding escrow_initial_def prod.case by simp blast
qed

lemma staking_deployed: "staking_initial (ledger_token, 99, fresh_staking)"
proof -
  have "GridixStaking 1 2 3 5 4 5 60 holdings = Inr fresh_staking" by (simp add: GridixStaking_def fresh_staking_def)
  moreover have "sk_token fresh_staking = holdings" "tk_balance ledger_token holdings 99 = 0"
    by (simp_all add: fresh_staking_def ledger_token_def Let_def holdings_def)
  ultimately show ?thesis unfolding staking_initial_def prod.case by simp blast
qed

text \<open>Developer 7 deposits 30; provider 7 stakes 30, and the coordinator slashes 12 of it.\<close>

lemma sample_deposit: "\<exists>s. Escrow_deposit ledger_token (call_by 7 0 []) 30 fresh_escrow = Inr s \<and> Escrow_balanceOf 7 s = 30"
  by (simp add: Escrow_deposit_def call_by_def when_not_paused_def checked_add_def safe_transfer_from_def ledger_token_def
      fresh_escrow_def holdings_def Escrow_balanceOf_def bindE_def Let_def)

lemma sample_stake: "\<exists>s. Staking_stake ledger_token (call_by 7 0 []) 30 fresh_staking = Inr s \<and> stakeOf 7 s = 30
    \<and> sk_unstaking s 7 = no_unstaking \<and> sk_dispute s 7 = \<lparr> hd_amount = 0, hd_evidenceHash = 0, hd_open = False \<rparr>"
  by (simp add: Staking_stake_def call_by_def when_not_paused_def checked_add_def safe_transfer_from_def ledger_token_def
      fresh_staking_def holdings_def stakeOf_def bindE_def Let_def)

lemma sample_slash:
  assumes "stakeOf 7 s = 30" "sk_unstaking s 7 = no_unstaking" "\<not> hd_open (sk_dispute s 7)"
  shows "\<exists>s'. slash (call_by 3 0 [COORDINATOR_ROLE]) 7 12 1 s = Inr s' \<and> stakeOf 7 s' = 18"
  using assms
  by (simp add: slash_def call_by_def only_role_def checked_add_def stakeOf_def bindE_def Let_def no_unstaking_def)

section \<open>The settlement engine\<close>

definition payout_db :: db where
  "payout_db = empty_db\<lparr>providers := [sample_provider],
     ledger_entries := [\<lparr> le_id = 1, le_entry_group = 2, le_job_id = None, le_account = la_provider, le_account_ref = Some 7,
       le_direction = ld_credit, le_amount = 5, le_reason = ''settle'', le_tx_hash = None, le_created_at = 0 \<rparr>]\<rparr>"

definition payout_engine :: engine where
  "payout_engine = \<lparr> eg_decimals = 6, eg_confirmations = 1, eg_threshold_units = 0, eg_interval = 60, eg_last_batch_at = None \<rparr>"

lemma sample_units: "units_of 5 6 = 5000000"
  by (simp add: units_of_def ctx_numeral round_down_def)

lemma sample_unsettled: "unsettled payout_engine payout_db = ([(7, ''0x07'', 5000000)], [])"
proof -
  have "earned_by_provider payout_db = [(7, 5)]"
    by (simp add: earned_by_provider_def payout_db_def map_filter_simps account_balance_def sum_side_def on_account_def)
  moreover have "reserved_by_provider payout_db 7 = 0" by (simp add: reserved_by_provider_def payout_db_def empty_db_def)
  moreover have "get_provider 7 payout_db = Some sample_provider" by (simp add: get_provider_def payout_db_def sample_provider_def)
  ultimately show ?thesis
    by (simp add: unsettled_def unsettled_one_def payout_engine_def sample_units) (simp add: sample_provider_def)
qed

definition batched_db :: db where
  "batched_db = payout_db\<lparr>
     chain_settlements := [pending_row 0 ck_deposit_settlement ''deposit:c'' 0 (PayFund 5000000) 0x10000,
                           pending_row 0 ck_settle_batch ''settle:c'' 1 (PayBatch [(''0x07'', 5000000)]) 0x10001],
     provider_settlements := [\<lparr> ps_id = 0x10002, ps_provider_id = 7, ps_settlement_id = 0x10001, ps_amount_units = 5000000 \<rparr>],
     next_id := 0x10003\<rparr>"

lemma sample_batched:
  "\<exists>res eng. maybe_batch fake_client 0 ''c'' True payout_engine payout_db new_cycle (fk_init [] []) = (Inr batched_db, res, eng)
     \<and> eg_decimals eng = 6 \<and> eg_confirmations eng = 1"
proof -
  have "inflight payout_db = 0" "chain_settlements payout_db = []" "next_id payout_db = 0x10000" "provider_settlements payout_db = []"
    by (simp_all add: payout_db_def empty_db_def inflight_def)
  note empty = this
  have "reserve_base_nonce fake_client (fk_init [] []) payout_db = Inr 0" "cl_settlement_pool fake_client (fk_init [] []) = Inr 0"
    using empty by (simp_all add: reserve_base_nonce_def fake_client_def fk_init_def map_filter_simps bindE_def)
  moreover have "record_batch 0 ''c'' 0 5000000 [(7, ''0x07'', 5000000)] payout_db = Inr batched_db"
    using empty by (simp add: record_batch_def add_settlement_def bindE_def batched_db_def pending_row_sel Let_def)
  ultimately show ?thesis using empty
    by (simp add: maybe_batch_def sample_unsettled bindE_def Let_def) (simp add: payout_engine_def)
qed

lemma payout_start: "engine_initial fk_ok (\<lambda>c. set (fk_sent c)) (payout_engine, payout_db, fk_init [] [])"
proof -
  have "chain_settlements payout_db = []" "provider_settlements payout_db = []" by (simp_all add: payout_db_def empty_db_def)
  moreover have "set (fk_sent (fk_init [] [])) = {}" by (simp add: fk_init_def)
  ultimately show ?thesis using fk_init_ok by (simp add: engine_initial_def)
qed

section \<open>The watcher\<close>

text \<open>A chain of nine blocks with one deposit of five USDC in block 8, and one that has lost every block.\<close>

definition deposit_log :: ChainLog where
  "deposit_log = \<lparr> lg_event_name = ''Deposited'', lg_address = ''0xe'', lg_tx_hash = ''t'', lg_log_index = 0, lg_block_number = 8,
     lg_block_hash = ''h'', lg_args = [(''developer'', JStr ''0xab''), (''amount'', JInt 5000000)] \<rparr>"

definition deposit_chain :: chain_reads where
  "deposit_chain = \<lparr> rd_latest = Inr 9, rd_block = (\<lambda>n. Inr \<lparr> bk_number = n, bk_hash = ''h'', bk_parent_hash = ''h'' \<rparr>),
     rd_logs = (\<lambda>_ _. Inr [deposit_log]) \<rparr>"

definition lost_chain :: chain_reads where
  "lost_chain = \<lparr> rd_latest = Inr 9, rd_block = (\<lambda>_. Inl (ChainError [])), rd_logs = (\<lambda>_ _. Inr []) \<rparr>"

definition sample_watcher :: watcher where
  "sample_watcher = ChainWatcher 6 2 0 None"

definition wallet_developer :: Developer where
  "wallet_developer = (sample_developer 1)\<lparr>dv_wallet_address := Some ''0xab''\<rparr>"

lemma sample_deposit_units: "from_units 5000000 6 = 5"
  by (simp add: from_units_def ctx_numeral)

definition scanned_db :: db where
  "scanned_db = snd (watcher_tick deposit_chain 0 sample_watcher (empty_db\<lparr>developers := [wallet_developer]\<rparr>))"

lemma sample_scanned:
  "chain_events scanned_db = [(event_of deposit_log 0x10000)\<lparr>ev_confirmed := True, ev_processed := True\<rparr>]" "mirrored 1 scanned_db = 5"
  using ctx_numeral
  by (simp_all add: scanned_db_def watcher_tick_def scan_def deposit_chain_def sample_watcher_def ChainWatcher_def empty_db_def
      wallet_developer_def sample_developer_def open_cursor_def tget_def handle_reorg_def ingest_logs_def ingest_def apply_confirmed_def
      apply_one_def apply_effect_def event_wallet_def event_units_def event_of_def deposit_log_def developer_for_def lower_0xab
      deposit_postings_def post_transaction_def put_event_def tput_def mirrored_def Let_def bindE_def sample_deposit_units EFFECTFUL_iff
      side_def on_account_def chain_reason_def net_def py_str_def)

end
