(* ===== verification/Reconcile.thy ===== *)
theory Reconcile
  imports Usage_Billing Settlement_Safety
begin

text \<open>
  The reconciliation of \<open>api/app/chain/reconcile.py\<close> and the on-chain payment provider of
  \<open>api/app/chain/provider.py\<close>.  Sums run over the tables the queries read; a dictionary that is only read with
  \<open>get (k, 0)\<close> is a function.  The lemmas say exactly when a run is clean, that the over-pay check is never
  reached while the settlement engine keeps its rows, and what an inference charge does to the books it compares.
\<close>

section \<open>What is compared\<close>

record Divergence =
  dg_kind :: string
  dg_subject :: string
  dg_expected :: int
  dg_actual :: int
  dg_severity :: string

definition divergence :: "string \<Rightarrow> string \<Rightarrow> int \<Rightarrow> int \<Rightarrow> Divergence" where
  "divergence kind subject expected actual =
     \<lparr> dg_kind = kind, dg_subject = subject, dg_expected = expected, dg_actual = actual, dg_severity = ''critical'' \<rparr>"

definition dg_delta :: "Divergence \<Rightarrow> int" where
  "dg_delta g = dg_actual g - dg_expected g"

text \<open>\<open>{ref: to_units(total) for ref, total in rows}\<close>\<close>

fun units_by_ref :: "nat \<Rightarrow> (uuid \<times> money) list \<Rightarrow> err + (uuid \<times> int) list" where
  "units_by_ref decimals [] = Inr []"
| "units_by_ref decimals ((ref, amount) # rows) =
     bindE (to_units amount decimals) (\<lambda>u. bindE (units_by_ref decimals rows) (\<lambda>rest. Inr ((ref, u) # rest)))"

definition get0 :: "('k \<times> int) list \<Rightarrow> 'k \<Rightarrow> int" where
  "get0 xs k = (case map_of xs k of None \<Rightarrow> 0 | Some x \<Rightarrow> x)"

definition consumed_rows :: "db \<Rightarrow> (uuid \<times> money) list" where
  "consumed_rows d =
     (let es = filter (\<lambda>e. le_account e = la_escrow \<and> le_direction e = ld_debit \<and> le_reason e = ''settle''
                        \<and> le_account_ref e \<noteq> None) (ledger_entries d)
      in map (\<lambda>ref. (ref, sum_list (map le_amount (filter (\<lambda>e. le_account_ref e = Some ref) es))))
           (remdups (List.map_filter le_account_ref es)))"

definition consumed_units_by_dev :: "nat \<Rightarrow> db \<Rightarrow> err + (uuid \<times> int) list" where
  "consumed_units_by_dev decimals d = units_by_ref decimals (consumed_rows d)"

definition confirmed_debited_by_dev :: "db \<Rightarrow> uuid \<Rightarrow> int" where
  "confirmed_debited_by_dev d dev_id =
     sum_list (map (\<lambda>row. case debit_of row of
                            Some (w, x) \<Rightarrow> if wallet_to_dev d (to_lower w) = Some dev_id then x else 0
                          | None \<Rightarrow> 0)
       (filter (\<lambda>row. st_kind row = ck_debit \<and> st_status row = cs_confirmed) (chain_settlements d)))"

definition recorded_settled_by_provider :: "db \<Rightarrow> uuid \<Rightarrow> int" where
  "recorded_settled_by_provider d pid =
     sum_list (map ps_amount_units (filter (\<lambda>r. ps_provider_id r = pid
       \<and> (\<exists>row \<in> set (chain_settlements d). st_id row = ps_settlement_id r \<and> st_status row = cs_confirmed))
       (provider_settlements d)))"

text \<open>The arguments of a \<open>Settled\<close> event, read as the watcher reads those of a deposit.\<close>

definition settled_args :: "ChainEvent \<Rightarrow> err + (string \<times> int)" where
  "settled_args ev =
     (case map_of (ev_args ev) ''provider'' of
        None \<Rightarrow> Inl KeyError
      | Some p \<Rightarrow>
          (case map_of (ev_args ev) ''amount'' of
             None \<Rightarrow> Inl KeyError
           | Some (JInt n) \<Rightarrow> Inr (to_lower (py_str p), n)
           | Some _ \<Rightarrow> Inl TypeError))"

definition observed_settled_by_wallet :: "db \<Rightarrow> err + (string \<Rightarrow> int)" where
  "observed_settled_by_wallet d =
     foldE (\<lambda>ev out. bindE (settled_args ev) (\<lambda>(wallet, n). Inr (out(wallet := out wallet + n))))
       (filter (\<lambda>ev. ev_event_name ev = ''Settled'' \<and> ev_confirmed ev) (chain_events d)) (\<lambda>_. 0)"

definition earned_rows :: "db \<Rightarrow> (uuid \<times> money) list" where
  "earned_rows d =
     map (\<lambda>ref. (ref, account_balance la_provider (Some ref) d))
       (remdups (List.map_filter (\<lambda>e. if le_account e = la_provider then le_account_ref e else None) (ledger_entries d)))"

definition earned_units_by_provider :: "nat \<Rightarrow> db \<Rightarrow> err + (uuid \<times> int) list" where
  "earned_units_by_provider decimals d = units_by_ref decimals (earned_rows d)"

section \<open>A run\<close>

definition check_developer ::
    "'c client \<Rightarrow> nat \<Rightarrow> 'c \<Rightarrow> db \<Rightarrow> (uuid \<times> int) list \<Rightarrow> (uuid \<Rightarrow> int) \<Rightarrow> Developer \<Rightarrow> Divergence list \<Rightarrow> err + Divergence list" where
  "check_developer C decimals c d settled debited dev out =
     (case dv_wallet_address dev of
        None \<Rightarrow> Inr out
      | Some wallet \<Rightarrow>
          (let free = account_balance la_developer (Some (dv_id dev)) d;
               held = account_balance la_escrow (Some (dv_id dev)) d
           in bindE (to_units (ctx (free + held)) decimals) (\<lambda>units.
                let expected = units + get0 settled (dv_id dev) - debited (dv_id dev)
                in bindE (cl_escrow_balance_of C wallet c) (\<lambda>actual.
                     Inr (if actual \<noteq> expected then out @ [divergence ''developer_escrow'' wallet expected actual] else out)))))"

definition check_developers :: "'c client \<Rightarrow> nat \<Rightarrow> 'c \<Rightarrow> db \<Rightarrow> err + Divergence list" where
  "check_developers C decimals c d =
     bindE (consumed_units_by_dev decimals d) (\<lambda>settled.
       foldE (check_developer C decimals c d settled (confirmed_debited_by_dev d)) (developers d) [])"

definition check_provider :: "db \<Rightarrow> (string \<Rightarrow> int) \<Rightarrow> (uuid \<times> int) list \<Rightarrow> Provider \<Rightarrow> Divergence list" where
  "check_provider d observed earned prov =
     (let wallet = to_lower (pr_wallet_address prov);
          rec = recorded_settled_by_provider d (pr_id prov);
          obs = observed wallet;
          top = get0 earned (pr_id prov)
      in (if rec \<noteq> obs then [divergence ''provider_settled'' wallet rec obs] else [])
         @ (if rec > top then [divergence ''provider_overpay'' wallet top rec] else []))"

definition check_providers :: "nat \<Rightarrow> db \<Rightarrow> err + Divergence list" where
  "check_providers decimals d =
     bindE (observed_settled_by_wallet d) (\<lambda>observed.
       bindE (earned_units_by_provider decimals d) (\<lambda>earned.
         Inr (concat (map (check_provider d observed earned) (providers d)))))"

definition reconcile :: "'c client \<Rightarrow> nat \<Rightarrow> 'c \<Rightarrow> db \<Rightarrow> err + Divergence list" where
  "reconcile C decimals c d =
     bindE (check_developers C decimals c d) (\<lambda>devs. bindE (check_providers decimals d) (\<lambda>provs. Inr (devs @ provs)))"

record gauges =
  chain_divergence :: int
  chain_reconcile_ts :: instant

text \<open>A chain error is swallowed and leaves the gauges as they were.\<close>

definition run_reconciliation :: "'c client \<Rightarrow> nat \<Rightarrow> instant \<Rightarrow> 'c \<Rightarrow> db \<Rightarrow> gauges \<Rightarrow> (err + Divergence list) \<times> gauges" where
  "run_reconciliation C decimals now c d g =
     (case reconcile C decimals c d of
        Inl (ChainError _) \<Rightarrow> (Inr [], g)
      | Inl e \<Rightarrow> (Inl e, g)
      | Inr ds \<Rightarrow> (Inr ds, g\<lparr>chain_divergence := int (length ds), chain_reconcile_ts := now\<rparr>))"

section \<open>The on-chain payment provider\<close>

text \<open>The clock is an argument of each read; the cache maps an address to the end of its life and the units.\<close>

record usdc_provider =
  up_decimals :: nat
  up_ttl :: rat
  up_cache :: "string \<Rightarrow> (rat \<times> int) option"

definition USDCPaymentProvider :: "nat \<Rightarrow> rat \<Rightarrow> usdc_provider" where
  "USDCPaymentProvider decimals cache_ttl_seconds =
     \<lparr> up_decimals = decimals, up_ttl = cache_ttl_seconds, up_cache = (\<lambda>_. None) \<rparr>"

definition onchain_escrow_units :: "'c client \<Rightarrow> 'c \<Rightarrow> rat \<Rightarrow> string \<Rightarrow> usdc_provider \<Rightarrow> (err + int) \<times> usdc_provider" where
  "onchain_escrow_units C c now address u =
     (let address = to_lower address in
      case up_cache u address of
        Some (until, units) \<Rightarrow>
          if until > now then (Inr units, u)
          else (case cl_escrow_balance_of C address c of
                  Inl e \<Rightarrow> (Inl e, u)
                | Inr units \<Rightarrow> (Inr units, u\<lparr>up_cache := (up_cache u)(address \<mapsto> (dbl (now + up_ttl u), units))\<rparr>))
      | None \<Rightarrow>
          (case cl_escrow_balance_of C address c of
             Inl e \<Rightarrow> (Inl e, u)
           | Inr units \<Rightarrow> (Inr units, u\<lparr>up_cache := (up_cache u)(address \<mapsto> (dbl (now + up_ttl u), units))\<rparr>)))"

definition invalidate :: "string \<Rightarrow> usdc_provider \<Rightarrow> usdc_provider" where
  "invalidate address u = u\<lparr>up_cache := (up_cache u)(to_lower address := None)\<rparr>"

definition available_balance :: "'c client \<Rightarrow> 'c \<Rightarrow> rat \<Rightarrow> Developer \<Rightarrow> db \<Rightarrow> usdc_provider \<Rightarrow> (err + money) \<times> usdc_provider" where
  "available_balance C c now developer d u =
     (let ledger_free = account_balance la_developer (Some (dv_id developer)) d in
      case dv_wallet_address developer of
        None \<Rightarrow> (Inr ledger_free, u)
      | Some wallet \<Rightarrow>
          (let held = account_balance la_escrow (Some (dv_id developer)) d in
           case onchain_escrow_units C c now wallet u of
             (Inl e, u) \<Rightarrow> (Inl e, u)
           | (Inr units, u) \<Rightarrow> (Inr (min ledger_free (ctx (from_units units (up_decimals u) - held))), u)))"

definition can_afford :: "'c client \<Rightarrow> 'c \<Rightarrow> rat \<Rightarrow> Developer \<Rightarrow> money \<Rightarrow> db \<Rightarrow> usdc_provider \<Rightarrow> (err + bool) \<times> usdc_provider" where
  "can_afford C c now developer amount d u =
     (case available_balance C c now developer d u of
        (Inl e, u) \<Rightarrow> (Inl e, u)
      | (Inr x, u) \<Rightarrow> (Inr (x \<ge> amount), u))"

section \<open>Reading the sums\<close>

lemma to_units_Inr: "to_units x k = Inr u \<longleftrightarrow> 0 \<le> x \<and> u = units_of x k"
  by (auto simp: to_units_def)

lemma units_of_0 [simp]: "units_of 0 k = 0"
  by (simp add: units_of_def ctx_def round_down_def)

lemma units_by_ref_get:
  "units_by_ref k rows = Inr us \<Longrightarrow> get0 us ref = (case map_of rows ref of None \<Rightarrow> 0 | Some x \<Rightarrow> units_of x k)"
  by (induction k rows arbitrary: us rule: units_by_ref.induct) (auto simp: bindE_Inr_iff to_units_Inr get0_def)

lemma units_by_ref_nonneg: "units_by_ref k rows = Inr us \<Longrightarrow> (ref, x) \<in> set rows \<Longrightarrow> 0 \<le> x"
  by (induction k rows arbitrary: us rule: units_by_ref.induct) (auto simp: bindE_Inr_iff to_units_Inr)

lemma units_by_ref_total: "(\<And>ref x. (ref, x) \<in> set rows \<Longrightarrow> 0 \<le> x) \<Longrightarrow> \<exists>us. units_by_ref k rows = Inr us"
  by (induction k rows rule: units_by_ref.induct) (fastforce simp: to_units_def)+

text \<open>What a developer's jobs consumed, and what a provider earned, in units.\<close>

definition consumed :: "db \<Rightarrow> uuid \<Rightarrow> money" where
  "consumed d dev =
     sum_list (map le_amount (filter (\<lambda>e. le_account e = la_escrow \<and> le_direction e = ld_debit \<and> le_reason e = ''settle''
       \<and> le_account_ref e = Some dev) (ledger_entries d)))"

lemma map_of_image: "map_of (map (\<lambda>r. (r, f r)) rs) k = (if k \<in> set rs then Some (f k) else None)"
  by (induction rs) auto

lemma in_map_filter: "y \<in> set (List.map_filter f xs) \<longleftrightarrow> (\<exists>x \<in> set xs. f x = Some y)"
  by (induction xs) (auto simp: List.map_filter_simps split: option.splits)

lemma consumed_get:
  assumes "consumed_units_by_dev k d = Inr us"
  shows "get0 us dev = units_of (consumed d dev) k"
proof -
  let ?es = "filter (\<lambda>e. le_account e = la_escrow \<and> le_direction e = ld_debit \<and> le_reason e = ''settle'' \<and> le_account_ref e \<noteq> None) (ledger_entries d)"
  have "filter (\<lambda>e. le_account_ref e = Some dev) ?es = filter (\<lambda>e. le_account e = la_escrow \<and> le_direction e = ld_debit \<and> le_reason e = ''settle'' \<and> le_account_ref e = Some dev) (ledger_entries d)"
    by (simp add: filter_filter) (rule filter_cong, auto)
  moreover have "filter (\<lambda>e. le_account_ref e = Some dev) ?es = []" if "dev \<notin> set (List.map_filter le_account_ref ?es)"
    using that unfolding in_map_filter filter_empty_conv by blast
  ultimately show ?thesis
    using units_by_ref_get [OF assms [unfolded consumed_units_by_dev_def], of dev]
    by (auto simp: consumed_rows_def Let_def map_of_image consumed_def split: if_splits)
qed

lemma no_row_no_balance:
  assumes "(pid, account_balance la_provider (Some pid) d) \<notin> set (earned_rows d)"
  shows "account_balance la_provider (Some pid) d = 0"
proof -
  have "\<not> on_account la_provider (Some pid) e" if "e \<in> set (ledger_entries d)" for e
    using that assms by (auto simp: on_account_def earned_rows_def image_iff in_map_filter)
  then have "filter (\<lambda>e. on_account la_provider (Some pid) e \<and> le_direction e = dir) (ledger_entries d) = []" for dir
    by (auto simp: filter_empty_conv)
  then show ?thesis by (simp add: account_balance_def sum_side_def)
qed

lemma earned_get:
  assumes "earned_units_by_provider k d = Inr us"
  shows "get0 us pid = units_of (account_balance la_provider (Some pid) d) k"
  using units_by_ref_get [OF assms [unfolded earned_units_by_provider_def], of pid] no_row_no_balance [of pid d]
  by (auto simp: earned_rows_def map_of_image image_iff split: if_splits)

section \<open>When a run is clean\<close>

text \<open>The books agree with the chain for a developer, and for a provider.\<close>

definition developer_agrees :: "'c client \<Rightarrow> nat \<Rightarrow> 'c \<Rightarrow> db \<Rightarrow> Developer \<Rightarrow> bool" where
  "developer_agrees C k c d dev \<longleftrightarrow>
     (case dv_wallet_address dev of
        None \<Rightarrow> True
      | Some wallet \<Rightarrow>
          cl_escrow_balance_of C wallet c =
            Inr (units_of (ctx (account_balance la_developer (Some (dv_id dev)) d + account_balance la_escrow (Some (dv_id dev)) d)) k
                 + units_of (consumed d (dv_id dev)) k - confirmed_debited_by_dev d (dv_id dev)))"

definition provider_agrees :: "nat \<Rightarrow> db \<Rightarrow> (string \<Rightarrow> int) \<Rightarrow> Provider \<Rightarrow> bool" where
  "provider_agrees k d observed prov \<longleftrightarrow>
     recorded_settled_by_provider d (pr_id prov) = observed (to_lower (pr_wallet_address prov))
     \<and> recorded_settled_by_provider d (pr_id prov) \<le> units_of (account_balance la_provider (Some (pr_id prov)) d) k"

lemma check_developer_step:
  assumes "check_developer C k c d us (confirmed_debited_by_dev d) dev out = Inr out'" "consumed_units_by_dev k d = Inr us"
  shows "\<exists>xs. out' = out @ xs \<and> (xs = [] \<longleftrightarrow> developer_agrees C k c d dev) \<and> (\<forall>g \<in> set xs. dg_kind g = ''developer_escrow'')"
  using assms(1) unfolding check_developer_def developer_agrees_def
  by (cases "dv_wallet_address dev")
    (auto simp: Let_def bindE_Inr_iff to_units_Inr consumed_get [OF assms(2)] divergence_def split: if_splits)

lemma check_developers_fold:
  assumes "foldE (check_developer C k c d us (confirmed_debited_by_dev d)) devs out = Inr out'" "consumed_units_by_dev k d = Inr us"
  shows "\<exists>xs. out' = out @ xs \<and> (xs = [] \<longleftrightarrow> (\<forall>dev \<in> set devs. developer_agrees C k c d dev)) \<and> (\<forall>g \<in> set xs. dg_kind g = ''developer_escrow'')"
  using assms(1)
proof (induction devs arbitrary: out)
  case (Cons dev devs)
  then obtain out1 where s: "check_developer C k c d us (confirmed_debited_by_dev d) dev out = Inr out1"
    and r: "foldE (check_developer C k c d us (confirmed_debited_by_dev d)) devs out1 = Inr out'"
    by (auto simp: bindE_Inr_iff)
  from check_developer_step [OF s assms(2)] Cons.IH [OF r] show ?case by fastforce
qed simp

lemma reconcile_parts:
  assumes "reconcile C k c d = Inr ds"
  obtains us observed earned devs where
    "consumed_units_by_dev k d = Inr us" "observed_settled_by_wallet d = Inr observed" "earned_units_by_provider k d = Inr earned"
    "ds = devs @ concat (map (check_provider d observed earned) (providers d))"
    "devs = [] \<longleftrightarrow> (\<forall>dev \<in> set (developers d). developer_agrees C k c d dev)"
    "\<forall>g \<in> set devs. dg_kind g = ''developer_escrow''"
proof -
  obtain us devs observed earned where p: "consumed_units_by_dev k d = Inr us" "observed_settled_by_wallet d = Inr observed"
    "earned_units_by_provider k d = Inr earned"
    "foldE (check_developer C k c d us (confirmed_debited_by_dev d)) (developers d) [] = Inr devs"
    "ds = devs @ concat (map (check_provider d observed earned) (providers d))"
    using assms by (auto simp: reconcile_def check_developers_def check_providers_def bindE_Inr_iff)
  with check_developers_fold [OF p(4) p(1)] that show thesis by auto
qed

lemma reconcile_clean:
  assumes "reconcile C k c d = Inr ds"
  shows "ds = [] \<longleftrightarrow> (\<forall>dev \<in> set (developers d). developer_agrees C k c d dev)
           \<and> (\<exists>observed. observed_settled_by_wallet d = Inr observed \<and> (\<forall>prov \<in> set (providers d). provider_agrees k d observed prov))"
proof -
  obtain us observed earned devs where p: "consumed_units_by_dev k d = Inr us" "observed_settled_by_wallet d = Inr observed"
    "earned_units_by_provider k d = Inr earned"
    "ds = devs @ concat (map (check_provider d observed earned) (providers d))"
    "devs = [] \<longleftrightarrow> (\<forall>dev \<in> set (developers d). developer_agrees C k c d dev)"
    "\<forall>g \<in> set devs. dg_kind g = ''developer_escrow''"
    by (rule reconcile_parts [OF assms])
  have "check_provider d observed earned prov = [] \<longleftrightarrow> provider_agrees k d observed prov" for prov
    by (auto simp: check_provider_def provider_agrees_def Let_def earned_get [OF p(3)])
  with p show ?thesis by auto
qed

text \<open>The rows of the settlement engine never trip the over-pay check.\<close>

lemma sum_list_filter_le:
  fixes f :: "'x \<Rightarrow> int"
  assumes "\<And>x. x \<in> set xs \<Longrightarrow> 0 \<le> f x" "\<And>x. x \<in> set xs \<Longrightarrow> P x \<Longrightarrow> Q x"
  shows "sum_list (map f (filter P xs)) \<le> sum_list (map f (filter Q xs))"
  using assms by (induction xs) (auto simp: add_increasing)

lemma recorded_le_earned:
  assumes "rows_ok k d" "0 \<le> account_balance la_provider (Some pid) d"
  shows "recorded_settled_by_provider d pid \<le> units_of (account_balance la_provider (Some pid) d) k"
proof -
  have pos: "0 \<le> ps_amount_units r" if "r \<in> set (provider_settlements d)" for r
    using assms(1) that unfolding rows_ok_def by force
  have "recorded_settled_by_provider d pid \<le> reserved_by_provider d pid"
    unfolding recorded_settled_by_provider_def reserved_by_provider_def
    using pos by (intro sum_list_filter_le) (auto simp: LIVE_def)
  also have "\<dots> \<le> max 0 (units_of (account_balance la_provider (Some pid) d) k)"
    using assms(1) by (simp add: rows_ok_def earned_units_def)
  also have "0 \<le> units_of (account_balance la_provider (Some pid) d) k"
    using assms(2) round_sig_nonneg [of 10 28 "account_balance la_provider (Some pid) d * 10 ^ k"]
    by (simp add: units_of_def ctx_def round_down_def)
  finally show ?thesis by simp
qed

lemma no_overpay:
  assumes "rows_ok k d" "reconcile C k c d = Inr ds" "g \<in> set ds"
  shows "dg_kind g \<noteq> ''provider_overpay''"
proof -
  obtain us observed earned devs where p: "consumed_units_by_dev k d = Inr us" "observed_settled_by_wallet d = Inr observed"
    "earned_units_by_provider k d = Inr earned"
    "ds = devs @ concat (map (check_provider d observed earned) (providers d))"
    "devs = [] \<longleftrightarrow> (\<forall>dev \<in> set (developers d). developer_agrees C k c d dev)"
    "\<forall>g \<in> set devs. dg_kind g = ''developer_escrow''"
    by (rule reconcile_parts [OF assms(2)])
  have "recorded_settled_by_provider d pid \<le> get0 earned pid" for pid
  proof (cases "0 \<le> account_balance la_provider (Some pid) d")
    case True
    then show ?thesis using recorded_le_earned [OF assms(1)] earned_get [OF p(3)] by simp
  next
    case False
    have "(pid, account_balance la_provider (Some pid) d) \<notin> set (earned_rows d)"
      using units_by_ref_nonneg [OF p(3) [unfolded earned_units_by_provider_def]] False by force
    then have "account_balance la_provider (Some pid) d = 0" by (rule no_row_no_balance)
    then show ?thesis using False by simp
  qed
  then have "\<not> get0 earned pid < recorded_settled_by_provider d pid" for pid by (simp add: not_less)
  then have "dg_kind g = ''provider_settled''" if "g \<in> set (check_provider d observed earned prov)" for prov
    using that by (simp add: check_provider_def Let_def divergence_def split: if_splits)
  then show ?thesis using p(4,6) assms(3) by auto
qed

section \<open>An inference charge is not a job settlement\<close>

lemma mk_entries_reason: "e \<in> set (mk_entries now grp reason jid tx k ps) \<Longrightarrow> le_reason e = reason"
  by (induction ps arbitrary: k) auto

lemma consumed_other:
  assumes "post_transaction now ps reason jid tx d = Inr (grp, d')" "reason \<noteq> ''settle''"
  shows "consumed d' dev = consumed d dev"
proof -
  have "filter (\<lambda>e. le_account e = la_escrow \<and> le_direction e = ld_debit \<and> le_reason e = ''settle'' \<and> le_account_ref e = Some dev)
          (mk_entries now (next_id d) reason jid tx (Suc (next_id d)) ps) = []"
    using assms(2) by (auto simp: filter_empty_conv dest: mk_entries_reason)
  then show ?thesis unfolding post_transaction_Inr(3) [OF assms(1)] consumed_def by simp
qed

lemma settle_consumed:
  assumes "settle_reservation now dev p held actual s d = Inr (c, d')"
  shows "consumed d' x = consumed d x" "ledger_only d d'"
proof -
  obtain e where e: "return_hold now dev held d = Inr e" and c: "charge_usage now dev p actual s None ''inference_usage'' e = Inr (c, d')"
    using assms by (auto simp: settle_reservation_def bindE_Inr_iff)
  have "consumed e x = consumed d x"
    using e by (auto simp: return_hold_def Let_def bindE_Inr_iff intro: consumed_other split: if_splits)
  moreover have "consumed d' x = consumed e x"
    using c by (auto simp: charge_usage_cases Let_def bindE_Inr_iff intro: consumed_other split: if_splits)
  ultimately show "consumed d' x = consumed d x" by simp
  show "ledger_only d d'" using return_hold_Inr(1) [OF e] charge_usage_Inr(2) [OF c] ledger_only_trans by blast
qed

lemma units_of_exact:
  assumes "on_grid 6 x" "\<bar>x\<bar> < 10 ^ 14"
  shows "of_int (units_of x 6) = x * 10 ^ 6"
proof -
  obtain n where n: "x * 10 ^ 6 = of_int n" using assms(1) by (elim on_gridE)
  have "on_grid 0 (x * 10 ^ 6)" using n by (intro on_gridI [of _ _ n]) simp
  moreover have "\<bar>x * 10 ^ 6\<bar> < 10 ^ 20" using assms(2) by (simp add: abs_mult)
  ultimately have "ctx (x * 10 ^ 6) = x * 10 ^ 6" by (rule ctx_grid) simp
  then show ?thesis unfolding units_of_def by (simp only: n round_down_int)
qed

text \<open>The developer's check counts escrow debits of reason \<open>settle\<close> only, and the engine debits nothing else on the chain, so
  every inference charge opens a gap of its own size.\<close>

lemma usage_unmatched:
  assumes r: "settle_reservation now (dv_id dev) p held actual s d = Inr (c, d')"
    and s: "valid_settings s" and c: "0 < c" "c < 10 ^ 13" and w: "dv_wallet_address dev = Some wallet"
    and x: "x = account_balance la_developer (Some (dv_id dev)) d + account_balance la_escrow (Some (dv_id dev)) d"
      "on_grid 6 x" "\<bar>x\<bar> < 10 ^ 13"
    and ag: "developer_agrees C 6 ch d dev"
  shows "\<not> developer_agrees C 6 ch d' dev"
proof -
  let ?k = "dv_id dev"
  obtain e where e: "return_hold now ?k held d = Inr e" and ch: "charge_usage now ?k p actual s None ''inference_usage'' e = Inr (c, d')"
    using r by (auto simp: settle_reservation_def bindE_Inr_iff)
  have small: "c < 10 ^ 16" using c(2) by simp
  have x': "account_balance la_developer (Some ?k) d' + account_balance la_escrow (Some ?k) d' = x - c"
    by (simp add: x(1) charge_usage_balance(1) [OF ch s small] return_hold_Inr(2) [OF e])
  have "on_grid 6 c" using charge_usage_Inr(1) [OF ch] by (simp add: quantize_usdc_def max_def)
  then have g': "on_grid 6 (x - c)" using x(2) on_grid_diff by blast
  have b: "\<bar>x\<bar> < 10 ^ 14" "\<bar>x - c\<bar> < 10 ^ 14" using x(3) c by (simp_all add: abs_if split: if_splits)
  have "\<bar>x\<bar> < 10 ^ 20" "\<bar>x - c\<bar> < 10 ^ 20" using b by simp_all
  then have "ctx x = x" "ctx (x - c) = x - c" using ctx_grid [of 6] x(2) g' by simp_all
  moreover have "(of_int (units_of x 6) :: rat) \<noteq> of_int (units_of (x - c) 6)"
    using units_of_exact [OF x(2) b(1)] units_of_exact [OF g' b(2)] c(1) by simp
  ultimately have "units_of (ctx x) 6 \<noteq> units_of (ctx (x - c)) 6" by auto
  moreover obtain rows n where "d' = d\<lparr>ledger_entries := ledger_entries d @ rows, next_id := next_id d + n\<rparr>"
    using settle_consumed(2) [OF r] unfolding ledger_only_def by blast
  then have same: "developers d' = developers d" "chain_settlements d' = chain_settlements d" by simp_all
  then have "wallet_to_dev d' = wallet_to_dev d" by (intro ext) (simp only: wallet_to_dev_def)
  then have "confirmed_debited_by_dev d' ?k = confirmed_debited_by_dev d ?k"
    by (simp only: confirmed_debited_by_dev_def same)
  ultimately show ?thesis
    using ag w x' settle_consumed(1) [OF r] by (auto simp: developer_agrees_def x(1) [symmetric])
qed

section \<open>The submission gate\<close>

lemma available_conservative:
  assumes "available_balance C c now developer d u = (Inr x, u')"
  shows "x \<le> account_balance la_developer (Some (dv_id developer)) d"
    "dv_wallet_address developer = Some wallet \<Longrightarrow>
       \<exists>units. onchain_escrow_units C c now wallet u = (Inr units, u')
         \<and> x \<le> ctx (from_units units (up_decimals u') - account_balance la_escrow (Some (dv_id developer)) d)"
  using assms by (auto simp: available_balance_def Let_def split: option.splits sum.splits prod.splits)

text \<open>A cached answer was read from the chain less than one lifetime ago: \<open>reads\<close> is the history of the chain reads.\<close>

definition cache_ok :: "(string \<times> rat \<times> int) set \<Rightarrow> usdc_provider \<Rightarrow> bool" where
  "cache_ok reads u \<longleftrightarrow>
     (\<forall>a until units. up_cache u a = Some (until, units) \<longrightarrow> (\<exists>t. (a, t, units) \<in> reads \<and> until = dbl (t + up_ttl u)))"

lemma cached_read:
  assumes "cache_ok reads u" "onchain_escrow_units C c now address u = (Inr units, u')"
  shows "cache_ok (insert (to_lower address, now, units) reads) u'"
    "cl_escrow_balance_of C (to_lower address) c = Inr units
       \<or> u' = u \<and> (\<exists>t. (to_lower address, t, units) \<in> reads \<and> now < dbl (t + up_ttl u))"
  using assms
  by (fastforce simp: onchain_escrow_units_def cache_ok_def Let_def split: option.splits if_splits sum.splits prod.splits)+

end
