(* ===== verification/Audit_Chain.thy ===== *)
theory Audit_Chain
  imports Disputes Systems
begin

text \<open>
  The hash-chained audit log of \<open>api/app/audit_log.py\<close>.  An entry commits to the bytes of its payload, which
  contain the hash of the entry before it.  The lemmas say that appending keeps a verified log verified, that two
  verified logs of one length that end in the same hash carry the same payloads (or exhibit two different payloads
  with one SHA-256 hash), and that removing the newest entries is not noticed.
\<close>

definition GENESIS :: string where
  "GENESIS = replicate 64 (CHR ''0'')"

definition entry_payload :: "int \<Rightarrow> string \<Rightarrow> jdict \<Rightarrow> string \<Rightarrow> string" where
  "entry_payload seq event data prev_hash =
     canonical_evidence [(''seq'', JInt seq), (''event'', JStr event), (''data'', JObj data), (''prev_hash'', JStr prev_hash)]"

definition entry_hash :: "int \<Rightarrow> string \<Rightarrow> jdict \<Rightarrow> string \<Rightarrow> string" where
  "entry_hash seq event data prev_hash = sha256 (entry_payload seq event data prev_hash)"

definition in_order :: "db \<Rightarrow> AuditLogEntry list" where
  "in_order d = sort_key al_seq (audit_log d)"

definition append_audit :: "string \<Rightarrow> jdict \<Rightarrow> db \<Rightarrow> AuditLogEntry \<times> db" where
  "append_audit event data d =
     (let (seq, prev_hash) = (if audit_log d = [] then (1, GENESIS)
                              else (al_seq (last (in_order d)) + 1, al_entry_hash (last (in_order d))));
          entry = \<lparr> al_id = next_id d, al_seq = seq, al_event = event, al_data = data, al_prev_hash = prev_hash,
                    al_entry_hash = entry_hash seq event data prev_hash \<rparr>
      in (entry, d\<lparr>audit_log := audit_log d @ [entry], next_id := Suc (next_id d)\<rparr>))"

fun verify_entries :: "string \<Rightarrow> int \<Rightarrow> AuditLogEntry list \<Rightarrow> bool" where
  "verify_entries prev expected_seq [] = True"
| "verify_entries prev expected_seq (e # es) =
     (if al_seq e \<noteq> expected_seq \<or> al_prev_hash e \<noteq> prev then False
      else if entry_hash (al_seq e) (al_event e) (al_data e) (al_prev_hash e) \<noteq> al_entry_hash e then False
      else verify_entries (al_entry_hash e) (expected_seq + 1) es)"

definition verify_audit_chain :: "db \<Rightarrow> bool" where
  "verify_audit_chain d = verify_entries GENESIS 1 (in_order d)"

definition audit_count :: "db \<Rightarrow> int" where
  "audit_count d = int (length (audit_log d))"

section \<open>Facts\<close>

definition payload_of :: "AuditLogEntry \<Rightarrow> string" where
  "payload_of e = entry_payload (al_seq e) (al_event e) (al_data e) (al_prev_hash e)"

definition chain_head :: "db \<Rightarrow> string" where
  "chain_head d = (if audit_log d = [] then GENESIS else al_entry_hash (last (in_order d)))"

lemma verify_append:
  "verify_entries p k (es @ [e]) \<longleftrightarrow> verify_entries p k es \<and> al_seq e = k + int (length es)
     \<and> al_prev_hash e = (if es = [] then p else al_entry_hash (last es)) \<and> sha256 (payload_of e) = al_entry_hash e"
  by (induction es arbitrary: p k) (auto simp: entry_hash_def payload_of_def)

lemma verify_seqs: "verify_entries p k es \<Longrightarrow> e \<in> set es \<Longrightarrow> al_seq e < k + int (length es)"
  by (induction es arbitrary: p k) (fastforce split: if_splits)+

lemma in_order_Nil [simp]: "in_order d = [] \<longleftrightarrow> audit_log d = []"
  by (simp add: in_order_def flip: length_0_conv)

lemma in_order_props: "set (in_order d) = set (audit_log d)" "length (in_order d) = length (audit_log d)" "sorted (map al_seq (in_order d))"
  by (simp_all add: in_order_def)

lemma insort_snoc: "f x \<le> f e \<Longrightarrow> insort_key f x (zs @ [e]) = insort_key f x zs @ [e]"
  by (induction zs) auto

lemma sort_snoc: "\<forall>x \<in> set xs. f x < f e \<Longrightarrow> sort_key f (xs @ [e]) = sort_key f xs @ [e]"
  by (induction xs) (auto intro: insort_snoc)

lemma in_order_snoc:
  "\<forall>x \<in> set (audit_log d). al_seq x < al_seq e \<Longrightarrow> in_order (d\<lparr>audit_log := audit_log d @ [e], next_id := n\<rparr>) = in_order d @ [e]"
  by (simp add: in_order_def sort_snoc)

text \<open>Appending keeps the chain and moves its head to the new entry.\<close>

lemma append_verified:
  assumes "verify_audit_chain d" "append_audit event data d = (entry, d')"
  shows "verify_audit_chain d'" "in_order d' = in_order d @ [entry]" "chain_head d' = al_entry_hash entry"
proof -
  have v: "verify_entries GENESIS 1 (in_order d)" using assms(1) by (simp add: verify_audit_chain_def)
  have seq: "al_seq entry = 1 + int (length (in_order d))"
  proof (cases "audit_log d = []")
    case True
    then show ?thesis using assms(2) by (auto simp: append_audit_def Let_def in_order_def)
  next
    case False
    then obtain xs x where x: "in_order d = xs @ [x]" by (metis in_order_Nil rev_exhaust)
    then show ?thesis using v False assms(2) by (auto simp: append_audit_def Let_def verify_append)
  qed
  have prev: "al_prev_hash entry = (if in_order d = [] then GENESIS else al_entry_hash (last (in_order d)))"
    "sha256 (payload_of entry) = al_entry_hash entry" "d' = d\<lparr>audit_log := audit_log d @ [entry], next_id := Suc (next_id d)\<rparr>"
    using assms(2) by (auto simp: append_audit_def Let_def payload_of_def entry_hash_def split: prod.splits if_splits)
  have "\<forall>x \<in> set (audit_log d). al_seq x < al_seq entry" using verify_seqs [OF v] seq by (simp add: in_order_props)
  then show o: "in_order d' = in_order d @ [entry]" unfolding prev(3) by (rule in_order_snoc)
  show "verify_audit_chain d'" using v seq prev(1,2) by (simp add: verify_audit_chain_def o verify_append)
  show "chain_head d' = al_entry_hash entry" by (simp add: chain_head_def o) (simp add: prev(3))
qed

text \<open>The bytes of a payload determine the hash it links to, when its position is known: the link is a fixed number
  of characters from the end.\<close>

definition is_digest :: "string \<Rightarrow> bool" where
  "is_digest h \<longleftrightarrow> length h = 64 \<and> set h \<subseteq> set hex_chars"

lemma digests: "is_digest GENESIS" "is_digest (sha256 m)"
  using sha256_chars by (simp_all add: is_digest_def GENESIS_def hex_chars_def)

lemma json_string_hex: "set h \<subseteq> set hex_chars \<Longrightarrow> json_string h = char_of (34::int) # h @ [char_of (34::int)]"
proof -
  have "json_escape c = [c]" if "c \<in> set hex_chars" for c using that by (auto simp: hex_chars_def json_escape_def Let_def)
  then have "concat (map json_escape h) = h" if "set h \<subseteq> set hex_chars" for h using that by (induction h) auto
  then show "set h \<subseteq> set hex_chars \<Longrightarrow> json_string h = char_of (34::int) # h @ [char_of (34::int)]" by (simp add: json_string_def)
qed

lemma payload_layout:
  "entry_payload k event data h
     = (''{'' @ json_string ''data'' @ '':'' @ dumps (JObj data) @ '','' @ json_string ''event'' @ '':'' @ json_string event @ '',''
        @ json_string ''prev_hash'' @ '':'') @ json_string h @ ('','' @ json_string ''seq'' @ '':'' @ int_str k @ ''}'')"
proof -
  have "sort_pairs [(''seq'', a), (''event'', b), (''data'', c), (''prev_hash'', h)]
      = [(''data'', c), (''event'', b), (''prev_hash'', h), (''seq'', a)]" for a b c h :: string
    by (simp add: sort_pairs_def)
  then show ?thesis by (simp add: entry_payload_def canonical_evidence_def del: dumps.simps(7)) (simp add: dumps.simps(7))
qed

lemma middle_eq: "a @ j @ b = a' @ j' @ b \<Longrightarrow> length j = length j' \<Longrightarrow> j = j'"
  by (metis append_assoc append_eq_append_conv)

lemma payload_link:
  assumes "entry_payload k event data h = entry_payload k event' data' h'" "is_digest h" "is_digest h'"
  shows "h = h'"
proof -
  have q: "json_string h = char_of (34::int) # h @ [char_of (34::int)]" "json_string h' = char_of (34::int) # h' @ [char_of (34::int)]"
    using assms(2,3) json_string_hex by (auto simp: is_digest_def)
  then have "length (json_string h) = length (json_string h')" using assms(2,3) by (simp add: is_digest_def)
  with assms(1) have "json_string h = json_string h'" unfolding payload_layout by (rule middle_eq)
  then show ?thesis using q by simp
qed

text \<open>The newest hash pins every payload below it, up to a collision between two named payloads.\<close>

lemma verify_prev_digest:
  assumes "verify_entries p k (es @ [e])" "is_digest p"
  shows "is_digest (al_prev_hash e)"
proof -
  have es: "verify_entries p k es" and l: "al_prev_hash e = (if es = [] then p else al_entry_hash (last es))"
    using assms(1) by (simp_all add: verify_append)
  show ?thesis
  proof (cases es rule: rev_cases)
    case (snoc xs x)
    then have "al_entry_hash x = sha256 (payload_of x)" using es by (simp add: verify_append)
    then show ?thesis using l snoc digests(2) by simp
  qed (use l assms(2) in simp)
qed

lemma head_pins_entries:
  assumes "is_digest p" "verify_entries p k es" "verify_entries p k fs" "length es = length fs"
    and "es \<noteq> [] \<Longrightarrow> al_entry_hash (last es) = al_entry_hash (last fs)"
  shows "(map payload_of es = map payload_of fs \<and> map al_entry_hash es = map al_entry_hash fs)
    \<or> (\<exists>i < length es. payload_of (es ! i) \<noteq> payload_of (fs ! i) \<and> sha256 (payload_of (es ! i)) = sha256 (payload_of (fs ! i)))"
  using assms(2-)
proof (induction es arbitrary: fs rule: rev_induct)
  case (snoc e es)
  obtain gs f where fs: "fs = gs @ [f]" "length gs = length es"
    using snoc.prems(3) by (cases fs rule: rev_cases) auto
  have v: "verify_entries p k es" "verify_entries p k gs" "sha256 (payload_of e) = al_entry_hash e" "sha256 (payload_of f) = al_entry_hash f"
    and s: "al_seq e = k + int (length es)" "al_seq f = k + int (length gs)"
    and l: "al_prev_hash e = (if es = [] then p else al_entry_hash (last es))" "al_prev_hash f = (if gs = [] then p else al_entry_hash (last gs))"
    using snoc.prems(1,2) by (simp_all add: fs verify_append)
  have same: "al_entry_hash e = al_entry_hash f" using snoc.prems(4) by (simp add: fs)
  show ?case
  proof (cases "payload_of e = payload_of f")
    case True
    have "is_digest (al_prev_hash e)" "is_digest (al_prev_hash f)"
      using verify_prev_digest [OF _ assms(1)] snoc.prems(1,2) by (auto simp: fs)
    then have "al_prev_hash e = al_prev_hash f"
      using True s fs(2) by (auto simp: payload_of_def intro: payload_link)
    then have "es \<noteq> [] \<Longrightarrow> al_entry_hash (last es) = al_entry_hash (last gs)" using l fs(2) by auto
    from snoc.IH [OF v(1,2) fs(2) [symmetric] this] show ?thesis
    proof (rule disjE)
      assume "map payload_of es = map payload_of gs \<and> map al_entry_hash es = map al_entry_hash gs"
      then show ?thesis using True same fs by (intro disjI1) simp
    next
      assume "\<exists>i < length es. payload_of (es ! i) \<noteq> payload_of (gs ! i) \<and> sha256 (payload_of (es ! i)) = sha256 (payload_of (gs ! i))"
      then obtain i where "i < length es" "payload_of (es ! i) \<noteq> payload_of (gs ! i)" "sha256 (payload_of (es ! i)) = sha256 (payload_of (gs ! i))"
        by blast
      then show ?thesis using fs by (intro disjI2 exI [of _ i]) (simp add: nth_append)
    qed
  next
    case False
    then show ?thesis using same v(3,4) fs by (intro disjI2 exI [of _ "length es"]) (simp add: nth_append)
  qed
qed simp

lemma chain_pinned:
  assumes "verify_audit_chain d" "verify_audit_chain d'" "audit_count d = audit_count d'" "chain_head d = chain_head d'"
  shows "(map payload_of (in_order d) = map payload_of (in_order d') \<and> map al_entry_hash (in_order d) = map al_entry_hash (in_order d'))
    \<or> (\<exists>i < length (audit_log d). payload_of (in_order d ! i) \<noteq> payload_of (in_order d' ! i)
         \<and> sha256 (payload_of (in_order d ! i)) = sha256 (payload_of (in_order d' ! i)))"
proof -
  have "in_order d \<noteq> [] \<Longrightarrow> al_entry_hash (last (in_order d)) = al_entry_hash (last (in_order d'))"
    using assms(3,4) by (auto simp: chain_head_def audit_count_def split: if_splits)
  from head_pins_entries [OF digests(1) _ _ _ this, of 1] assms show ?thesis
    by (simp add: verify_audit_chain_def audit_count_def in_order_props)
qed

text \<open>A log cut off at any point still verifies.\<close>

lemma verify_take: "verify_entries p k es \<Longrightarrow> verify_entries p k (take n es)"
  by (induction es arbitrary: p k n) (auto simp: take_Cons split: nat.split)

lemma truncation_unnoticed:
  assumes "verify_audit_chain d"
  shows "verify_audit_chain (d\<lparr>audit_log := take n (in_order d)\<rparr>)"
proof -
  have "sorted (map al_seq (take n (in_order d)))" using in_order_props(3) [of d] sorted_wrt_take by (metis take_map)
  then have "in_order (d\<lparr>audit_log := take n (in_order d)\<rparr>) = take n (in_order d)"
    by (simp add: in_order_def sort_key_id_if_sorted)
  then show ?thesis using verify_take assms by (simp add: verify_audit_chain_def)
qed

end
