(* ===== verification/Moderation.thy ===== *)
theory Moderation
  imports Stdlib
begin

text \<open>
  The prompt screening of \<open>api/app/moderation.py\<close>.  A prompt is a string of code points below 256, as everywhere in
  the model; \<open>base_of\<close> is what compatibility decomposition, the removal of combining marks and lower-casing leave
  of one code point, with a space for everything that is not a letter or a digit.  The folded text is a sequence of
  non-empty words of letters and digits with one space between two, and is represented by its words: a pattern
  anchored at word boundaries then speaks about whole words.
\<close>

section \<open>Verdicts\<close>

record Verdict =
  vd_allowed :: bool
  vd_category :: "string option"

definition refuse :: "string \<Rightarrow> Verdict" where
  "refuse category = \<lparr> vd_allowed = False, vd_category = Some category \<rparr>"

definition allow :: Verdict where
  "allow = \<lparr> vd_allowed = True, vd_category = None \<rparr>"

section \<open>Normalisation\<close>

definition latin_base :: "int \<Rightarrow> string" where
  "latin_base n =
     (if 192 \<le> n \<and> n \<le> 197 \<or> 224 \<le> n \<and> n \<le> 229 \<or> n = 170 then ''a''
      else if n = 199 \<or> n = 231 then ''c''
      else if 200 \<le> n \<and> n \<le> 203 \<or> 232 \<le> n \<and> n \<le> 235 then ''e''
      else if 204 \<le> n \<and> n \<le> 207 \<or> 236 \<le> n \<and> n \<le> 239 then ''i''
      else if n = 209 \<or> n = 241 then ''n''
      else if 210 \<le> n \<and> n \<le> 214 \<or> 242 \<le> n \<and> n \<le> 246 \<or> n = 186 then ''o''
      else if 217 \<le> n \<and> n \<le> 220 \<or> 249 \<le> n \<and> n \<le> 252 then ''u''
      else if n = 221 \<or> n = 253 \<or> n = 255 then ''y''
      else if n = 185 then ''1'' else if n = 178 then ''2'' else if n = 179 then ''3''
      else if n = 188 then ''1 4'' else if n = 189 then ''1 2'' else if n = 190 then ''3 4''
      else '' '')"

definition is_digit :: "char \<Rightarrow> bool" where
  "is_digit c = (let n = of_char c :: int in 48 \<le> n \<and> n \<le> 57)"

definition base_of :: "char \<Rightarrow> string" where
  "base_of c =
     (let n = of_char c :: int in
      if 65 \<le> n \<and> n \<le> 90 then [char_of (n + 32)]
      else if 97 \<le> n \<and> n \<le> 122 \<or> is_digit c then [c]
      else latin_base n)"

definition fold_words :: "string \<Rightarrow> string list" where
  "fold_words text = filter (\<lambda>w. w \<noteq> []) (split_on (CHR '' '') (concat (map base_of text)))"

definition leet :: "char \<Rightarrow> char" where
  "leet c =
     (if c = CHR ''0'' then CHR ''o'' else if c = CHR ''1'' then CHR ''i'' else if c = CHR ''3'' then CHR ''e''
      else if c = CHR ''4'' then CHR ''a'' else if c = CHR ''5'' then CHR ''s'' else if c = CHR ''7'' then CHR ''t'' else c)"

text \<open>The leading run of one-letter words.  The substitution replaces a maximal run of three or more of them by the
  word they spell.\<close>

definition single :: "string \<Rightarrow> bool" where
  "single w \<longleftrightarrow> length w = 1"

fun rejoin_from :: "string list \<Rightarrow> string list \<Rightarrow> string list" where
  "rejoin_from run [] = (if length run \<ge> 3 then [concat run] else run)"
| "rejoin_from run (w # ws) =
     (if single w then rejoin_from (run @ [w]) ws
      else (if length run \<ge> 3 then [concat run] else run) @ w # rejoin_from [] ws)"

definition rejoin_single_letters :: "string list \<Rightarrow> string list" where
  "rejoin_single_letters ws = rejoin_from [] ws"

definition normalise :: "string \<Rightarrow> string list" where
  "normalise text = rejoin_single_letters (map (map leet) (fold_words text))"

definition numeric_form :: "string \<Rightarrow> string list" where
  "numeric_form text = rejoin_single_letters (fold_words text)"

fun spaced_run :: "nat \<Rightarrow> string list \<Rightarrow> bool" where
  "spaced_run k [] \<longleftrightarrow> k \<ge> 4"
| "spaced_run k (w # ws) \<longleftrightarrow> k \<ge> 4 \<or> spaced_run (if single w then Suc k else 0) ws"

definition looks_spaced_out :: "string \<Rightarrow> bool" where
  "looks_spaced_out text = spaced_run 0 (fold_words text)"

definition compact_form :: "string \<Rightarrow> string" where
  "compact_form text = concat (normalise text)"

definition has :: "string list \<Rightarrow> string list \<Rightarrow> bool" where
  "has ws terms \<longleftrightarrow> (\<exists>t \<in> set terms. t \<in> set ws)"

fun contains :: "string \<Rightarrow> string \<Rightarrow> bool" where
  "contains t [] \<longleftrightarrow> t = []"
| "contains t (c # s) \<longleftrightarrow> take (length t) (c # s) = t \<or> contains t s"

definition has_substring :: "string \<Rightarrow> string list \<Rightarrow> bool" where
  "has_substring text terms \<longleftrightarrow> (\<exists>t \<in> set terms. contains t text)"

section \<open>Vocabularies\<close>

definition SEXUAL :: "string list" where
  "SEXUAL = [
     ''sex'', ''sexual'', ''sexually'', ''nude'', ''nudes'', ''nudity'', ''naked'', ''topless'', ''porn'',
     ''porno'', ''pornographic'', ''pornography'', ''explicit'', ''erotic'', ''erotica'', ''nsfw'', ''hentai'',
     ''fetish'', ''orgasm'', ''masturbating'', ''masturbation'', ''genitals'', ''genitalia'', ''penis'',
     ''vagina'', ''breasts'', ''nipples'', ''buttocks'', ''lingerie'', ''undressed'', ''unclothed'',
     ''stripping'', ''striptease'', ''intercourse'', ''blowjob'', ''handjob'', ''cum'', ''creampie'', ''bdsm'',
     ''bondage'']"

definition MINOR :: "string list" where
  "MINOR = [
     ''child'', ''children'', ''kid'', ''kids'', ''minor'', ''minors'', ''underage'', ''preteen'',
     ''prepubescent'', ''pubescent'', ''toddler'', ''toddlers'', ''infant'', ''infants'', ''baby'', ''babies'',
     ''newborn'', ''boy'', ''boys'', ''girl'', ''girls'', ''schoolgirl'', ''schoolboy'', ''schoolkid'',
     ''student'', ''students'', ''pupil'', ''kindergarten'', ''elementary'', ''middleschool'', ''juvenile'',
     ''adolescent'', ''teen'', ''teens'', ''teenage'', ''teenager'', ''teenagers'', ''loli'', ''lolita'',
     ''shota'', ''jailbait'', ''youngster'', ''tween'']"

definition REAL_PERSON :: "string list" where
  "REAL_PERSON = [
     ''celebrity'', ''celebrities'', ''actress'', ''actor'', ''singer'', ''popstar'', ''politician'',
     ''president'', ''influencer'', ''streamer'', ''youtuber'', ''journalist'', ''reallife'', ''deepfake'',
     ''deepfakes'', ''lookalike'']"

definition NAME_STOPWORDS :: "string list" where
  "NAME_STOPWORDS = [
     ''a'', ''an'', ''the'', ''of'', ''in'', ''on'', ''at'', ''with'', ''and'', ''or'', ''for'', ''to'',
     ''digital'', ''oil'', ''water'', ''high'', ''close'', ''wide'', ''full'', ''studio'', ''golden'',
     ''photo'', ''photograph'', ''portrait'', ''painting'', ''drawing'', ''sketch'', ''render'', ''art'',
     ''style'', ''shot'', ''view'', ''angle'', ''light'', ''colour'', ''color'', ''new'']"

section \<open>Ages\<close>

text \<open>One or two digits that begin a word, followed in the same or the next word by a unit that ends it.\<close>

definition AGE_UNITS :: "string list" where
  "AGE_UNITS = [''yr'', ''yrs'', ''year'', ''years'', ''yrold'', ''yrsold'', ''yearold'', ''yearsold'', ''yo'']"

definition dec :: "string \<Rightarrow> int" where
  "dec ds = foldl (\<lambda>n c. 10 * n + (of_char c - 48)) 0 ds"

fun ages :: "string list \<Rightarrow> int list" where
  "ages [] = []"
| "ages (w # ws) =
     (let ds = takeWhile is_digit w; rest = dropWhile is_digit w in
      if 1 \<le> length ds \<and> length ds \<le> 2
         \<and> (if rest = [] then ws \<noteq> [] \<and> hd ws \<in> set AGE_UNITS else rest \<in> set AGE_UNITS)
      then dec ds # ages ws else ages ws)"

section \<open>Names\<close>

text \<open>\<open>\w\<close>, \<open>[A-Z]\<close> and \<open>[a-z]\<close> on the original text.\<close>

definition word_char :: "char \<Rightarrow> bool" where
  "word_char c =
     (let n = of_char c :: int in
      is_digit c \<or> 65 \<le> n \<and> n \<le> 90 \<or> 97 \<le> n \<and> n \<le> 122 \<or> n = 95
      \<or> n \<in> {170, 178, 179, 181, 185, 186, 188, 189, 190} \<or> 192 \<le> n \<and> n \<noteq> 215 \<and> n \<noteq> 247)"

definition upper_char :: "char \<Rightarrow> bool" where
  "upper_char c = (let n = of_char c :: int in 65 \<le> n \<and> n \<le> 90)"

definition lower_char :: "char \<Rightarrow> bool" where
  "lower_char c = (let n = of_char c :: int in 97 \<le> n \<and> n \<le> 122)"

definition capitalised :: "string \<Rightarrow> (string \<times> string) option" where
  "capitalised text =
     (case text of
        [] \<Rightarrow> None
      | c # cs \<Rightarrow>
          (let low = takeWhile lower_char cs in
           if upper_char c \<and> 1 \<le> length low \<and> length low \<le> 20 then Some (c # low, dropWhile lower_char cs) else None))"

text \<open>A match of \<open>_PROPER_NAME\<close> at the head of the text: the two words and what follows.\<close>

definition proper_name :: "string \<Rightarrow> (string \<times> string \<times> string) option" where
  "proper_name text =
     (case capitalised text of
        None \<Rightarrow> None
      | Some (first, rest) \<Rightarrow>
          if rest = [] \<or> \<not> is_space (hd rest) then None
          else
            (case capitalised (dropWhile is_space rest) of
               None \<Rightarrow> None
             | Some (second, rest) \<Rightarrow>
                 if rest \<noteq> [] \<and> word_char (hd rest) then None else Some (first, second, rest)))"

lemma capitalised_shorter: "capitalised t = Some (w, r) \<Longrightarrow> length r < length t"
  by (auto simp: capitalised_def Let_def length_dropWhile_le le_imp_less_Suc split: list.splits if_splits)

lemma proper_name_shorter: "proper_name t = Some (a, b, r) \<Longrightarrow> length r < length t"
proof -
  assume "proper_name t = Some (a, b, r)"
  then obtain u where u: "capitalised t = Some (a, u)" "capitalised (dropWhile is_space u) = Some (b, r)"
    by (auto simp: proper_name_def split: option.splits if_splits)
  have "length r < length (dropWhile is_space u)" by (rule capitalised_shorter [OF u(2)])
  also have "\<dots> \<le> length u" by (rule length_dropWhile_le)
  also have "\<dots> < length t" by (rule capitalised_shorter [OF u(1)])
  finally show ?thesis .
qed

function name_matches :: "bool \<Rightarrow> string \<Rightarrow> (string \<times> string) list" where
  "name_matches boundary [] = []"
| "name_matches boundary (c # cs) =
     (case (if boundary then proper_name (c # cs) else None) of
        Some (first, second, rest) \<Rightarrow> (first, second) # name_matches False rest
      | None \<Rightarrow> name_matches (\<not> word_char c) cs)"
  by pat_completeness auto
termination
  by (relation "measure (\<lambda>(b, t). length t)") (auto dest: proper_name_shorter split: if_splits)

definition names_in :: "string \<Rightarrow> (string \<times> string) list" where
  "names_in text =
     filter (\<lambda>(first, second). to_lower first \<notin> set NAME_STOPWORDS \<and> to_lower second \<notin> set NAME_STOPWORDS)
       (name_matches True text)"

section \<open>The filter\<close>

definition mentions_minor :: "string \<Rightarrow> bool" where
  "mentions_minor prompt \<longleftrightarrow>
     has (normalise prompt) MINOR \<or> (\<exists>age \<in> set (ages (numeric_form prompt)). age < 18)
     \<or> looks_spaced_out prompt \<and> has_substring (compact_form prompt) MINOR"

definition is_sexual :: "string \<Rightarrow> bool" where
  "is_sexual prompt \<longleftrightarrow> has (normalise prompt) SEXUAL \<or> looks_spaced_out prompt \<and> has_substring (compact_form prompt) SEXUAL"

definition check_prompt :: "string \<Rightarrow> Verdict" where
  "check_prompt prompt =
     (if is_sexual prompt \<and> mentions_minor prompt then refuse ''csam''
      else if is_sexual prompt \<and> (names_in prompt \<noteq> [] \<or> has (normalise prompt) REAL_PERSON) then refuse ''ncii''
      else allow)"

record moderator =
  md_configured :: bool
  md_check :: "string \<Rightarrow> Verdict"

definition PromptModerator :: moderator where
  "PromptModerator = \<lparr> md_configured = True, md_check = check_prompt \<rparr>"

definition UnconfiguredModerator :: moderator where
  "UnconfiguredModerator = \<lparr> md_configured = False, md_check = (\<lambda>_. refuse ''moderation_unconfigured'') \<rparr>"

section \<open>Facts\<close>

text \<open>A word of more than one letter survives the rejoining in its place, and rejoining changes no letter.\<close>

lemma rejoin_at: "\<not> single a \<Longrightarrow> \<exists>xs. rejoin_from run (pre @ a # rest) = xs @ a # rejoin_from [] rest"
proof (induction pre arbitrary: run)
  case (Cons w pre)
  obtain xs where xs: "rejoin_from (run @ [w]) (pre @ a # rest) = xs @ a # rejoin_from [] rest" using Cons by blast
  obtain ys where ys: "rejoin_from [] (pre @ a # rest) = ys @ a # rejoin_from [] rest" using Cons by blast
  show ?case
  proof (cases "single w")
    case True
    then show ?thesis using xs by auto
  next
    case False
    then show ?thesis using ys by (intro exI [of _ "(if length run \<ge> 3 then [concat run] else run) @ w # ys"]) simp
  qed
qed auto

lemma rejoin_keeps:
  assumes "w \<in> set ws" "\<not> single w"
  shows "w \<in> set (rejoin_single_letters ws)"
proof -
  obtain pre rest where "ws = pre @ w # rest" using split_list [OF assms(1)] by blast
  then show ?thesis using rejoin_at [OF assms(2), of "[]" pre rest] by (auto simp: rejoin_single_letters_def)
qed

lemma rejoin_concat: "concat (rejoin_single_letters ws) = concat ws"
proof -
  have "concat (rejoin_from run ws) = concat run @ concat ws" for run by (induction ws arbitrary: run) auto
  then show ?thesis by (simp add: rejoin_single_letters_def)
qed

lemma contains_iff: "contains t s \<longleftrightarrow> (\<exists>a b. s = a @ t @ b)"
proof (induction s)
  case (Cons c s)
  have "take (length t) (c # s) = t \<longleftrightarrow> (\<exists>b. c # s = t @ b)" by (metis append_eq_conv_conj append_take_drop_id)
  then show ?case using Cons by (auto simp: Cons_eq_append_conv)
qed simp

lemma spaced_run_mono: "spaced_run j ws \<Longrightarrow> j \<le> k \<Longrightarrow> spaced_run k ws"
proof (induction ws arbitrary: j k)
  case (Cons w ws)
  show ?case
  proof (cases "single w")
    case True
    then show ?thesis using Cons.prems Cons.IH [of "Suc j" "Suc k"] by auto
  qed (use Cons.prems in auto)
qed simp

lemma spaced_singles: "4 \<le> k + length cs \<Longrightarrow> spaced_run k (map (\<lambda>c. [c]) cs @ ws)"
proof (induction cs arbitrary: k)
  case Nil
  then show ?case by (cases ws) auto
qed (simp add: single_def)

lemma spaced_prefix: "spaced_run 0 ws \<Longrightarrow> spaced_run k (pre @ ws)"
proof (induction pre arbitrary: k)
  case Nil
  then show ?case using spaced_run_mono [of 0 ws k] by simp
qed simp

lemma ages_suffix: "set (ages ys) \<subseteq> set (ages (xs @ ys))"
  by (induction xs) (auto simp: Let_def)

text \<open>No term of the two vocabularies is changed by the substitution of digits, and none is a single letter.\<close>

lemma terms_plain: "list_all (\<lambda>t. map leet t = t \<and> length t \<ge> 3) (SEXUAL @ MINOR)"
  by (simp add: SEXUAL_def MINOR_def leet_def)

lemma term_plain:
  assumes "t \<in> set SEXUAL \<or> t \<in> set MINOR"
  shows "map leet t = t" "3 \<le> length t" "\<not> single t"
proof -
  have "map leet t = t \<and> length t \<ge> 3" using terms_plain assms by (auto simp only: list_all_iff set_append)
  then show "map leet t = t" "3 \<le> length t" "\<not> single t" by (auto simp: single_def)
qed

lemma has_word:
  assumes "t \<in> set terms" "t \<in> set (map (map leet) (fold_words p))" "\<not> single t"
  shows "has (normalise p) terms"
  using rejoin_keeps [OF assms(2,3)] assms(1) by (auto simp: has_def normalise_def)

lemma spelled_out:
  assumes "fold_words p = pre @ map (\<lambda>c. [c]) (a @ t @ b) @ post" "map leet t = t" "t \<in> set terms" "4 \<le> length (a @ t @ b)"
  shows "looks_spaced_out p \<and> has_substring (compact_form p) terms"
proof
  show "looks_spaced_out p" unfolding looks_spaced_out_def assms(1) by (intro spaced_prefix spaced_singles) (use assms(4) in simp)
  have "concat (map (map leet) (map (\<lambda>c. [c]) cs)) = map leet cs" for cs by (induction cs) auto
  then have "compact_form p = (concat (map (map leet) pre) @ map leet a) @ t @ (map leet b @ concat (map (map leet) post))"
    using assms(1,2) by (simp add: compact_form_def normalise_def rejoin_concat del: map_map)
  then show "has_substring (compact_form p) terms" using assms(3) unfolding has_substring_def contains_iff by blast
qed

lemma young_age:
  assumes "fold_words p = pre @ ds # u # post" "length ds = 2" "list_all is_digit ds" "dec ds < 18" "u \<in> set AGE_UNITS"
  shows "mentions_minor p"
proof -
  have u: "\<not> single u" using assms(5) by (auto simp: AGE_UNITS_def single_def)
  have ds: "\<not> single ds" using assms(2) by (simp add: single_def)
  have t: "takeWhile is_digit ds = ds" "dropWhile is_digit ds = []"
    using assms(3) by (simp_all add: takeWhile_eq_all_conv dropWhile_eq_Nil_conv list_all_iff)
  obtain xs where "numeric_form p = xs @ ds # rejoin_from [] (u # post)"
    using rejoin_at [OF ds, of "[]" pre "u # post"] by (auto simp: numeric_form_def rejoin_single_letters_def assms(1))
  then have "numeric_form p = xs @ ds # u # rejoin_from [] post" using u by simp
  moreover have "ages (ds # u # rejoin_from [] post) = dec ds # ages (u # rejoin_from [] post)"
    unfolding ages.simps(2) [of ds] Let_def t using assms(2,5) by simp
  then have "dec ds \<in> set (ages (ds # u # rejoin_from [] post))" by (metis list.set_intros(1))
  ultimately have "dec ds \<in> set (ages (numeric_form p))" using ages_suffix by fastforce
  then show ?thesis using assms(4) by (auto simp: mentions_minor_def)
qed

text \<open>The category that must never be missed depends on the folded words only.\<close>

lemma csam_folded:
  "fold_words p = fold_words q \<Longrightarrow> check_prompt p = refuse ''csam'' \<longleftrightarrow> check_prompt q = refuse ''csam''"
  by (simp add: check_prompt_def is_sexual_def mentions_minor_def looks_spaced_out_def compact_form_def normalise_def
      numeric_form_def refuse_def allow_def)

lemma csam_iff: "check_prompt p = refuse ''csam'' \<longleftrightarrow> is_sexual p \<and> mentions_minor p"
  by (simp add: check_prompt_def refuse_def allow_def)

text \<open>Matches do not overlap: a capitalised stop word takes the given name with it, and the surname alone is no match.\<close>

lemma stopword_hides_name:
  "check_prompt ''Emma Watson nude'' = refuse ''ncii''" "check_prompt ''Portrait Emma Watson nude'' = allow"
  by code_simp+

end
