(* ===== verification/Public_Routes.thy ===== *)
theory Public_Routes
  imports Streaming Rate_Limits Moderation
begin

text \<open>
  The free tier of \<open>api/app/routes/public.py\<close>: anonymous chat on the one free model behind a rate limit and a bounded
  queue, and images for a wallet behind prompt screening and a daily allowance.  The lemmas say that a refused prompt
  reaches no node and spends nothing, that nothing here touches the ledger, and that a wallet gets at most its daily
  number of images, whatever the nodes answer.
\<close>

section \<open>Chat\<close>

record PublicChatRequest =
  pc_messages :: "ChatMessage list"
  pc_model :: "string option"
  pc_max_tokens :: int
  pc_temperature :: rat

definition valid_public_chat :: "PublicChatRequest \<Rightarrow> bool" where
  "valid_public_chat body \<longleftrightarrow> 1 \<le> length (pc_messages body) \<and> length (pc_messages body) \<le> 32
     \<and> 1 \<le> pc_max_tokens body \<and> pc_max_tokens body \<le> 2048 \<and> 0 \<le> pc_temperature body \<and> pc_temperature body \<le> 2"

definition public_models :: "moderator \<Rightarrow> jdict" where
  "public_models m =
     [(''chat'', JList [JObj [(''id'', JStr FREE_CHAT_MODEL), (''free'', JBool True)]]), (''images'', JList []),
      (''images_available'', JBool (md_configured m))]"

definition free_chat_payload :: "PublicChatRequest \<Rightarrow> jdict" where
  "free_chat_payload body =
     [(''model'', JStr FREE_CHAT_MODEL),
      (''messages'', JList (map (\<lambda>m. JObj [(''role'', JStr (cm_role m)), (''content'', JStr (cm_content m))]) (pc_messages body))),
      (''max_tokens'', JInt (pc_max_tokens body)), (''temperature'', JFloat (pc_temperature body)), (''stream'', JBool True)]"

text \<open>The request up to its streamed body: the node it goes to and the payload, or a refusal; the limiter has counted it
  either way.\<close>

definition public_chat ::
    "bool \<Rightarrow> int \<Rightarrow> out_requests \<Rightarrow> instant \<Rightarrow> Settings \<Rightarrow> string option \<Rightarrow> PublicChatRequest \<Rightarrow> db \<Rightarrow> limiter
     \<Rightarrow> (err + (uuid \<times> jdict)) \<times> limiter" where
  "public_chat redis_up clock c now settings client body d st =
     (let ip = (case client of None \<Rightarrow> ''unknown'' | Some host \<Rightarrow> host);
          (allowed, st) = check_rate_limit redis_up clock (''free-chat:ip:'' @ ip) (free_chat_rate_per_minute settings) 60 st
      in if \<not> allowed then (Inl (HTTPException 429 ''Too many requests. Wait a moment and try again.''), st)
         else
           (case select_node c now settings FREE_CHAT_MODEL dt_public d of
              None \<Rightarrow> (Inl (HTTPException 503 ''The free model is offline right now. Try again shortly.''), st)
            | Some pid \<Rightarrow> (Inr (pid, free_chat_payload body), st)))"

datatype sse_event = Data json | DONE

definition sse_error :: "string \<Rightarrow> sse_event" where
  "sse_error m = Data (JObj [(''error'', JObj [(''message'', JStr m)])])"

definition free_chunk :: "jdict \<Rightarrow> json \<Rightarrow> sse_event" where
  "free_chunk delta finish =
     Data (JObj [(''object'', JStr ''chat.completion.chunk''), (''model'', JStr FREE_CHAT_MODEL),
       (''choices'', JList [JObj [(''index'', JInt 0), (''delta'', JObj delta), (''finish_reason'', finish)]])])"

definition free_tail :: "sse_event list" where
  "free_tail = [free_chunk [] (JStr ''stop''), DONE]"

text \<open>The body while it holds a slot.  A status that is no number leaves the generator by an exception nobody catches.\<close>

fun free_stream :: "stream_event list \<Rightarrow> sse_event list" where
  "free_stream [] = free_tail"
| "free_stream (Gone # _) = []"
| "free_stream (Raised _ # _) = [sse_error ''The model failed to answer.'', DONE]"
| "free_stream (Frame frame # events) =
     (let kind = jget frame ''type'' in
      if kind = JStr ''chunk'' then
        (case jget frame ''delta'' of
           JStr delta \<Rightarrow> if delta = [] then free_stream events
                         else free_chunk [(''content'', JStr delta)] JNull # free_stream events
         | _ \<Rightarrow> free_stream events)
      else if kind = JStr ''error'' then sse_error ''The model failed to answer.'' # free_tail
      else
        (case frame_status frame of
           None \<Rightarrow> []
         | Some st \<Rightarrow>
             if st \<ge> 400 then sse_error ''The model failed to answer.'' # free_tail
             else if kind = JStr ''response'' then free_tail
             else free_stream events))"

definition body_stream :: "nat \<Rightarrow> FreeCapacity \<Rightarrow> stream_event list \<Rightarrow> sse_event list" where
  "body_stream req c events =
     (case slot_enter req c of
        None \<Rightarrow> [sse_error ''Busy right now. Try again in a moment.'', DONE]
      | Some _ \<Rightarrow> free_stream events)"

section \<open>Images\<close>

definition WALLET_422 :: err where
  "WALLET_422 = HTTPException 422 ''A wallet address is required.''"

definition PROMPT_400 :: err where
  "PROMPT_400 = HTTPException 400 (''That prompt was refused. GRIDIX won'' @ [char_of (39::int)]
     @ ''t generate sexual material involving minors, or sexual content depicting real people.'')"

definition QUOTA_429 :: "int \<Rightarrow> err" where
  "QUOTA_429 limit = HTTPException 429 (''You'' @ [char_of (39::int)] @ ''ve used today'' @ [char_of (39::int)] @ ''s ''
     @ int_str limit @ '' free images. Resets at 00:00 UTC.'')"

record image_allowance =
  ia_limit :: int
  ia_used :: int
  ia_remaining :: int
  ia_available :: bool

definition image_quota :: "moderator \<Rightarrow> instant \<Rightarrow> Settings \<Rightarrow> Developer \<Rightarrow> db \<Rightarrow> err + image_allowance" where
  "image_quota m now settings developer d =
     (case dv_wallet_address developer of
        None \<Rightarrow> Inl WALLET_422
      | Some wallet \<Rightarrow>
          (let used = used_today (wallet_anchor wallet) ''image'' now d in
           Inr \<lparr> ia_limit = free_images_per_day settings, ia_used = used,
                 ia_remaining = max 0 (free_images_per_day settings - used), ia_available = md_configured m \<rparr>))"

record free_image =
  fi_created :: int
  fi_url :: string
  fi_model :: string

text \<open>What follows once the allowance is spent: the spent unit is committed, so nothing here gives it back.\<close>

definition draw_free_image ::
    "(string \<Rightarrow> string \<Rightarrow> 's \<Rightarrow> err + (string \<times> 's)) \<Rightarrow> http_post \<Rightarrow> out_requests \<Rightarrow> instant \<Rightarrow> Settings \<Rightarrow> string \<Rightarrow> db \<Rightarrow> 's
     \<Rightarrow> (err + free_image) \<times> 's" where
  "draw_free_image put post c now settings prompt d st =
     (case select_node c now settings FREE_IMAGE_MODEL dt_public d of
        None \<Rightarrow> (Inl (HTTPException 503 ''No node can generate images right now. Try again shortly.''), st)
      | Some pid \<Rightarrow>
          (case dispatch post pid ''images.generations''
                  [(''model'', JStr FREE_IMAGE_MODEL), (''prompt'', JStr prompt), (''n'', JInt 1)] None of
             Inl _ \<Rightarrow> (Inl (HTTPException 502 ''The image model failed to answer.''), st)
           | Inr reply \<Rightarrow>
               (case store_node_images put settings (jget reply ''images'') st of
                  (Inl e, st) \<Rightarrow> (Inl e, st)
                | (Inr [], st) \<Rightarrow> (Inl (HTTPException 502 ''The image model returned no image.''), st)
                | (Inr (url # _), st) \<Rightarrow> (Inr \<lparr> fi_created = now div 1000000, fi_url = url, fi_model = FREE_IMAGE_MODEL \<rparr>, st))))"

definition public_image ::
    "(string \<Rightarrow> string \<Rightarrow> 's \<Rightarrow> err + (string \<times> 's)) \<Rightarrow> http_post \<Rightarrow> moderator \<Rightarrow> out_requests \<Rightarrow> instant \<Rightarrow> Settings
     \<Rightarrow> Developer \<Rightarrow> string \<Rightarrow> db \<Rightarrow> 's \<Rightarrow> (err + free_image) \<times> db \<times> 's" where
  "public_image put post m c now settings developer prompt d st =
     (case dv_wallet_address developer of
        None \<Rightarrow> (Inl WALLET_422, d, st)
      | Some wallet \<Rightarrow>
          if \<not> md_configured m then (Inl (HTTPException 503 ''Image generation is unavailable.''), d, st)
          else if \<not> vd_allowed (md_check m prompt) then
            (Inl PROMPT_400, d, st)
          else
            (case consume_daily (wallet_anchor wallet) ''image'' (free_images_per_day settings) now d of
               (False, _) \<Rightarrow>
                 (Inl (QUOTA_429 (free_images_per_day settings)), d, st)
             | (True, d) \<Rightarrow>
                 (let (r, st) = draw_free_image put post c now settings prompt d st in (r, d, st))))"

definition public_image_file :: "(string \<Rightarrow> 's \<Rightarrow> err + string) \<Rightarrow> string \<Rightarrow> 's \<Rightarrow> err + string" where
  "public_image_file read ref s =
     (case storage_get read ref s of
        Inr data \<Rightarrow> Inr data
      | Inl e \<Rightarrow>
          (case e of
             FileNotFoundError _ \<Rightarrow> Inl (HTTPException 404 ''No such image.'')
           | ValueError _ \<Rightarrow> Inl (HTTPException 404 ''No such image.'')
           | KeyError \<Rightarrow> Inl (HTTPException 404 ''No such image.'')
           | _ \<Rightarrow> Inl e))"

section \<open>Facts\<close>

text \<open>Whatever the caller asks for, a free chat is served by a node placed for the free model, and only within the rate.\<close>

lemma public_chat_Inr:
  assumes "public_chat up clock c now s client body d st = (Inr (pid, payload), st')"
  shows "\<exists>p \<in> set (providers d). pr_id p = pid \<and> placeable now s FREE_CHAT_MODEL dt_public d p"
    "jget payload ''model'' = JStr FREE_CHAT_MODEL" "payload = free_chat_payload body"
    "check_rate_limit up clock (''free-chat:ip:'' @ (case client of None \<Rightarrow> ''unknown'' | Some h \<Rightarrow> h)) (free_chat_rate_per_minute s) 60 st = (True, st')"
proof -
  from assms have sel: "select_node c now s FREE_CHAT_MODEL dt_public d = Some pid" and p: "payload = free_chat_payload body"
    and r: "check_rate_limit up clock (''free-chat:ip:'' @ (case client of None \<Rightarrow> ''unknown'' | Some h \<Rightarrow> h)) (free_chat_rate_per_minute s) 60 st = (True, st')"
    by (auto simp: public_chat_def Let_def split: prod.splits if_splits option.splits)
  show "\<exists>p \<in> set (providers d). pr_id p = pid \<and> placeable now s FREE_CHAT_MODEL dt_public d p" by (rule select_node_sel(1) [OF sel])
  show "jget payload ''model'' = JStr FREE_CHAT_MODEL" by (simp add: p free_chat_payload_def jget_def)
  show "payload = free_chat_payload body" by (rule p)
  show "check_rate_limit up clock (''free-chat:ip:'' @ (case client of None \<Rightarrow> ''unknown'' | Some h \<Rightarrow> h)) (free_chat_rate_per_minute s) 60 st = (True, st')"
    by (rule r)
qed

text \<open>A stream its reader stays with, of frames whose status can be read, ends with \<open>[DONE]\<close>.\<close>

lemma free_stream_done:
  assumes "Gone \<notin> set events" "\<forall>f. Frame f \<in> set events \<longrightarrow> frame_status f \<noteq> None"
  shows "\<exists>xs. free_stream events = xs @ [DONE]"
  using assms
proof (induction events)
  case Nil
  show ?case by (simp add: free_tail_def)
next
  case (Cons ev events)
  then obtain xs where xs: "free_stream events = xs @ [DONE]" by auto
  show ?case
  proof (cases ev)
    case (Frame f)
    then obtain st where st: "frame_status f = Some st" using Cons.prems(2) by fastforce
    have "\<exists>ys. free_stream (ev # events) = ys @ free_stream events \<or> free_stream (ev # events) = ys @ free_tail"
      unfolding Frame free_stream.simps Let_def st option.case
      by (cases "jget f ''delta''") (auto split: if_splits intro: exI [of _ "[]"])
    then show ?thesis using xs by (auto simp: free_tail_def)
  qed (use Cons.prems in auto)
qed

text \<open>A refused prompt reaches no node, stores nothing and spends nothing.\<close>

lemma refused_prompt_spends_nothing:
  assumes "\<not> vd_allowed (md_check m prompt) \<or> \<not> md_configured m"
  shows "\<exists>e. \<forall>post put. public_image put post m c now s developer prompt d st = (Inl e, d, st)"
proof (cases "dv_wallet_address developer")
  case (Some wallet)
  then show ?thesis using assms by (cases "md_configured m") (simp_all add: public_image_def)
qed (simp add: public_image_def)

lemma public_image_cases:
  assumes "public_image put post m c now s developer prompt d st = (r, d', st')" "usage_ok d"
  shows "usage_ok d'"
    "(\<exists>e. r = Inl e \<and> d' = d \<and> st' = st) \<or> (\<exists>wallet. dv_wallet_address developer = Some wallet
       \<and> md_configured m \<and> vd_allowed (md_check m prompt)
       \<and> used_today (wallet_anchor wallet) ''image'' now d < free_images_per_day s
       \<and> used_today (wallet_anchor wallet) ''image'' now d' = used_today (wallet_anchor wallet) ''image'' now d + 1
       \<and> (\<forall>a k t. (a, k, utc_day t) \<noteq> (wallet_anchor wallet, ''image'', utc_day now) \<longrightarrow> used_today a k t d' = used_today a k t d)
       \<and> ledger_entries d' = ledger_entries d)"
proof -
  have "usage_ok d' \<and> ((\<exists>e. r = Inl e \<and> d' = d \<and> st' = st) \<or> (\<exists>wallet. dv_wallet_address developer = Some wallet
       \<and> md_configured m \<and> vd_allowed (md_check m prompt)
       \<and> used_today (wallet_anchor wallet) ''image'' now d < free_images_per_day s
       \<and> used_today (wallet_anchor wallet) ''image'' now d' = used_today (wallet_anchor wallet) ''image'' now d + 1
       \<and> (\<forall>a k t. (a, k, utc_day t) \<noteq> (wallet_anchor wallet, ''image'', utc_day now) \<longrightarrow> used_today a k t d' = used_today a k t d)
       \<and> ledger_entries d' = ledger_entries d))"
  proof (cases "dv_wallet_address developer")
    case None
    then show ?thesis using assms by (auto simp: public_image_def)
  next
    case (Some wallet)
    obtain d1 where c: "consume_daily (wallet_anchor wallet) ''image'' (free_images_per_day s) now d
          = (used_today (wallet_anchor wallet) ''image'' now d < free_images_per_day s, d1)" "usage_ok d1"
      "used_today (wallet_anchor wallet) ''image'' now d < free_images_per_day s \<longrightarrow>
         used_today (wallet_anchor wallet) ''image'' now d1 = used_today (wallet_anchor wallet) ''image'' now d + 1"
      "\<forall>a k t. (a, k, utc_day t) \<noteq> (wallet_anchor wallet, ''image'', utc_day now) \<longrightarrow> used_today a k t d1 = used_today a k t d"
      using consume_counts [OF assms(2)] by blast
    have l: "ledger_entries d1 = ledger_entries d"
      using c(1) by (auto simp: consume_daily_def open_row_def Let_def split: option.splits if_splits)
    show ?thesis
    proof (cases "md_configured m \<and> vd_allowed (md_check m prompt) \<and> used_today (wallet_anchor wallet) ''image'' now d < free_images_per_day s")
      case True
      then have "d' = d1" using assms(1) Some c(1) by (auto simp: public_image_def Let_def split: prod.splits)
      then show ?thesis using True Some c l by blast
    next
      case False
      then show ?thesis using assms Some c(1) by (auto simp: public_image_def split: if_splits)
    qed
  qed
  then show "usage_ok d'" "(\<exists>e. r = Inl e \<and> d' = d \<and> st' = st) \<or> (\<exists>wallet. dv_wallet_address developer = Some wallet
       \<and> md_configured m \<and> vd_allowed (md_check m prompt)
       \<and> used_today (wallet_anchor wallet) ''image'' now d < free_images_per_day s
       \<and> used_today (wallet_anchor wallet) ''image'' now d' = used_today (wallet_anchor wallet) ''image'' now d + 1
       \<and> (\<forall>a k t. (a, k, utc_day t) \<noteq> (wallet_anchor wallet, ''image'', utc_day now) \<longrightarrow> used_today a k t d' = used_today a k t d)
       \<and> ledger_entries d' = ledger_entries d)" by blast+
qed

text \<open>Any number of requests by any wallets, one after the other.\<close>

record free_request =
  fr_developer :: Developer
  fr_post :: http_post
  fr_load :: out_requests
  fr_now :: instant
  fr_prompt :: string

fun image_run ::
    "(string \<Rightarrow> string \<Rightarrow> 's \<Rightarrow> err + (string \<times> 's)) \<Rightarrow> moderator \<Rightarrow> Settings \<Rightarrow> free_request list \<Rightarrow> db \<Rightarrow> 's
     \<Rightarrow> (free_request \<times> (err + free_image)) list" where
  "image_run put m settings [] d st = []"
| "image_run put m settings (q # qs) d st =
     (let (r, d, st) = public_image put (fr_post q) m (fr_load q) (fr_now q) settings (fr_developer q) (fr_prompt q) d st
      in (q, r) # image_run put m settings qs d st)"

definition drawn_for :: "string \<Rightarrow> (free_request \<times> (err + free_image)) list \<Rightarrow> nat" where
  "drawn_for anchor rs =
     length (filter (\<lambda>(q, r). map_option wallet_anchor (dv_wallet_address (fr_developer q)) = Some anchor \<and> \<not> isl r) rs)"

lemma used_today_day: "utc_day t = utc_day t' \<Longrightarrow> used_today a k t d = used_today a k t' d"
  by (simp add: used_today_def)

lemma images_bounded:
  assumes "usage_ok d" "\<forall>q \<in> set qs. utc_day (fr_now q) = utc_day t"
  shows "int (drawn_for a (image_run put m s qs d st)) \<le> max 0 (free_images_per_day s - used_today a ''image'' t d)"
  using assms
proof (induction qs arbitrary: d st)
  case Nil
  show ?case by (simp add: drawn_for_def)
next
  case (Cons q qs)
  obtain r d' st' where r: "public_image put (fr_post q) m (fr_load q) (fr_now q) s (fr_developer q) (fr_prompt q) d st = (r, d', st')"
    by (metis prod_cases3)
  have day: "utc_day (fr_now q) = utc_day t" using Cons.prems(2) by simp
  note c = public_image_cases [OF r Cons.prems(1)]
  have IH: "int (drawn_for a (image_run put m s qs d' st')) \<le> max 0 (free_images_per_day s - used_today a ''image'' t d')"
    using Cons.IH [OF c(1)] Cons.prems(2) by simp
  let ?mine = "map_option wallet_anchor (dv_wallet_address (fr_developer q)) = Some a \<and> \<not> isl r"
  have split: "drawn_for a (image_run put m s (q # qs) d st) = (if ?mine then 1 else 0) + drawn_for a (image_run put m s qs d' st')"
    by (simp add: drawn_for_def r)
  from c(2) show ?case
  proof (elim disjE exE conjE)
    fix e
    assume "r = Inl e" "d' = d"
    then show ?thesis using IH split by simp
  next
    fix wallet
    assume w: "dv_wallet_address (fr_developer q) = Some wallet"
      "used_today (wallet_anchor wallet) ''image'' (fr_now q) d < free_images_per_day s"
      "used_today (wallet_anchor wallet) ''image'' (fr_now q) d' = used_today (wallet_anchor wallet) ''image'' (fr_now q) d + 1"
      "\<forall>a k t. (a, k, utc_day t) \<noteq> (wallet_anchor wallet, ''image'', utc_day (fr_now q)) \<longrightarrow> used_today a k t d' = used_today a k t d"
    show ?thesis
    proof (cases "wallet_anchor wallet = a")
      case True
      then show ?thesis using IH split w(1-3) used_today_day [OF day, of a "''image''"] by (auto split: if_splits)
    next
      case False
      then have "used_today a ''image'' t d' = used_today a ''image'' t d" using w(4) by simp
      then show ?thesis using IH split w(1) False by simp
    qed
  qed
qed

end
