(* ===== verification/Gateway_Samples.thy ===== *)
theory Gateway_Samples
  imports Samples Public_Routes
begin

text \<open>
  A gateway with one connected and staked node that serves a catalogue model, a developer with ten USDC, a request,
  its hold, and a node that uses every token it is allowed.
\<close>

abbreviation LLAMA :: string where
  "LLAMA \<equiv> ''llama-3.1-8b''"

definition gw_start :: db where
  "gw_start = empty_db\<lparr>providers := [sample_provider], provider_models := [\<lparr> pm_id = 1, pm_provider_id = 7, pm_model = LLAMA \<rparr>]\<rparr>"

definition gw_body :: ChatCompletionRequest where
  "gw_body = \<lparr> cr_model = LLAMA, cr_messages = [\<lparr> cm_role = ''user'', cm_content = ''hello'' \<rparr>], cr_max_tokens = None,
     cr_temperature = 1, cr_seed = None, cr_stream = False, cr_data_tier = dt_public \<rparr>"

definition gw_spec :: ModelSpec where
  "gw_spec = chat_model LLAMA (5 / 100) (8 / 100) 128000"

definition gw_hold :: chat_hold where
  "gw_hold = \<lparr> ch_spec = gw_spec, ch_max_output = 4096, ch_prompt_tokens = 5, ch_worst_case = 32793 / 100000000,
     ch_held = 328 / 1000000 \<rparr>"

definition gw_reply :: jdict where
  "gw_reply = [(''content'', JStr ''hi''), (''usage'', JObj [(''prompt_tokens'', JInt 5), (''completion_tokens'', JInt 4096)])]"

definition gw_post :: http_post where
  "gw_post = (\<lambda>_ _. Answer 200 \<lparr> rr_status = 200, rr_payload = Some gw_reply \<rparr>)"

definition gw_chunk :: jdict where
  "gw_chunk = [(''type'', JStr ''chunk''), (''delta'', JStr ''hi''), (''tokens'', JInt 1)]"

definition gw_final :: jdict where
  "gw_final = [(''type'', JStr ''response''), (''status'', JInt 200), (''payload'', JObj gw_reply)]"

lemma gw_valid: "valid_chat gw_body"
  by (simp add: valid_chat_def gw_body_def)

lemma gw_price: "chat_worst_case gw_spec 5 4096 = 32793 / 100000000" "chat_cost gw_spec 5 4096 = 32793 / 100000000"
  by code_simp+

lemma gw_rounded: "quantize_usdc (32793 / 100000000) = 328 / 1000000"
  by code_simp

lemma gw_usage: "usage_from gw_reply 5 4096 = \<lparr> cu_prompt_tokens = 5, cu_completion_tokens = 4096 \<rparr>"
  by code_simp

definition gw_node :: "db \<Rightarrow> bool" where
  "gw_node d \<longleftrightarrow> providers d = [sample_provider] \<and> provider_models d = provider_models gw_start \<and> provider_stake 7 d = 100"

lemma gw_select: "gw_node d \<Longrightarrow> select_node (\<lambda>_. 0) 1 default_settings LLAMA dt_public d = Some 7"
  by (simp add: gw_node_def select_node_def eligible_nodes_def placeable_def serves_def is_connected_def gw_start_def sample_provider_def
      default_settings_def seconds_def)

lemma gw_pick: "gw_node d \<Longrightarrow> pick_node (\<lambda>_. 0) 1 default_settings LLAMA dt_public d = Inr 7"
  by (simp add: pick_node_def gw_select)

lemma gw_node_only: "gw_node d \<Longrightarrow> ledger_only d d' \<Longrightarrow> provider_stake 7 d' = provider_stake 7 d \<Longrightarrow> gw_node d'"
  by (auto simp: gw_node_def ledger_only_def)

lemma gw_ready:
  obtains d where "gw_node d" "developer_balance 1 d = 10"
proof -
  have zero: "account_balance a r gw_start = 0" for a r by (simp add: balance_as_net gw_start_def empty_db_def)
  obtain d grp where d: "deposit_stake 0 7 100 gw_start = Inr (grp, d)"
    using post_transaction_ex [of "[Dr la_protocol 100 None, Cr la_stake 100 (Some 7)]" 0 "''stake_deposit''" None None gw_start]
    by (auto simp: deposit_stake_def)
  note p = d [unfolded deposit_stake_def]
  have "gw_node d" using post_ledger_only [OF p] deposit_stake_Inr(2) [OF d, of 7] zero
    by (auto simp: gw_node_def ledger_only_def gw_start_def provider_stake_def)
  have b: "developer_balance 1 d = 0"
    using post_transaction_balance [OF p, of la_developer "Some 1"] zero by (simp add: developer_balance_def)
  obtain a e where e: "credit_deposit 0 1 10 ''top-up'' d = Inr (a, e)"
    using post_transaction_ex [of "[Dr la_protocol 10 None, Cr la_developer 10 (Some 1)]" 0 "''top-up''" None None d] quantize_usdc_samples
    by (auto simp: credit_deposit_def)
  note c = credit_deposit_Inr [OF e]
  have "gw_node e" using gw_node_only [OF \<open>gw_node d\<close> c(2)] c(3) [of la_stake "Some 7"] by (simp add: provider_stake_def)
  moreover have "developer_balance 1 e = 10"
    using b c(1) c(3) [of la_developer "Some 1"] quantize_usdc_samples by (simp add: developer_balance_def)
  ultimately show ?thesis by (rule that)
qed

lemma gw_reserved:
  obtains d d' where "gw_node d'" "0 \<le> developer_balance 1 d'" "developer_balance 1 d' \<le> 10" "chat_reserve ds 1 gw_body 1 d = Inr (gw_hold, d')"
    "0 \<le> developer_balance 1 d"
proof -
  obtain d where d: "gw_node d" "developer_balance 1 d = 10" by (rule gw_ready)
  have m: "model_or_404 (cr_model gw_body) md_chat = Inr gw_spec"
    by (simp add: model_or_404_def get_model_def tget_def CATALOG_def gw_body_def gw_spec_def chat_model_def)
  have n: "chat_ceiling gw_spec gw_body = 4096" "prompt_token_bound gw_body = 5"
    by (simp_all add: chat_ceiling_def prompt_token_bound_def gw_body_def gw_spec_def chat_model_def utf8_def)
  obtain grp d' where p: "post_transaction 1 [Dr la_developer (328 / 1000000) (Some 1), Cr la_escrow (328 / 1000000) (Some 1)] ''inference_hold'' None None d = Inr (grp, d')"
    using post_transaction_ex [of "[Dr la_developer (328 / 1000000) (Some 1), Cr la_escrow (328 / 1000000) (Some 1)]" 1 "''inference_hold''" None None d] by auto
  have r: "reserve_balance 1 1 (32793 / 100000000) d = Inr (328 / 1000000, d')"
    using p d(2) by (simp add: reserve_balance_def gw_rounded)
  have c: "chat_reserve ds 1 gw_body 1 d = Inr (gw_hold, d')"
    unfolding chat_reserve_def m bindE_simps Let_def n gw_price reserve_or_402_def r
    by (simp add: gw_hold_def) (simp add: gw_body_def)
  have node: "gw_node d'" using gw_node_only [OF d(1) post_ledger_only [OF p]] post_transaction_balance [OF p, of la_stake "Some 7"]
    by (simp add: provider_stake_def)
  have "developer_balance 1 d' = 10 - 328 / 1000000"
    using post_transaction_balance [OF p, of la_developer "Some 1"] d(2) by (simp add: developer_balance_def)
  then show ?thesis using that [OF node _ _ c] d(2) by simp
qed

lemma gw_hold_ok: "hold_ok gw_hold"
  using gw_reserved [of "\<lambda>_. []"] chat_reserve_holds(1) [OF _ gw_valid] by metis

lemma gw_dispatch: "dispatch gw_post pid meth payload job = Inr gw_reply"
  by (simp add: dispatch_def call_provider_def gw_post_def or_empty_def)

text \<open>Everything but the hold has left the account on the chain, and more.\<close>

lemma gw_overdrawn:
  obtains d where "gw_node d" "developer_balance 1 d < 0"
proof -
  obtain d where d: "gw_node d" "0 \<le> developer_balance 1 d" "developer_balance 1 d \<le> 10" using gw_reserved [of "\<lambda>_. []"] by metis
  obtain grp e where e: "post_transaction 1 (withdraw_postings 1 11) ''chain_withdraw'' None None d = Inr (grp, e)"
    using post_transaction_ex [of "withdraw_postings 1 11"] by (fastforce simp: withdraw_postings_def)
  have "gw_node e" using gw_node_only [OF d(1) post_ledger_only [OF e]] post_transaction_balance [OF e, of la_stake "Some 7"]
    by (simp add: provider_stake_def withdraw_postings_def)
  moreover have "developer_balance 1 e < 0"
    using post_transaction_balance [OF e, of la_developer "Some 1"] d(3) by (simp add: developer_balance_def withdraw_postings_def)
  ultimately show ?thesis by (rule that)
qed

text \<open>The same request, answered in one piece.\<close>

lemma gw_served:
  obtains d resp d' where "gw_node d" "chat_serve gw_post (\<lambda>_. 0) 1 default_settings ''t'' gw_body 1 gw_hold d = (Inr (Completed resp), d')"
    "cc_cost_usdc resp = 328 / 1000000"
proof -
  obtain d where d: "gw_node d" "0 \<le> developer_balance 1 d" using gw_reserved [of "\<lambda>_. []"] by metis
  have b: "chat_billed gw_hold (usage_from gw_reply 5 4096) = 32793 / 100000000"
    by (simp add: chat_billed_def gw_usage gw_price) (simp add: gw_hold_def gw_price)
  have h: "a_hold (328 / 1000000)" using gw_hold_ok by (simp add: hold_ok_def gw_hold_def)
  obtain d' where "settle_reservation 1 1 7 (328 / 1000000) (32793 / 100000000) default_settings d = Inr (328 / 1000000, d')"
    using settle_reservation_resolves [OF h sample_settings _ d(2), of "32793 / 100000000" 1 7] gw_rounded by auto
  then have s: "settle_on_session 1 1 7 (328 / 1000000) (32793 / 100000000) default_settings d = (Inr (328 / 1000000), d')"
    by (simp add: settle_on_session_Inr)
  have sel: "cr_model gw_body = LLAMA" "cr_data_tier gw_body = dt_public" "\<not> cr_stream gw_body" "ch_held gw_hold = 328 / 1000000"
    "ch_prompt_tokens gw_hold = 5" "ch_max_output gw_hold = 4096" by (simp_all add: gw_body_def gw_hold_def)
  have "\<exists>resp. chat_serve gw_post (\<lambda>_. 0) 1 default_settings ''t'' gw_body 1 gw_hold d = (Inr (Completed resp), d')
      \<and> cc_cost_usdc resp = 328 / 1000000"
    unfolding chat_serve_def sel gw_pick [OF d(1)] gw_dispatch Let_def sum.case b s prod.case
    by (simp add: sel)
  then show ?thesis using that [OF d(1)] by blast
qed

end
