(* ===== verification/Spec2Isabelle.thy ===== *)
theory Spec2Isabelle
  imports Chain_Samples Reconcile Audit_Chain Gateway_Samples
begin

text \<open>
  Verification of the Gridix coordinator: a marketplace in which developers submit container jobs and inference
  requests, providers run them, and a double-entry ledger, mirrored to two contracts on a chain, pays for the work.

  \<^bold>\<open>The program.\<close>  The API process (\<open>api/app/main.py\<close>) takes requests on the routes under \<open>api/app/routes\<close> and runs the
  loops of \<open>scheduler.py\<close>: assignment, lease reaping and canaries.  A job is submitted with its price held in escrow,
  matched to providers, executed under a lease that heartbeats renew, voted on by its results, and finalized: the winner
  is paid, losers are slashed through disputes, the rest is refunded.  Inference requests go the short way: hold, choice
  of a connected node, dispatch through the relay, settlement of the metered cost.  The relay (\<open>relay.py\<close>) is a second
  process that keeps a WebSocket to every node and shares the database.  The chain worker (\<open>chain_worker.py\<close>) is a third:
  it mirrors deposits and withdrawals into the ledger, settles earnings in batches and reconciles the two sides.

  \<^bold>\<open>How it is modelled.\<close>  The database is the record \<open>db\<close> of tables, each the list of its rows; a handler is a function
  from its arguments, the clock and the database to an error or a result with the new database, and an error stands for
  the rollback.  Where effects outlive an error (a commit inside the handler, an engine's own fields, the limiter) the
  state is returned beside the outcome.  Concurrency is a step relation whose steps are transactions, or, in the relay,
  what happens between two suspensions of a coroutine.  Money is an exact rational rounded where Python's decimal
  context rounds (28 digits, \<open>ROUND_HALF_EVEN\<close>) and where the code quantizes; floats are rationals rounded to 53 bits; times
  are microseconds; contract integers are 256-bit words with checked arithmetic.  Text is over Latin-1, UTF-8 encoded where
  the code encodes.  SHA-256, HMAC and \<open>json.dumps\<close> are defined and not assumed.  Third-party code is an argument: the
  wallet library, Fernet, the chain client, the ERC-20 token, the relay's HTTP exchange.

  \<^bold>\<open>Theories, in the order they build on each other.\<close>

  \<^item> \<open>Prelude\<close>, \<open>Numerics\<close>, \<open>Stdlib\<close>, \<open>Calendar\<close>, \<open>Systems\<close>: results and table rows, decimal rounding (locale \<open>rounding\<close>),
    digests, JSON and strings, dates, and the locales \<open>system\<close> and \<open>evolving\<close> of transition systems with an invariant.
  \<^item> \<open>Models\<close> (\<open>models.py\<close>), \<open>Config\<close> (\<open>config.py\<close>), \<open>State_Machine\<close> (\<open>state_machine.py\<close>): tables, settings with their
    validators, legal job transitions.
  \<^item> \<open>Ledger\<close>, \<open>Pricing\<close>, \<open>Payments\<close>, \<open>Usage_Billing\<close>, \<open>Reputation\<close>: the services of the same names; postings balance,
    prices round in one direction, the payment provider is a locale with the fiat stub as its instance.
  \<^item> \<open>Quorum\<close>, \<open>Verification\<close>, \<open>Presence\<close>, \<open>Disputes\<close>, \<open>Results\<close>, \<open>Finalization\<close>: from a reported result to payment and
    slashing (\<open>quorum.py\<close>, \<open>verification.py\<close>, \<open>canary.py\<close>, \<open>presence.py\<close>, \<open>bandwidth.py\<close>, \<open>disputes.py\<close>,
    \<open>adjudicate.py\<close>, \<open>penalties.py\<close>, \<open>fraud_proof.py\<close>, \<open>results.py\<close>).
  \<^item> \<open>Matcher\<close>, \<open>Assignment\<close>, \<open>Hardware\<close>, \<open>Storage\<close>, \<open>Agent_Routes\<close>, \<open>Job_Routes\<close>, \<open>Uploads\<close>, \<open>Auth\<close>: scheduling, trust in
    machines, blobs and the endpoints; matching policies and blob stores are locales with two instances each.
  \<^item> \<open>Catalog\<close>, \<open>Dispatch\<close>, \<open>Inference\<close>, \<open>Streaming\<close>, \<open>Rate_Limits\<close>, \<open>Moderation\<close>, \<open>Public_Routes\<close>: paid and free inference
    (\<open>catalog.py\<close>, \<open>node_usage.py\<close>, \<open>dispatch.py\<close>, \<open>relay_client.py\<close>, \<open>routes/inference.py\<close>, \<open>image_artifacts.py\<close>,
    \<open>streaming_chat.py\<close>, \<open>ratelimit.py\<close>, \<open>free_tier.py\<close>, \<open>free_capacity.py\<close>, \<open>moderation.py\<close>, \<open>routes/public.py\<close>).
  \<^item> \<open>Tunnel\<close>, \<open>Relay\<close> (\<open>relay.py\<close>): one socket's correlation of requests and frames, and the server over all sockets.
  \<^item> \<open>Chain_Client\<close>, \<open>Settlement\<close>, \<open>Settlement_Safety\<close>, \<open>Watcher\<close>, \<open>Chain_Workers\<close>, \<open>Reconcile\<close> (\<open>api/app/chain\<close>): the test
    chain as an instance of the locale \<open>payout_chain\<close>, the settlement engine over any such chain, the mirror and the checks.
  \<^item> \<open>Escrow_Contract\<close>, \<open>Staking_Contract\<close> (\<open>contracts/src\<close>): every function but pause and unpause, over any token that
    moves what it says.
  \<^item> \<open>Audit_Chain\<close> (\<open>audit_log.py\<close>): the hash-chained log.
  \<^item> \<open>Gateway\<close>, \<open>Coordinator\<close>: all of the above that writes to the database as one transition system with the invariant
    \<open>coord_ok\<close>; \<open>Samples\<close>, \<open>Chain_Samples\<close>, \<open>Gateway_Samples\<close> hold the concrete states of the witnesses.

  \<^bold>\<open>What is shown.\<close>  C1 to C4 hold in every reachable state of the whole system: the books balance, escrow is what jobs
  hold, stakes cover disputes, jobs follow their lifecycle.  C5 to C12, C14 and C20 follow the money of a job from submission
  to its end, C7 to C9, C19 and C23 are about who may work and who is believed, C15 to C18 about blobs and credentials,
  C24 about errors.  C22, C26 and C34 to C36 are about inference, C37 and C38 about the relay, C21, C39 and C40 about what
  bounds unpaid use, C13 about the audit log.  C27 to C33 are about the chain: no double payment, solvent contracts, an
  exact mirror and an exact reconciliation.  C25, C32, C36 and C38 state where the code does not do what it means to.

  \<^bold>\<open>Bounds and fuel.\<close>  All recursion is structural or has a termination proof.  The one fuel is that of
  \<open>shortest_digits\<close> (the printing of a float): 16 steps from one digit, because 17 significant digits identify every double.  Amounts in the
  bounds of the billing theorems (below \<open>10 ^ 15\<close> USDC) are those the 28 digits represent exactly; the catalogue and the
  request validators keep a hold below \<open>10 ^ 12\<close>.

  \<^bold>\<open>Not modelled.\<close>  Process start-up, sessions, logging and secret fetching (\<open>main.py\<close>, \<open>db.py\<close>, \<open>secret_manager.py\<close>) are
  wiring.  The web3 client and the signers (\<open>chain/client.py\<close>, \<open>chain/signer.py\<close>) are RPC transport and key custody; what
  the engine needs of them is \<open>payout_chain\<close>.  The read-only pages (\<open>routes/billing.py\<close>, \<open>metrics.py\<close>, \<open>events.py\<close>,
  \<open>alerts.py\<close>), the proxy of \<open>routes/endpoints.py\<close> and the resolver of \<open>net_security.py\<close> change no state.  The programs on the
  providers' machines (\<open>agent/\<close>, \<open>node/\<close>, \<open>image_server/\<close>) drive containers, GPUs and local servers; to the coordinator they
  are arbitrary callers, so every theorem quantifies over what they send.  The frontend, migrations and deployment files
  are outside the model, as are non-finite floats in JSON and text beyond Latin-1.
\<close>

section \<open>The coordinator\<close>

text \<open>C1: In every reachable state of the coordinator, whatever requests and scheduler iterations
  interleaved, the ledger passes the integrity check, the balances of all accounts sum to zero, and
  no posted amount is negative: money is only ever moved between accounts.\<close>

theorem books_always_balance:
  assumes "initial r" "coord_step\<^sup>*\<^sup>* r st"
  shows "verify_ledger_integrity (sc_db st) = [] \<and> (\<Sum>acc \<in> UNIV. account_balance acc None (sc_db st)) = 0
     \<and> list_all (\<lambda>e. 0 \<le> le_amount e) (ledger_entries (sc_db st))"
  using coord.reachable_inv [OF assms] ledger_total_zero [of "sc_db st"]
  by (auto simp: coord_ok_def ledger_ok_def list_all_iff)

theorem books_always_balance_witness:
  "\<exists>st. coord_step\<^sup>*\<^sup>* \<lparr> sc_db = empty_db, sc_queue = [] \<rparr> st \<and> jobs (sc_db st) \<noteq> []
     \<and> verify_ledger_integrity (sc_db st) = [] \<and> (\<Sum>acc \<in> UNIV. account_balance acc None (sc_db st)) = 0"
proof -
  obtain st where st: "coord_step\<^sup>*\<^sup>* \<lparr> sc_db = empty_db, sc_queue = [] \<rparr> st" "jobs (sc_db st) \<noteq> []"
    by (rule empty_submitted) auto
  with books_always_balance [of "\<lparr> sc_db = empty_db, sc_queue = [] \<rparr>" st] show ?thesis
    by (auto simp: initial_def)
qed

text \<open>C2: In every reachable state the escrow posted for a job is exactly what the job still holds: the
  whole estimate until its final cost is fixed, and nothing once it is settled or refunded.\<close>

theorem escrow_matches_jobs:
  assumes "initial r" "coord_step\<^sup>*\<^sup>* r st" "get_job k (sc_db st) = Some job"
  shows "job_balance la_escrow k (sc_db st)
     = (case j_cost_final job of None \<Rightarrow> escrow_of job | Some _ \<Rightarrow> 0)"
  using coord.reachable_inv [OF assms(1,2)] get_job_SomeD [OF assms(3)]
  by (auto simp: coord_ok_def escrow_ok_def outstanding_def split: option.split)

theorem escrow_matches_jobs_witness:
  "\<exists>(st :: sched) job. get_job 0x10000 (sc_db st) = Some job \<and> job_balance la_escrow 0x10000 (sc_db st) = 5"
proof -
  obtain st where st: "coord_step\<^sup>*\<^sup>* \<lparr> sc_db = empty_db, sc_queue = [] \<rparr> st" "jobs (sc_db st) = [sample_job]"
    by (rule empty_submitted)
  then have "get_job 0x10000 (sc_db st) = Some sample_job" by (simp add: get_job_def tget_def sample_job_def new_job_def)
  with escrow_matches_jobs [OF _ st(1) this] show ?thesis
    by (auto simp: initial_def sample_job_def new_job_def escrow_of_def opt_get_def)
qed

text \<open>C3: In every reachable state no provider's stake is negative, the disputed account of a provider
  is exactly what its unresolved disputes hold, and every reputation lies between the bounds.\<close>

theorem stakes_cover_disputes:
  assumes "initial r" "coord_step\<^sup>*\<^sup>* r st"
  shows "0 \<le> provider_stake pid (sc_db st) \<and> account_balance la_disputed (Some pid) (sc_db st) = held_sum pid (sc_db st)
     \<and> list_all (\<lambda>p. REP_MIN \<le> pr_reputation p \<and> pr_reputation p \<le> REP_MAX) (providers (sc_db st))"
  using coord.reachable_inv [OF assms]
  by (simp add: coord_ok_def held_ok_def reputations_ok_def list_all_iff)

theorem stakes_cover_disputes_witness:
  "\<exists>st. coord_step\<^sup>*\<^sup>* \<lparr> sc_db = empty_db, sc_queue = [] \<rparr> st \<and> provider_stake 7 (sc_db st) = 100
     \<and> account_balance la_disputed (Some 7) (sc_db st) = held_sum 7 (sc_db st)"
proof -
  obtain st where st: "coord_step\<^sup>*\<^sup>* \<lparr> sc_db = empty_db, sc_queue = [] \<rparr> st" "provider_stake 7 (sc_db st) = 100"
    by (rule empty_staked)
  with stakes_cover_disputes [OF _ st(1), of 7] show ?thesis by (auto simp: initial_def)
qed

text \<open>C4: A job never disappears and only moves along the legal transitions of the state machine, with its
  owner, price and terms unchanged; once it is completed, failed or timed out its row never changes again.\<close>

theorem jobs_follow_lifecycle:
  assumes "initial r" "coord_step\<^sup>*\<^sup>* r st" "coord_step\<^sup>*\<^sup>* st st'" "get_job k (sc_db st) = Some job"
  shows "\<exists>job'. get_job k (sc_db st') = Some job' \<and> moves (j_status job) (j_status job')
     \<and> j_developer_id job' = j_developer_id job \<and> j_escrow_amount job' = j_escrow_amount job
     \<and> j_redundancy job' = j_redundancy job \<and> (terminal job \<longrightarrow> job' = job)"
  using coord.reachable_rel [OF assms(1,2,3)] assms(4) by (fastforce simp: db_evolves_def job_evolves_def)

theorem jobs_follow_lifecycle_witness:
  "\<exists>st st' job'. coord_step\<^sup>*\<^sup>* st st' \<and> get_job 0x10000 (sc_db st) = Some sample_job
     \<and> get_job 0x10000 (sc_db st') = Some job' \<and> moves js_queued (j_status job')"
proof -
  obtain st where st: "coord_step\<^sup>*\<^sup>* \<lparr> sc_db = empty_db, sc_queue = [] \<rparr> st" "jobs (sc_db st) = [sample_job]"
    by (rule empty_submitted)
  let ?st = "reaper_iteration 50 default_settings st"
  have step: "coord_step\<^sup>*\<^sup>* st ?st" by (rule r_into_rtranclp, rule coord_step.reap, rule sample_settings)
  have get: "get_job 0x10000 (sc_db st) = Some sample_job" using st(2) by (simp add: get_job_def tget_def sample_job_def new_job_def)
  from jobs_follow_lifecycle [OF _ st(1) step get] obtain job' where
    "get_job 0x10000 (sc_db ?st) = Some job'" "moves js_queued (j_status job')"
    by (auto simp: initial_def sample_job_def new_job_def)
  then show ?thesis using step get by blast
qed

section \<open>Results and payment\<close>



text \<open>C6: Finalization always gets through: a running job whose finished results are hashable ends in a
  terminal state, and its cost is fixed when it was paid for.\<close>

theorem finalize_reaches_terminal:
  assumes "valid_settings s" "coord_ok d" "get_job (j_id job) d = Some job" "j_status job = js_running"
    "list_all hashable (usable_hashes (map attempt_result (finished_attempts (j_id job) d)))"
  shows "\<exists>d' job'. finalize now job s d = Inr d' \<and> get_job (j_id job) d' = Some job' \<and> terminal job'
     \<and> (j_escrow_amount job \<noteq> None \<and> j_kind job \<noteq> jk_canary \<longrightarrow> j_cost_final job' \<noteq> None) \<and> coord_ok d'"
proof -
  have "job \<in> set (jobs d)" using get_job_SomeD [OF assms(3)] by simp
  then have "1 \<le> j_redundancy job" "escrow_fits job" using assms(2) by (auto simp: coord_ok_def jobs_ok_def)
  then obtain d' where fin: "finalize now job s d = Inr d'" using finalize_total [OF assms(1,4) _ _ assms(5)] by blast
  have live: "\<not> terminal job" using assms(4) by simp
  obtain job' where "coord_ok d'" "jobs d' = tput j_id job' (jobs d)" "finalized job job'"
    by (rule finalize_coord [OF fin live assms(1,2,3)])
  then show ?thesis
    using assms(3) fin by (auto simp: finalized_def job_evolves_def get_job_def tget_tput billed_def)
qed

theorem finalize_reaches_terminal_witness:
  "\<exists>d d' job'. get_job 0x10000 d = Some running_job \<and> finalize 30 running_job default_settings d = Inr d'
     \<and> get_job 0x10000 d' = Some job' \<and> terminal job'"
proof -
  obtain d where d: "coord_ok d" "get_job 0x10000 d = Some running_job" "finished_attempts 0x10000 d = []"
    by (rule sample_running)
  with finalize_reaches_terminal [OF sample_settings d(1), of running_job 30] show ?thesis
    by (auto simp: running_sel usable_hashes_def)
qed

text \<open>C7: With at most \<open>redundancy\<close> votes cast, a hash wins the quorum exactly when a strict majority of the
  redundancy voted for it; so there is at most one winner, and without a majority the job is undecided.\<close>

theorem quorum_is_strict_majority:
  assumes "1 \<le> redundancy" "int (length (usable_hashes rs)) \<le> redundancy"
  shows "qo_winning_hash (evaluate_quorum rs redundancy) = Some h \<longleftrightarrow> redundancy div 2 + 1 \<le> int (votes_for rs h)"
proof
  assume w: "qo_winning_hash (evaluate_quorum rs redundancy) = Some h"
  from assms(1) show "redundancy div 2 + 1 \<le> int (votes_for rs h)"
  proof (cases rule: quorum_cases [where rs = rs])
    case (reached g)
    then show ?thesis using w by simp
  next
    case undecided
    then show ?thesis using w by (simp add: not_reached_def)
  qed
qed (rule quorum_winner [OF assms])

theorem quorum_is_strict_majority_witness:
  "let r = (\<lambda>p h. \<lparr> ar_provider_id = Some p, ar_output_hash = Some h, ar_succeeded = True \<rparr>);
       rs = [r (1::uuid) ''aa'', r 2 ''bb'', r 3 ''aa'']
   in qo_winning_hash (evaluate_quorum rs 3) = Some ''aa''"
  using quorum_is_strict_majority [of 3 "[\<lparr> ar_provider_id = Some 1, ar_output_hash = Some ''aa'', ar_succeeded = True \<rparr>,
     \<lparr> ar_provider_id = Some 2, ar_output_hash = Some ''bb'', ar_succeeded = True \<rparr>,
     \<lparr> ar_provider_id = Some 3, ar_output_hash = Some ''aa'', ar_succeeded = True \<rparr>]" "''aa''"]
  by (simp add: usable_hashes_def votes_for_def)

section \<open>Scheduling\<close>



text \<open>C9: A provider that keeps beating keeps its job: until the renewed lease or the connection window runs
  out, neither reaper requeues or fails the job.\<close>

theorem heartbeat_keeps_job:
  assumes "heartbeat now s k p d = Inr (ack, d')" "coord_ok d" "get_provider (pr_id p) d = Some p"
    "get_job k d = Some job" "j_assigned_provider_id job = Some (pr_id p)"
    "t \<le> now + seconds (lease_seconds s)" "t \<le> now + seconds (connection_timeout_seconds s)"
  shows "\<exists>r d1 q d2. reap_expired_leases t s d' = Inr (r, d1) \<and> drain_unreachable_providers t s d' = Inr (q, d2)
     \<and> get_job k d1 = get_job k d' \<and> k \<notin> set r \<and> get_job k d2 = get_job k d' \<and> k \<notin> set q"
proof -
  have ok: "coord_ok d'" using heartbeat_keeps [OF assms(1,2,3)] by (simp add: keeps_def)
  obtain r d1 q d2 where r: "reap_expired_leases t s d' = Inr (r, d1)" "drain_unreachable_providers t s d' = Inr (q, d2)"
    using reap_expired_leases_coord [OF ok] drain_coord [OF ok] by blast
  show ?thesis using heartbeat_protects [OF assms(1,2,3) _ assms(6,7) r] assms(4,5) r by auto
qed

theorem heartbeat_keeps_job_witness:
  "\<exists>d ack d' r d1. heartbeat 20 default_settings 0x10000 sample_provider d = Inr (ack, d')
     \<and> reap_expired_leases 30 default_settings d' = Inr (r, d1) \<and> get_job 0x10000 d1 = get_job 0x10000 d' \<and> 0x10000 \<notin> set r"
proof -
  obtain st :: sched where st: "coord_ok (sc_db st)" "get_job 0x10000 (sc_db st) = Some assigned_job" "providers (sc_db st) = [sample_provider]"
    "\<exists>a. provider_attempt sample_provider 0x10000 (sc_db st) = Some a"
    by (rule sample_assigned)
  have p: "get_provider (pr_id sample_provider) (sc_db st) = Some sample_provider" using st(3) by (simp add: get_provider_def tget_def)
  have j: "j_assigned_provider_id assigned_job = Some (pr_id sample_provider)" "in_flight assigned_job" "j_id assigned_job = 0x10000"
    by (simp_all add: assigned_job_def sample_provider_def in_flight_def sample_job_def new_job_def)
  have t: "30 \<le> 20 + seconds (lease_seconds default_settings)" "30 \<le> 20 + seconds (connection_timeout_seconds default_settings)"
    by (simp_all add: seconds_def default_settings_def)
  obtain ack d' where hb: "heartbeat 20 default_settings 0x10000 sample_provider (sc_db st) = Inr (ack, d')"
    using st(2,4) j by (auto simp: heartbeat_def owned_active_job_def Let_def)
  from heartbeat_keeps_job [OF this st(1) p st(2) j(1) t] hb show ?thesis by blast
qed

section \<open>Submission\<close>

text \<open>C10: Submission is idempotent: repeating a request under the same idempotency key, at any later time and
  under any settings, answers the same job and changes nothing.\<close>

theorem resubmission_is_idempotent:
  assumes "submit_job bx usdc up now s dev body (Some k) st = Inr (job, st')"
  shows "submit_job bx usdc' up' now' s' dev body (Some k) st' = Inr (job, st')"
  by (rule resubmit [OF assms])

theorem resubmission_is_idempotent_witness:
  "\<exists>st. submit_sample start_sched = Inr (sample_job, st) \<and> submit_sample st = Inr (sample_job, st)"
proof -
  obtain st where st: "submit_sample start_sched = Inr (sample_job, st)" by (rule sample_submitted)
  with resubmission_is_idempotent [OF st, of None True 0 default_settings] show ?thesis by blast
qed

text \<open>C11: A new submission creates one queued job, moves its price estimate from the developer to escrow and
  touches no other balance; with the queue reachable the job is enqueued.\<close>

theorem submission_holds_escrow:
  assumes "submit_job bx usdc up now s dev body key st = Inr (job, st')" "valid_settings s"
    "(case key of None \<Rightarrow> None | Some k \<Rightarrow> find_idempotent dev k (sc_db st)) = None"
  shows "jobs (sc_db st') = jobs (sc_db st) @ [job] \<and> j_status job = js_queued \<and> j_developer_id job = dev
     \<and> j_escrow_amount job = Some (escrow_estimate (sj_resource_spec body) (sj_timeout_seconds body) s)
     \<and> sc_queue st' = sc_queue st @ (if up then [j_id job] else [])
     \<and> account_balance acc ref (sc_db st') = account_balance acc ref (sc_db st)
         + effect acc ref [Dr la_developer (escrow_estimate (sj_resource_spec body) (sj_timeout_seconds body) s) (Some dev),
                           Cr la_escrow (escrow_estimate (sj_resource_spec body) (sj_timeout_seconds body) s) (Some dev)]"
  using assms(1)
proof (cases rule: submit_job_cases)
  case (replayed k)
  then show ?thesis using assms(3) by simp
next
  case (created d)
  let ?x = "escrow_estimate (sj_resource_spec body) (sj_timeout_seconds body) s"
  have "0 \<le> ?x" using assms(2) by (simp add: escrow_estimate_def valid_settings_def field_bounds_def)
  moreover have "jobs d = jobs (sc_db st) @ [job]" using ledger_onlyD(8) [OF fiat.hold_only [OF created(4)]] by simp
  moreover have "account_balance acc ref ((sc_db st)\<lparr>jobs := jobs (sc_db st) @ [job], next_id := Suc (next_id (sc_db st))\<rparr>)
      = account_balance acc ref (sc_db st)"
    by (rule balance_cong) simp
  moreover have "j_id job = next_id (sc_db st)" by (simp add: created(2) new_job_def)
  ultimately show ?thesis
    using fiat.hold_balance [OF created(4), of acc ref] created(5,6) by (simp add: created(2) new_job_def max_def)
qed

theorem submission_holds_escrow_witness:
  "\<exists>st. submit_sample start_sched = Inr (sample_job, st) \<and> account_balance la_escrow (Some 1) (sc_db st) = 5"
proof -
  obtain st where st: "submit_sample start_sched = Inr (sample_job, st)" by (rule sample_submitted)
  have "account_balance la_escrow (Some 1) (sc_db start_sched) = 0"
    by (simp add: start_sched_def balance_as_net empty_db_def)
  with submission_holds_escrow [OF st sample_settings, of la_escrow "Some 1"] sample_escrow st show ?thesis
    by (auto simp: find_idempotent_def start_sched_def empty_db_def)
qed

section \<open>Metered billing\<close>

text \<open>C12: Work is never unpaid: once a developer in credit reserved an amount, settling any actual cost up to
  the reservation succeeds, charges exactly that cost (in whole USDC units) and leaves the balance non-negative.\<close>

theorem reservation_covers_settlement:
  assumes "valid_settings s" "0 \<le> developer_balance dev d" "reserve_balance now dev x d = Inr (held, e)"
    "actual \<le> held" "held < 10 ^ 15"
  shows "\<exists>d'. settle_reservation now' dev p held actual s e = Inr (max 0 (quantize_usdc actual), d')
     \<and> developer_balance dev d' = developer_balance dev d - max 0 (quantize_usdc actual) \<and> 0 \<le> developer_balance dev d'"
proof -
  note r = reserve_balance_Inr [OF assms(3)]
  have h: "0 \<le> held" "quantize_usdc held = held" using r(1) by simp_all
  obtain d' where d': "settle_reservation now' dev p held actual s e = Inr (max 0 (quantize_usdc actual), d')"
    using settle_covered [OF assms(1) r(4) [OF assms(2)] assms(4,5) h(1)] by blast
  then obtain f where f: "return_hold now' dev held e = Inr f"
      "charge_usage now' dev p actual s None ''inference_usage'' f = Inr (max 0 (quantize_usdc actual), d')"
    by (auto simp: settle_reservation_def bindE_Inr_iff)
  let ?c = "max 0 (quantize_usdc actual)"
  have le: "?c \<le> held" using quantize_usdc_mono [OF assms(4)] h by simp
  then have "?c < 10 ^ 16" using assms(5) by simp
  from charge_usage_balance(1) [OF f(2) assms(1) this, of la_developer "Some dev"]
    return_hold_Inr(2) [OF f(1), of la_developer "Some dev"] r(3) [of la_developer "Some dev"] h
  have b: "developer_balance dev d' = developer_balance dev d - ?c" by (simp add: developer_balance_def)
  have "held \<le> developer_balance dev d \<or> held = 0"
    using assms(3) by (auto simp: reserve_balance_def Let_def bindE_Inr_iff split: if_splits)
  with b le assms(2) d' show ?thesis by auto
qed

theorem reservation_covers_settlement_witness:
  "\<exists>d e d'. reserve_balance 1 1 3 d = Inr (3, e) \<and> settle_reservation 1 1 7 3 2 default_settings e = Inr (2, d')"
proof -
  obtain d e where b: "developer_balance 1 d = 10" and e: "reserve_balance 1 1 3 d = Inr (3, e)" by (rule sample_reserved)
  obtain d' where "settle_reservation 1 1 7 3 2 default_settings e = Inr (2, d')"
    using reservation_covers_settlement [OF sample_settings _ e, of 2 1 7] b by (auto simp: quantize_usdc_samples)
  with e show ?thesis by blast
qed

section \<open>Disputes\<close>

text \<open>C14: A slash is held, not burnt, until its dispute is resolved: an overturned dispute returns every balance
  to what it was, an upheld one moves exactly the held part of the stake to the protocol.\<close>

theorem dispute_resolution_settles_stake:
  assumes "open_dispute now pid amount reason s jid ev d = Inr (x, e)" "0 \<le> amount" "0 \<le> provider_stake pid d"
  shows "\<exists>d'. resolve_dispute now' x upheld r e = Inr d'
     \<and> (\<forall>acc ref. account_balance acc ref d' = account_balance acc ref d
         + (if upheld then effect acc ref [Dr la_stake (min amount (provider_stake pid d)) (Some pid),
                                           Cr la_protocol (min amount (provider_stake pid d)) None] else 0))"
proof -
  note o = open_dispute_Inr [OF assms(1)]
  obtain d' where d': "resolve_dispute now' x upheld r e = Inr d'" using resolve_dispute_total by blast
  have "\<not> resolved x" using o(3) by (simp add: resolved_def)
  then have "account_balance acc ref d' = account_balance acc ref d
         + (if upheld then effect acc ref [Dr la_stake (min amount (provider_stake pid d)) (Some pid),
                                           Cr la_protocol (min amount (provider_stake pid d)) None] else 0)" for acc ref
    using resolve_dispute_Inr(1) [OF d', of acc ref] o(1) [of acc ref] o(4,5) assms(2,3)
    by (cases acc) (auto simp: max_def min_def)
  with d' show ?thesis by blast
qed

theorem dispute_resolution_settles_stake_witness:
  "\<exists>d x e d'. provider_stake 7 d = 100 \<and> open_dispute 0 7 50 ''quorum_fail'' default_settings None None d = Inr (x, e)
     \<and> provider_stake 7 e = 50 \<and> resolve_dispute 1 x False ''appeal'' e = Inr d' \<and> provider_stake 7 d' = 100"
proof -
  obtain st where st: "coord_step\<^sup>*\<^sup>* \<lparr> sc_db = empty_db, sc_queue = [] \<rparr> st" "provider_stake 7 (sc_db st) = 100"
    by (rule empty_staked)
  obtain x e where o: "open_dispute 0 7 50 ''quorum_fail'' default_settings None None (sc_db st) = Inr (x, e)"
    using open_dispute_total by blast
  have "provider_stake 7 e = 50" using open_dispute_Inr(1) [OF o, of la_stake "Some 7"] st(2) by (simp add: provider_stake_def)
  moreover obtain d' where "resolve_dispute 1 x False ''appeal'' e = Inr d'" "provider_stake 7 d' = 100"
    using dispute_resolution_settles_stake [OF o, of 1 False "''appeal''"] st(2) by (auto simp: provider_stake_def)
  ultimately show ?thesis using o st(2) by blast
qed

section \<open>Storage and uploads\<close>



text \<open>C16: Stored blobs are immutable: no later write, whatever its content, changes what a reference reads.\<close>

theorem blobs_are_immutable:
  assumes "LocalStorage_put data suffix fs = Inr (ref, fs')" "LocalStorage_read r fs = Inr x"
  shows "LocalStorage_read r fs' = Inr x \<and> LocalStorage_exists ref fs' = Inr True"
  using local_fs.put_keeps [OF assms] local_fs.put_exist [OF assms(1)] by blast

theorem blobs_are_immutable_witness:
  "\<exists>fs' fs''. LocalStorage_put ''a'' [] (\<lambda>_. None) = Inr (content_ref ''a'' [], fs')
     \<and> LocalStorage_put ''b'' [] fs' = Inr (content_ref ''b'' [], fs'')
     \<and> LocalStorage_read (content_ref ''a'' []) fs'' = Inr ''a''"
proof -
  let ?fs = "[content_ref ''a'' [] \<mapsto> ''a'']"
  have 1: "LocalStorage_put ''a'' [] (\<lambda>_. None) = Inr (content_ref ''a'' [], ?fs)"
    using digest_path by (simp add: local_put_Inr)
  obtain fs where 2: "LocalStorage_put ''b'' [] ?fs = Inr (content_ref ''b'' [], fs)"
    using digest_path by (simp add: local_put_Inr)
  have "LocalStorage_read (content_ref ''a'' []) ?fs = Inr ''a''" using digest_path content_ref_plain by (simp add: local_read_Inr)
  from blobs_are_immutable [OF 2 this] 1 2 show ?thesis by blast
qed

section \<open>Credentials\<close>

text \<open>C17: A minted programmatic key authenticates its developer at any later time, never passes the gate that
  requires a wallet session, and stops working for good once revoked.\<close>

theorem api_key_lifecycle:
  assumes "create_api_key now s token label dev d = Inr ((k, lab, pre, plain), d1)" "keys_ok d" "urlsafe token"
  shows "\<exists>key e detail d2. resolve_key t (Some (''Bearer '' @ plain)) s d1 = Inr (key, e) \<and> ak_id key = k
     \<and> ak_developer_id key = Some (dv_id dev)
     \<and> require_wallet_session t (Some (''Bearer '' @ plain)) s d1 = Inl (HTTPException 403 detail)
     \<and> revoke_api_key k dev d1 = Inr d2 \<and> resolve_key t' (Some (''Bearer '' @ plain)) s d2 = Inl UNAUTHORIZED"
proof -
  let ?auth = "Some (''Bearer '' @ plain)"
  obtain key where key: "key_of t ?auth s d1 key" "ak_id key = k" "owned_programmatic (dv_id dev) key" "keys_ok d1"
    by (rule create_api_key_works [OF assms])
  have r: "resolve_key t ?auth s d1 = Inr (touch t key, put_key (touch t key) d1)"
    using resolve_key_Inr [OF key(4)] key(1) by blast
  obtain detail where w: "require_wallet_session t ?auth s d1 = Inl (HTTPException 403 detail)"
    using programmatic_refused [OF key(4,1)] key(3) by (auto simp: owned_programmatic_def)
  have "key \<in> set (api_keys d1)" using key(1) by (simp add: key_of_def)
  then have "find (\<lambda>x. owned_programmatic (dv_id dev) x \<and> ak_id x = k) (api_keys d1) \<noteq> None"
    using key(2,3) by (auto simp: find_None_iff)
  then obtain d2 where d2: "revoke_api_key k dev d1 = Inr d2" by (auto simp: revoke_api_key_def)
  show ?thesis
    using r w d2 revoke_stops(1) [OF d2 key(4,1,2), of t'] key(2,3)
    by (intro exI [of _ "touch t key"] exI [of _ "put_key (touch t key) d1"] exI [of _ detail] exI [of _ d2])
      (simp add: owned_programmatic_def)
qed

theorem api_key_lifecycle_witness:
  "\<exists>k lab pre plain d1 key e. create_api_key 0 default_settings ''abc'' ''ci'' (sample_developer 1) empty_db = Inr ((k, lab, pre, plain), d1)
     \<and> resolve_key 5 (Some (''Bearer '' @ plain)) default_settings d1 = Inr (key, e) \<and> ak_developer_id key = Some 1"
proof -
  obtain k lab pre plain d1 where c: "create_api_key 0 default_settings ''abc'' ''ci'' (sample_developer 1) empty_db = Inr ((k, lab, pre, plain), d1)"
    by (auto simp: create_api_key_def hash_api_key_def generate_api_key_def MAX_API_KEY_BYTES_def utf8_def insert_api_key_def empty_db_def Let_def)
  have "keys_ok empty_db" by (simp add: keys_ok_def empty_db_def)
  from api_key_lifecycle [OF c this, of 5 6] c show ?thesis by (auto simp: urlsafe_def sample_developer_def is_space_def)
qed

text \<open>C18: A sign-in proves possession of the wallet and works once: it succeeds only on an unexpired challenge
  whose message the wallet of the named address signed, and that challenge never signs anyone in again.\<close>

theorem sign_in_needs_fresh_signature:
  assumes "verify_sign_in E now s token addr nonce sig d = Inr (session, d')" "nonces_ok d"
  shows "(\<exists>c. c \<in> set (auth_nonces d) \<and> an_nonce c = nonce \<and> an_used_at c = None \<and> now < an_expires_at c
          \<and> normalize_address E addr = Some (an_address c) \<and> recover_signer E (an_message c) sig = Some (an_address c)
          \<and> sr_wallet_address session = an_address c)
     \<and> verify_sign_in E' now' s' token' addr' nonce sig' d' = Inl REJECTED"
proof -
  obtain c row dev e where c: "find (\<lambda>n. an_nonce n = nonce) (auth_nonces d) = Some c" "now < an_expires_at c"
    "tget an_id (an_id c) (auth_nonces d) = Some row" "an_used_at row = None"
    "normalize_address E addr = Some (an_address c)" "recover_signer E (an_message c) sig = Some (an_address c)"
    "sr_wallet_address session = an_address c"
    by (rule verify_sign_in_Inr [OF assms(1)]) auto
  show ?thesis
    using c challenge_row [OF assms(2) c(1,3)] find_SomeD [OF c(1)] sign_in_once [OF assms] by blast
qed

theorem sign_in_needs_fresh_signature_witness:
  "\<exists>d session d'. verify_sign_in sample_wallet 10 default_settings ''tok'' ''0xab'' ''n1'' ''sig'' d = Inr (session, d')
     \<and> verify_sign_in sample_wallet 11 default_settings ''tok2'' ''0xab'' ''n1'' ''sig'' d' = Inl REJECTED"
proof -
  obtain d session d' where ok: "nonces_ok d"
    and v: "verify_sign_in sample_wallet 10 default_settings ''tok'' ''0xab'' ''n1'' ''sig'' d = Inr (session, d')"
    by (rule sample_signed_in)
  from sign_in_needs_fresh_signature [OF v ok] v show ?thesis by blast
qed

section \<open>Trust and price\<close>

text \<open>C19: A provider's score is always the replay of its own events: recording an event keeps every stored score
  equal to the clamped fold of that provider's event log from the initial score.\<close>

theorem reputation_is_replay:
  assumes "record_reputation now p kind jid delta d = (p', d')" "get_provider (pr_id p) d = Some p"
    "distinct (map pr_id (providers d))" "\<forall>q \<in> set (providers d). pr_reputation q = replay (reputation_events d) (pr_id q)"
  shows "\<forall>q \<in> set (providers d'). pr_reputation q = replay (reputation_events d') (pr_id q)"
  using record_reputation_replay [OF assms(1) _ assms(2)] assms(3,4) by (simp add: replay_ok_def)

theorem reputation_is_replay_witness:
  "\<exists>p' d'. record_reputation 0 sample_provider rk_job_success None None (empty_db\<lparr>providers := [sample_provider]\<rparr>) = (p', d')
     \<and> (\<forall>q \<in> set (providers d'). pr_reputation q = replay (reputation_events d') (pr_id q))"
proof -
  let ?d = "empty_db\<lparr>providers := [sample_provider]\<rparr>"
  obtain p' d' where r: "record_reputation 0 sample_provider rk_job_success None None ?d = (p', d')" by force
  from reputation_is_replay [OF r] r show ?thesis
    by (auto simp: get_provider_def tget_def empty_db_def replay_def sample_provider_def INITIAL_REPUTATION_def)
qed

text \<open>C20: The price held at submission is enough: a job that runs no longer than its timeout never costs more than
  the escrow estimate, and the protocol's fee never exceeds the cost it is taken from.\<close>

theorem escrow_estimate_suffices:
  assumes "valid_settings s" "t \<le> of_int timeout" "escrow_estimate spec timeout s < 10 ^ 16"
  shows "0 \<le> compute_cost spec t s \<and> compute_cost spec t s \<le> escrow_estimate spec timeout s
     \<and> 0 \<le> protocol_fee (compute_cost spec t s) s \<and> protocol_fee (compute_cost spec t s) s \<le> compute_cost spec t s"
proof -
  have base: "0 \<le> base_job_price s" using assms(1) by (simp add: valid_settings_def field_bounds_def)
  have le: "compute_cost spec t s \<le> escrow_estimate spec timeout s"
    unfolding escrow_estimate_def by (rule compute_cost_mono [OF base assms(2)])
  then have "compute_cost spec t s < 10 ^ 16" using assms(3) by linarith
  from protocol_fee_bounds [OF assms(1) compute_cost_nonneg [OF base] compute_cost_on_grid this] le base show ?thesis by simp
qed

theorem escrow_estimate_suffices_witness:
  "compute_cost (sj_resource_spec sample_body) 120 default_settings \<le> 5"
  using escrow_estimate_suffices [OF sample_settings, of 120 300 "sj_resource_spec sample_body"] sample_escrow
  by (simp add: sample_body_def)


section \<open>Errors\<close>



section \<open>Money that stays behind\<close>

text \<open>C25: When the reaper fails a job because its attempts are exhausted, the escrow of the job is not refunded,
  and no later request or scheduler iteration ever releases it.\<close>

theorem exhausted_job_strands_escrow:
  assumes "coord_ok d" "get_job (j_id job) d = Some job" "in_flight job" "max_attempts s \<le> j_attempt_count job"
    "reclaim_job now s job d = Inr (rid, sc_db st)" "coord_step\<^sup>*\<^sup>* st st'"
  shows "rid = None \<and> job_balance la_escrow (j_id job) (sc_db st') = escrow_of job
     \<and> (\<exists>job'. get_job (j_id job) (sc_db st') = Some job' \<and> j_status job' = js_failed)"
proof -
  obtain job' rid' e where r: "reclaim_job now s job d = Inr (rid', put_job job' e)" "e = d \<or> (\<exists>a. e = put_attempt a d)"
    "transition now job js_failed = Inr job'" "rid' = None"
    using reclaim_job_Inr [OF assms(3), of now s d] assms(4) by metis
  have st: "sc_db st = put_job job' e" "rid = None" using r(1,4) assms(5) by simp_all
  note t = transition_Inr [OF r(3)]
  have get: "get_job (j_id job) (sc_db st) = Some job'"
    using assms(2) r(2) t(3) by (auto simp: st get_job_def tget_tput)
  have ok: "coord_ok (sc_db st)"
    by (rule reclaim_job_coord [OF assms(1,2,3), of now s]) (use assms(5) in auto)
  have "j_cost_final job = None"
    using assms(1) get_job_SomeD [OF assms(2)] in_flight_live [OF assms(3)] by (auto simp: coord_ok_def jobs_ok_def)
  then have esc: "outstanding job' = escrow_of job" using t by (simp add: outstanding_def escrow_of_def)
  have "get_job (j_id job) (sc_db st') = Some job'"
    using coord.run_rel [OF assms(6) ok] get t(2) by (auto simp: db_evolves_def)
  moreover have "coord_ok (sc_db st')" by (rule coord.run_inv [OF assms(6) ok])
  ultimately show ?thesis
    using esc st(2) t(2) get_job_SomeD [of "j_id job" "sc_db st'" job'] by (auto simp: coord_ok_def escrow_ok_def)
qed

theorem exhausted_job_strands_escrow_witness:
  "\<exists>d st. reclaim_job 90 (default_settings\<lparr>max_attempts := 1\<rparr>) running_job d = Inr (None, sc_db (st :: sched))
     \<and> job_balance la_escrow 0x10000 (sc_db st) = 5"
proof -
  let ?s = "default_settings\<lparr>max_attempts := 1\<rparr>"
  obtain d where d: "coord_ok d" "get_job 0x10000 d = Some running_job" by (rule sample_running)
  have fl: "in_flight running_job" by (simp add: in_flight_def running_sel)
  obtain rid d' where r: "reclaim_job 90 ?s running_job d = Inr (rid, sc_db \<lparr> sc_db = d', sc_queue = [] \<rparr>)"
    using reclaim_job_Inr [OF fl, of 90 ?s d] by (metis sched.select_convs(1))
  from exhausted_job_strands_escrow [OF d(1) _ fl _ r rtranclp.rtrancl_refl] r d show ?thesis
    by (intro exI [of _ d] exI [of _ "\<lparr> sc_db = d', sc_queue = [] \<rparr>"]) (auto simp: running_sel escrow_of_def opt_get_def)
qed

section \<open>Settlement on the chain\<close>



section \<open>The contracts\<close>

text \<open>C28: The escrow contract always holds at least what it owes its developers together, over every sequence
  of deposits, withdrawals, debits and outside transfers of a fee-free token; a debit is made by the coordinator
  only, takes exactly its amount, at most the developer's balance, and touches no other developer.\<close>

theorem escrow_contract_is_solvent:
  assumes "escrow_initial s0" "escrow_step\<^sup>*\<^sup>* s0 (T, self, s)"
  shows "owed s \<le> tk_balance T (es_token s) self
     \<and> (\<forall>m dev x s'. token_ok T \<and> Escrow_debit T m dev x s = Inr s' \<longrightarrow>
          COORDINATOR_ROLE \<in> set (msg_roles m) \<and> x \<le> Escrow_balanceOf dev s
          \<and> uint (Escrow_balanceOf dev s') = uint (Escrow_balanceOf dev s) - uint x
          \<and> (\<forall>a. a \<noteq> dev \<longrightarrow> Escrow_balanceOf a s' = Escrow_balanceOf a s))"
  using escrow.reachable_inv [OF assms] Escrow_debit_Inr by (auto simp: solvent_def)

theorem escrow_contract_is_solvent_witness:
  "\<exists>s. escrow_step\<^sup>*\<^sup>* (ledger_token, 99, fresh_escrow) (ledger_token, 99, s) \<and> Escrow_balanceOf 7 s = 30
     \<and> owed s \<le> tk_balance ledger_token (es_token s) 99"
proof -
  obtain s where s: "Escrow_deposit ledger_token (call_by 7 0 []) 30 fresh_escrow = Inr s" "Escrow_balanceOf 7 s = 30"
    using sample_deposit by blast
  have "escrow_step (ledger_token, 99, fresh_escrow) (ledger_token, 99, s)"
    by (rule escrow_step.deposit [OF ledger_token_ok _ _ s(1)]) (simp_all add: call_by_def)
  then have r: "escrow_step\<^sup>*\<^sup>* (ledger_token, 99, fresh_escrow) (ledger_token, 99, s)" by (rule r_into_rtranclp)
  then show ?thesis using s(2) escrow_contract_is_solvent [OF escrow_deployed r] by blast
qed

text \<open>C29: The staking contract always holds at least the sum of its five buckets (active stake, cooling stake,
  stake held in open disputes, earnings, settlement pool), over every sequence of its calls.\<close>

theorem staking_contract_is_solvent:
  assumes "staking_initial s0" "staking_step\<^sup>*\<^sup>* s0 (T, self, s)"
  shows "liabilities s \<le> tk_balance T (sk_token s) self"
  using staking.reachable_inv [OF assms] by (simp add: staking_solvent_def)

theorem staking_contract_is_solvent_witness:
  "\<exists>s. staking_step\<^sup>*\<^sup>* (ledger_token, 99, fresh_staking) (ledger_token, 99, s) \<and> stakeOf 7 s = 18
     \<and> liabilities s \<le> tk_balance ledger_token (sk_token s) 99"
proof -
  obtain s1 where s1: "Staking_stake ledger_token (call_by 7 0 []) 30 fresh_staking = Inr s1" "stakeOf 7 s1 = 30"
    "sk_unstaking s1 7 = no_unstaking" "\<not> hd_open (sk_dispute s1 7)"
    using sample_stake by auto
  obtain s where s: "slash (call_by 3 0 [COORDINATOR_ROLE]) 7 12 1 s1 = Inr s" "stakeOf 7 s = 18"
    using sample_slash [OF s1(2-4)] by blast
  have "staking_step (ledger_token, 99, fresh_staking) (ledger_token, 99, s1)"
    by (rule staking_step.stake [OF ledger_token_ok _ _ s1(1)]) (simp_all add: call_by_def)
  moreover have "staking_step (ledger_token, 99, s1) (ledger_token, 99, s)" by (rule staking_step.slash [OF s(1)])
  ultimately have r: "staking_step\<^sup>*\<^sup>* (ledger_token, 99, fresh_staking) (ledger_token, 99, s)"
    by (meson r_into_rtranclp rtranclp_trans)
  then show ?thesis using s(2) staking_contract_is_solvent [OF staking_deployed r] by blast
qed

text \<open>C30: A slash takes exactly its amount from a provider's collateral, active stake and cooling stake together,
  into a held dispute; only an arbiter releases it.  A dispute that is not upheld gives the provider its whole
  collateral back, one that is upheld moves exactly the held amount to the treasury; and nothing else of the
  provider's cooling stake or of another provider's stake changes.\<close>

theorem slash_is_held_until_resolved:
  assumes "token_ok T" "slash m p x h s = Inr s1" "resolveDispute T m' p upheld s1 = Inr s2"
  shows "COORDINATOR_ROLE \<in> set (msg_roles m) \<and> ARBITER_ROLE \<in> set (msg_roles m')
     \<and> disputeOf p s1 = (x, h, True)
     \<and> uint (stakeOf p s1) + uint (un_amount (sk_unstaking s1 p)) + uint x = uint (stakeOf p s) + uint (un_amount (sk_unstaking s p))
     \<and> uint (stakeOf p s2) + uint (un_amount (sk_unstaking s2 p)) + (if upheld then uint x else 0)
         = uint (stakeOf p s) + uint (un_amount (sk_unstaking s p))
     \<and> (if upheld then moved T (msg_self m') (sk_treasury s1) x (sk_token s) (sk_token s2) else sk_token s2 = sk_token s)
     \<and> (\<forall>a. a \<noteq> p \<longrightarrow> stakeOf a s1 = stakeOf a s \<and> sk_unstaking s1 a = sk_unstaking s a)"
proof -
  note a = slash_Inr [OF assms(2)] and b = resolveDispute_Inr [OF assms(3,1)]
  show ?thesis using a b by (auto simp: disputeOf_def)
qed

theorem slash_is_held_until_resolved_witness:
  "\<exists>(s :: (address \<Rightarrow> int) staking) s1 s2. slash (call_by 3 0 [COORDINATOR_ROLE]) 7 12 1 s = Inr s1
     \<and> resolveDispute ledger_token (call_by 5 0 [ARBITER_ROLE]) 7 False s1 = Inr s2 \<and> disputeOf 7 s1 = (12, 1, True)
     \<and> uint (stakeOf 7 s2) + uint (un_amount (sk_unstaking s2 7)) = uint (stakeOf 7 s) + uint (un_amount (sk_unstaking s 7))"
proof -
  obtain s :: "(address \<Rightarrow> int) staking" where s: "stakeOf 7 s = 30" "sk_unstaking s 7 = no_unstaking" "\<not> hd_open (sk_dispute s 7)"
    using sample_stake by auto
  obtain s1 where s1: "slash (call_by 3 0 [COORDINATOR_ROLE]) 7 12 1 s = Inr s1" "stakeOf 7 s1 = 18"
    using sample_slash [OF s] by blast
  obtain s2 where s2: "resolveDispute ledger_token (call_by 5 0 [ARBITER_ROLE]) 7 False s1 = Inr s2"
    using slash_Inr(5) [OF s1(1)] s1(2)
    by (simp add: resolveDispute_def call_by_def only_role_def bindE_def Let_def checked_add_def stakeOf_def)
  show ?thesis using s1(1) s2 slash_is_held_until_resolved [OF ledger_token_ok s1(1) s2] by auto
qed

section \<open>The watcher and reconciliation\<close>



text \<open>C32: A deposit from a wallet that belongs to nobody yet is marked processed and credits nobody; once the wallet
  is registered and the deposit's block is orphaned, the reversal takes the whole amount from the new developer, who
  never had it.\<close>

theorem uncredited_deposit_is_clawed_back:
  assumes "ev_event_name ev = ''Deposited''" "event_wallet ev = Inr wl" "event_units ev = Inr u" "0 \<le> from_units u (wt_decimals w)"
    and "developer_for wl d = None" "deep w tip ev" "apply_one now w tip ev d res = (r1, res1)"
    and "dv_wallet_address dv = Some (to_lower wl)"
    and "canonical R tip' (ev_block_number ev) = Inr good" "good \<noteq> Some (ev_block_hash ev)"
  shows "\<exists>d1 d3 res3. r1 = Inr d1 \<and> mirrored (dv_id dv) d1 = mirrored (dv_id dv) d
     \<and> check_event R now' w tip' (ev\<lparr>ev_confirmed := True, ev_processed := True\<rparr>) (d1\<lparr>developers := developers d1 @ [dv]\<rparr>) res2 = (Inr d3, res3)
     \<and> mirrored (dv_id dv) d3 = mirrored (dv_id dv) d - from_units u (wt_decimals w)"
  by (rule uncredited_reversal [OF assms])

theorem uncredited_deposit_is_clawed_back_witness:
  "\<exists>d1 d3 res1 res3. apply_one 0 sample_watcher 9 (event_of deposit_log 3) empty_db new_scan = (Inr d1, res1)
     \<and> check_event lost_chain 0 sample_watcher 9 ((event_of deposit_log 3)\<lparr>ev_confirmed := True, ev_processed := True\<rparr>)
          (d1\<lparr>developers := developers d1 @ [wallet_developer]\<rparr>) new_scan = (Inr d3, res3)
     \<and> mirrored 1 d3 = - 5"
proof -
  let ?ev = "event_of deposit_log 3"
  obtain r1 res1 where a: "apply_one 0 sample_watcher 9 ?ev empty_db new_scan = (r1, res1)" by fastforce
  have k: "wt_decimals sample_watcher = 6" "dv_id wallet_developer = 1" "mirrored 1 empty_db = 0"
    by (simp_all add: sample_watcher_def ChainWatcher_def wallet_developer_def sample_developer_def mirrored_def empty_db_def)
  have s: "ev_event_name ?ev = ''Deposited''" "event_wallet ?ev = Inr ''0xab''" "event_units ?ev = Inr 5000000"
    "0 \<le> from_units 5000000 (wt_decimals sample_watcher)" "developer_for ''0xab'' empty_db = None" "deep sample_watcher 9 ?ev"
    "dv_wallet_address wallet_developer = Some (to_lower ''0xab'')"
    "canonical lost_chain 9 (ev_block_number ?ev) = Inr None" "None \<noteq> Some (ev_block_hash ?ev)"
    by (simp_all add: event_of_def deposit_log_def event_wallet_def event_units_def py_str_def lower_0xab developer_for_def empty_db_def
        deep_def sample_watcher_def ChainWatcher_def wallet_developer_def canonical_def lost_chain_def sample_deposit_units)
  from uncredited_deposit_is_clawed_back [OF s(1-6) a s(7-9), of 0 new_scan] a k sample_deposit_units show ?thesis by auto
qed



section \<open>The inference gateway\<close>





text \<open>C36: When the account is overdrawn at settlement (a withdrawal on the chain was mirrored meanwhile), the unary
  endpoint answers with the error of the charge but returns the hold a second time: the developer gains, and their escrow
  loses, twice what was held.\<close>

theorem overdrawn_settlement_returns_hold_twice:
  assumes "hold_ok h" "pick_node c now s (cr_model body) (cr_data_tier body) d = Inr pid" "\<not> cr_stream body"
    and "dispatch post pid ''chat.completions'' (chat_payload body (ch_max_output h)) None = Inr reply"
    and "q = quantize_usdc (chat_billed h (usage_from reply (ch_prompt_tokens h) (ch_max_output h)))" "0 < q"
    and "developer_balance dev d + ch_held h < q"
  shows "\<exists>d'. chat_serve post c now s tok body dev h d = (Inl (InsufficientBalanceError (developer_balance dev d + ch_held h) q), d')
     \<and> developer_balance dev d' = developer_balance dev d + 2 * ch_held h
     \<and> account_balance la_escrow (Some dev) d' = account_balance la_escrow (Some dev) d - 2 * ch_held h"
  by (rule chat_serve_short [OF assms]) blast

theorem overdrawn_settlement_returns_hold_twice_witness:
  "\<exists>d d' e. chat_serve gw_post (\<lambda>_. 0) 1 default_settings ''t'' gw_body 1 gw_hold d = (Inl e, d')
     \<and> developer_balance 1 d' = developer_balance 1 d + 2 * (328 / 1000000)"
proof -
  obtain d where d: "gw_node d" "developer_balance 1 d < 0" by (rule gw_overdrawn)
  have sel: "cr_model gw_body = LLAMA" "cr_data_tier gw_body = dt_public" "\<not> cr_stream gw_body" "ch_held gw_hold = 328 / 1000000"
    "ch_prompt_tokens gw_hold = 5" "ch_max_output gw_hold = 4096" by (simp_all add: gw_body_def gw_hold_def)
  have b: "chat_billed gw_hold (usage_from gw_reply 5 4096) = 32793 / 100000000"
    by (simp add: chat_billed_def gw_usage gw_price) (simp add: gw_hold_def gw_price)
  have q: "328 / 1000000 = quantize_usdc (chat_billed gw_hold (usage_from gw_reply (ch_prompt_tokens gw_hold) (ch_max_output gw_hold)))"
    unfolding sel b gw_rounded ..
  show ?thesis
    using overdrawn_settlement_returns_hold_twice [OF gw_hold_ok _ sel(3) gw_dispatch q, of "\<lambda>_. 0" 1 default_settings d 7 1 "''t''"]
      gw_pick [OF d(1)] d(2) sel by auto
qed

text \<open>C26: Streaming changes nothing about the bill: where the unary endpoint completes a request, the streaming endpoint
  fed any chunks and the same final report ends with the same usage, cost and finish reason, delivers the chunks in order
  and leaves the same ledger.\<close>

theorem stream_billed_as_unary:
  assumes "chat_serve post c now s tok body dev h d = (Inr (Completed resp), d')"
    and "pick_node c now s (cr_model body) (cr_data_tier body) d = Inr pid"
    and "dispatch post pid ''chat.completions'' (chat_payload body (ch_max_output h)) None = Inr reply"
    and "\<forall>f \<in> set cs. jget f ''type'' = JStr ''chunk''" "jget fr ''type'' = JStr ''response''"
      "frame_status fr = Some st" "st < 400" "jget fr ''payload'' = JObj reply"
  shows "chat_stream_body now s dev pid h (map Frame cs @ [Frame fr]) d
     = (Usage (cc_usage resp) (cc_cost_usdc resp) (cc_finish_reason resp), deltas cs, d')"
  by (rule serve_as_stream [OF assms])

theorem stream_billed_as_unary_witness:
  "\<exists>d d' u f. chat_stream_body 1 default_settings 1 7 gw_hold [Frame gw_chunk, Frame gw_final] d = (Usage u (328 / 1000000) f, [''hi''], d')"
proof -
  obtain d resp d' where d: "gw_node d" "chat_serve gw_post (\<lambda>_. 0) 1 default_settings ''t'' gw_body 1 gw_hold d = (Inr (Completed resp), d')"
    "cc_cost_usdc resp = 328 / 1000000"
    by (rule gw_served)
  have sel: "cr_model gw_body = LLAMA" "cr_data_tier gw_body = dt_public" by (simp_all add: gw_body_def)
  have f: "\<forall>f \<in> set [gw_chunk]. jget f ''type'' = JStr ''chunk''" "jget gw_final ''type'' = JStr ''response''"
    "frame_status gw_final = Some 200" "jget gw_final ''payload'' = JObj gw_reply" "deltas [gw_chunk] = [''hi'']"
    by (simp_all add: gw_chunk_def gw_final_def jget_def frame_status_def py_int_def)
  show ?thesis
    using stream_billed_as_unary [OF d(2) gw_pick [OF d(1), folded sel] gw_dispatch f(1-3) _ f(4)] d(3) f(5) by auto
qed

section \<open>The relay\<close>



text \<open>C38: A node that reconnects while its old socket is being unwound can lose its models for good: from the start,
  with any provider key that resolves, the relay reaches a state in which the provider is registered on a socket that is
  serving and has declared its models, while the database lists none for it, so that no request is placed on it.\<close>

theorem reconnecting_node_loses_models:
  assumes "1 \<le> relay_auth_failures_per_minute s" "key \<noteq> []" "resolve_provider s key d = Some p"
  shows "\<exists>st k. (relay_step (resolve_provider s) s)\<^sup>*\<^sup>* (new_relay d) st \<and> ry_registry st p = Some k
     \<and> sk_phase (ry_sockets st ! k) = Serving \<and> sk_models (ry_sockets st ! k) = clean_models (JList (map JStr models))
     \<and> (\<forall>row \<in> set (provider_models (ry_db st)). pm_provider_id row \<noteq> p)"
proof -
  obtain st k where "(relay_step (resolve_provider s) s)\<^sup>*\<^sup>* (new_relay d) st" "ry_registry st p = Some k"
    "sk_phase (ry_sockets st ! k) = Serving" "sk_models (ry_sockets st ! k) = clean_models (JList (map JStr models))" "claims p (ry_db st) = {}"
    by (rule reconnect_race [of s key "resolve_provider s" d p models]) (use assms resolve_provider_stable in auto)
  then show ?thesis by (auto simp: claims_def)
qed

theorem reconnecting_node_loses_models_witness:
  "\<exists>d st k. (relay_step (resolve_provider default_settings) default_settings)\<^sup>*\<^sup>* (new_relay d) st \<and> ry_registry st 7 = Some k
     \<and> sk_phase (ry_sockets st ! k) = Serving \<and> claims 7 (ry_db st) = {}"
proof -
  let ?h = "hmac_sha256 (utf8 (api_hmac_key default_settings)) (utf8 ''k'')"
  have "length (utf8 ''k'') \<le> MAX_API_KEY_BYTES" by (simp add: utf8_def MAX_API_KEY_BYTES_def)
  then have h: "hash_api_key ''k'' (api_hmac_key default_settings) = Inr ?h" by (simp add: hash_api_key_def)
  let ?key = "\<lparr> ak_id = 3, ak_owner_type = ot_provider, ak_developer_id = None, ak_provider_id = Some 7, ak_key_hash = ?h, ak_prefix = ''k'',
    ak_revoked = False, ak_kind = ak_programmatic, ak_expires_at = None, ak_label = None, ak_created_at = 0, ak_last_used_at = None \<rparr>"
  have "resolve_provider default_settings ''k'' (empty_db\<lparr>providers := [sample_provider], api_keys := [?key]\<rparr>) = Some 7"
    unfolding resolve_provider_def h by (simp add: get_provider_def tget_def) (simp add: sample_provider_def)
  moreover have "1 \<le> relay_auth_failures_per_minute default_settings" by (simp add: default_settings_def)
  ultimately obtain d st k where "(relay_step (resolve_provider default_settings) default_settings)\<^sup>*\<^sup>* (new_relay d) st" "ry_registry st 7 = Some k"
    "sk_phase (ry_sockets st ! k) = Serving" "\<forall>row \<in> set (provider_models (ry_db st)). pm_provider_id row \<noteq> 7"
    using reconnecting_node_loses_models [of default_settings "''k''" _ 7 "[]"] by blast
  moreover from this(4) have "claims 7 (ry_db st) = {}" by (simp add: claims_def)
  ultimately show ?thesis by blast
qed

section \<open>Limits and the free tier\<close>

text \<open>C39: The rate limiter grants exactly the limit: of the requests an identity makes within one window, interleaved
  with any others and with Redis up or down at each, as many pass as were asked through Redis up to the limit, and as
  many again as were asked of the local fallback up to the limit.\<close>

theorem rate_limit_is_exact:
  assumes "\<forall>r \<in> set rs. fst (snd r) div width = w" "0 < width" "0 \<le> limit"
  shows "granted who rs (fst (run_requests limit width rs new_limiter)) = min limit (asked True who rs) + min limit (asked False who rs)"
proof -
  have "window_counts width w (\<lambda>_. 0) (\<lambda>_. 0) new_limiter" by (simp add: window_counts_def counted_as_def new_limiter_def)
  from granted_run [OF this assms] assms(3) show ?thesis by simp
qed

theorem rate_limit_is_exact_witness:
  "granted ''a'' [(True, 5, ''a''), (True, 6, ''b''), (True, 7, ''a''), (True, 8, ''a'')]
     (fst (run_requests 2 60 [(True, 5, ''a''), (True, 6, ''b''), (True, 7, ''a''), (True, 8, ''a'')] new_limiter)) = 2"
  using rate_limit_is_exact [of "[(True, 5, ''a''), (True, 6, ''b''), (True, 7, ''a''), (True, 8, ''a'')]" 60 0 2 "''a''"]
  by (simp add: asked_def)

text \<open>C40: Free images are gated and capped: a prompt that the moderator refuses, or an unconfigured moderator, ends the
  request before anything is spent or sent; and of all the requests in a day, whatever the nodes and the store do, a
  wallet gets at most what is left of its daily allowance.\<close>

theorem free_images_gated_and_capped:
  assumes "usage_ok d" "\<forall>q \<in> set qs. utc_day (fr_now q) = utc_day t"
  shows "int (drawn_for a (image_run put m s qs d st)) \<le> max 0 (free_images_per_day s - used_today a ''image'' t d)
     \<and> (\<not> vd_allowed (md_check m prompt) \<or> \<not> md_configured m \<longrightarrow>
          (\<exists>e. \<forall>post put. public_image put post m c now s developer prompt d st = (Inl e, d, st)))"
  by (intro conjI impI images_bounded [OF assms] refused_prompt_spends_nothing)

theorem free_images_gated_and_capped_witness:
  "int (drawn_for ''x'' (image_run (\<lambda>k _ st. Inr (k, st)) PromptModerator default_settings
       [\<lparr> fr_developer = wallet_developer, fr_post = gw_post, fr_load = (\<lambda>_. 0), fr_now = 5, fr_prompt = ''a cat'' \<rparr>] empty_db ()))
     \<le> free_images_per_day default_settings
   \<and> (\<exists>e. public_image (\<lambda>k _ st. Inr (k, st)) gw_post PromptModerator (\<lambda>_. 0) 5 default_settings wallet_developer ''Emma Watson nude'' empty_db ()
        = (Inl e, empty_db, ()))"
proof -
  let ?q = "\<lparr> fr_developer = wallet_developer, fr_post = gw_post, fr_load = (\<lambda>_. 0), fr_now = 5, fr_prompt = ''a cat'' \<rparr>"
  have u: "usage_ok empty_db" "used_today ''x'' ''image'' 5 empty_db = 0" "0 \<le> free_images_per_day default_settings"
    by (simp_all add: usage_ok_def used_today_def usage_row_def empty_db_def default_settings_def)
  have day: "\<forall>q \<in> set [?q]. utc_day (fr_now q) = utc_day 5" by simp
  have "md_check PromptModerator = check_prompt" by (simp add: PromptModerator_def)
  then have refused: "\<not> vd_allowed (md_check PromptModerator ''Emma Watson nude'')"
    using stopword_hides_name(1) by (simp only: refuse_def Verdict.simps simp_thms)
  note w = free_images_gated_and_capped [OF u(1) day, of "''x''" "\<lambda>k _ st. Inr (k, st)" PromptModerator default_settings "()"
      "''Emma Watson nude''" "\<lambda>_. 0" 5 wallet_developer, unfolded u(2)]
  show ?thesis using conjunct1 [OF w] conjunct2 [OF w, rule_format, OF disjI1 [OF refused]] u(3) by (auto simp only: diff_0_right max_absorb2)
qed

section \<open>Moderation\<close>



section \<open>Untrusted reports\<close>



section \<open>The audit log\<close>

text \<open>C13: The audit log is tamper evident: an entry appended to a log that verifies extends it, still verifies and moves
  the head to its own hash; and two logs of the same length that verify with the same head hold the same entries,
  hashes and all, unless two of their named payloads are a collision of SHA-256.\<close>

theorem audit_log_is_tamper_evident:
  assumes "verify_audit_chain d"
  shows "(\<forall>entry d'. append_audit event data d = (entry, d') \<longrightarrow>
            verify_audit_chain d' \<and> in_order d' = in_order d @ [entry] \<and> chain_head d' = al_entry_hash entry)
     \<and> (verify_audit_chain e \<and> audit_count d = audit_count e \<and> chain_head d = chain_head e \<longrightarrow>
          (map payload_of (in_order d) = map payload_of (in_order e) \<and> map al_entry_hash (in_order d) = map al_entry_hash (in_order e))
          \<or> (\<exists>i < length (audit_log d). payload_of (in_order d ! i) \<noteq> payload_of (in_order e ! i)
               \<and> sha256 (payload_of (in_order d ! i)) = sha256 (payload_of (in_order e ! i))))"
  using append_verified [OF assms] chain_pinned [OF assms] by blast

theorem audit_log_is_tamper_evident_witness:
  "\<exists>entry d. append_audit ''slash'' [] empty_db = (entry, d) \<and> verify_audit_chain d \<and> in_order d = [entry]"
proof -
  obtain entry d where e: "append_audit ''slash'' [] empty_db = (entry, d)" by fastforce
  have "audit_log empty_db = []" by (simp add: empty_db_def)
  then have "verify_audit_chain empty_db" "in_order empty_db = []" by (simp_all add: verify_audit_chain_def in_order_def)
  then show ?thesis using audit_log_is_tamper_evident [of empty_db "''slash''" "[]"] e by auto
qed

section \<open>Further laws\<close>

text \<open>A reservation that is released leaves every balance as it was before it was made.\<close>

lemma reserve_release_neutral:
  assumes "reserve_balance now dev x d = Inr (held, e)"
  shows "\<exists>d'. release_reservation now' dev held e = Inr d'
     \<and> (\<forall>acc ref. account_balance acc ref d' = account_balance acc ref d)"
proof -
  obtain d' where "release_reservation now' dev held e = Inr d'"
    using return_hold_total unfolding release_reservation_def by blast
  then show ?thesis using reserve_release [OF assms] by blast
qed

text \<open>Job secrets are short-lived and end with the job: they are minted only for a job in flight and expire
  after now, within one configured lifetime.\<close>

lemma job_secrets_expire:
  assumes "mint_job_secrets job s now = Inr (secrets, expires)" "valid_settings s"
  shows "(j_status job = js_assigned \<or> j_status job = js_running)
     \<and> now < expires \<and> expires \<le> now + secrets_ttl_seconds s"
  using mint_job_secrets_expiry [OF assms] assms(1) by (auto simp: mint_job_secrets_def split: if_splits)

end
